(* ===== verification/Prelude.thy ===== *)
theory Prelude
  imports Main "HOL-Library.Word"
begin

text \<open>
  The vocabulary every component of the development shares: the machine types
  of the C sources, the error numbers the drivers return, memory mapped
  register windows with the log of their writes, the read-modify-write
  operations on a register and the locale that states their laws once, the
  little and big endian byte fields of the frames, and the alignment macros.
\<close>

unbundle bit_operations_syntax

named_theorems reg_simps \<open>rewrite rules for register windows\<close>
named_theorems byte_simps \<open>rewrite rules for byte fields\<close>

section \<open>Machine types and error numbers\<close>

type_synonym u8 = "8 word"
type_synonym u16 = "16 word"
type_synonym u32 = "32 word"
type_synonym u64 = "64 word"
type_synonym bytes = "u8 list"

text \<open>The error numbers of the FreeBSD kernel the modelled code returns. A C
  function that returns 0 or an error number returns an errno option
  here: None is 0.\<close>

datatype errno =
    EIO | ENXIO | ENOMEM | ENODEV | EINVAL | ENOSPC | EAGAIN | EOPNOTSUPP
  | ENOBUFS | ETIMEDOUT | EBUSY | ENETDOWN | ENOENT | EMSGSIZE | EEXIST | EPERM | EFBIG | EFTYPE

type_synonym rc = "errno option"

abbreviation ok :: rc where "ok \<equiv> None"
abbreviation fail :: "errno \<Rightarrow> rc" where "fail e \<equiv> Some e"

type_synonym 'a result = "errno + 'a"

fun rbind :: "'a result \<Rightarrow> ('a \<Rightarrow> 'b result) \<Rightarrow> 'b result" where
  "rbind (Inl e) f = Inl e"
| "rbind (Inr x) f = f x"

lemma rbind_Inr_iff [simp]: "rbind r f = Inr y \<longleftrightarrow> (\<exists>x. r = Inr x \<and> f x = Inr y)"
  by (cases r) auto

section \<open>Register windows\<close>

text \<open>A mapped window of 32-bit device registers: the value each byte offset
  holds and the writes the driver made, in order. A read returns what the
  register holds; where the device itself changes a register, the value it
  shows is an argument of the operation that reads it.\<close>

record mmio =
  reg_val :: "nat \<Rightarrow> u32"
  reg_log :: "(nat \<times> u32) list"

definition rd :: "mmio \<Rightarrow> nat \<Rightarrow> u32" where
  "rd m r = reg_val m r"

definition wr :: "mmio \<Rightarrow> nat \<Rightarrow> u32 \<Rightarrow> mmio" where
  "wr m r v = m\<lparr>reg_val := (reg_val m)(r := v), reg_log := reg_log m @ [(r, v)]\<rparr>"

lemma rd_wr [reg_simps, simp]: "rd (wr m r v) r' = (if r' = r then v else rd m r')"
  by (simp add: rd_def wr_def)

lemma reg_log_wr [reg_simps, simp]: "reg_log (wr m r v) = reg_log m @ [(r, v)]"
  by (simp add: wr_def)

text \<open>The laws a register file promises its clients, and what follows for the
  set-bits and clear-bits sequences all drivers use.\<close>

locale register_file =
  fixes get :: "'m \<Rightarrow> nat \<Rightarrow> u32"
    and put :: "'m \<Rightarrow> nat \<Rightarrow> u32 \<Rightarrow> 'm"
  assumes get_put_same: "get (put m r v) r = v"
    and get_put_other: "r' \<noteq> r \<Longrightarrow> get (put m r v) r' = get m r'"
begin

lemma get_put: "get (put m r v) r' = (if r' = r then v else get m r')"
  by (simp add: get_put_same get_put_other)

text \<open>Replace the bits of msk by those of v.\<close>

lemma modify_bit:
  "bit (get (put m r ((get m r AND NOT msk) OR (v AND msk))) r) n
     = (if bit msk n then bit v n else bit (get m r) n)"
  by (auto simp: get_put_same bit_simps dest: bit_imp_le_length)

lemma modify_frame:
  "r' \<noteq> r \<Longrightarrow> get (put m r ((get m r AND NOT msk) OR (v AND msk))) r' = get m r'"
  by (simp add: get_put_other)

lemma set_bits_bit:
  "bit (get (put m r (get m r OR v)) r) n \<longleftrightarrow> bit (get m r) n \<or> bit v n"
  by (simp add: get_put_same bit_simps)

lemma clear_bits_bit:
  "bit (get (put m r (get m r AND NOT v)) r) n \<longleftrightarrow> bit (get m r) n \<and> \<not> bit v n"
  by (auto simp: get_put_same bit_simps dest: bit_imp_le_length)

end

interpretation mm: register_file rd wr
  by unfold_locales (simp_all add: rd_wr)

lemma masked_bits:
  "bit (((v :: 'a::len word) AND NOT m) OR x) n \<longleftrightarrow> bit v n \<and> \<not> bit m n \<or> bit x n"
  by (auto simp: bit_simps dest: bit_imp_le_length)

text \<open>Single-bit flags of a register or descriptor word.\<close>

lemma flag_bit:
  assumes "m = push_bit n (1 :: 'a::len word)"
  shows "bit m k \<longleftrightarrow> k = n \<and> n < LENGTH('a)"
  unfolding assms by (simp only: bit_push_bit_iff bit_1_iff possible_bit_word) auto

lemma and_flag:
  assumes "m = push_bit n (1 :: 'a::len word)" "n < LENGTH('a)"
  shows "x AND m = 0 \<longleftrightarrow> \<not> bit x n"
proof
  assume "x AND m = 0"
  then have "\<not> bit (x AND m) n" by simp
  then show "\<not> bit x n"
    using assms(2) by (simp only: bit_and_iff flag_bit[OF assms(1)]) simp
next
  assume "\<not> bit x n"
  then show "x AND m = 0"
    by (intro bit_word_eqI) (simp only: bit_and_iff flag_bit[OF assms(1)], auto)
qed

lemma small_not_bit:
  assumes "unat (l :: 'a::len word) < 2 ^ n" "n \<le> k"
  shows "\<not> bit l k"
proof -
  have "unat (take_bit n l) = unat l"
    using assms(1) by (simp add: unsigned_take_bit_eq take_bit_nat_eq_self)
  then have "l = take_bit n l"
    by (simp add: word_unat_eq_iff)
  moreover have "\<not> bit (take_bit n l) k"
    using assms(2) by (simp add: bit_take_bit_iff)
  ultimately show ?thesis by simp
qed

section \<open>Descriptor rings\<close>

text \<open>The contract of a ring of descriptors shared with a device: buffers are
  pushed while there is room, the device works on them, and a reap takes the
  finished ones off in the order they were pushed. A history of such
  operations loses no buffer, invents none and keeps their order.\<close>

datatype ('p, 'h) ring_op = Push 'p | Reap | Device 'h

fun ring_run :: "('s \<Rightarrow> bool) \<Rightarrow> ('p \<Rightarrow> 's \<Rightarrow> 's) \<Rightarrow> ('s \<Rightarrow> 's option) \<Rightarrow> ('h \<Rightarrow> 's \<Rightarrow> 's)
    \<Rightarrow> ('p, 'h) ring_op list \<Rightarrow> 's \<Rightarrow> 's option" where
  "ring_run room push reap dev [] s = Some s"
| "ring_run room push reap dev (Push p # ops) s =
     ring_run room push reap dev ops (if room s then push p s else s)"
| "ring_run room push reap dev (Reap # ops) s =
     (case reap s of None \<Rightarrow> None | Some s' \<Rightarrow> ring_run room push reap dev ops s')"
| "ring_run room push reap dev (Device h # ops) s = ring_run room push reap dev ops (dev h s)"

locale descriptor_ring =
  fixes ok_state :: "'s \<Rightarrow> bool"
    and room :: "'s \<Rightarrow> bool"
    and push :: "'p \<Rightarrow> 's \<Rightarrow> 's"
    and reap :: "'s \<Rightarrow> 's option"
    and dev :: "'h \<Rightarrow> 's \<Rightarrow> 's"
    and legal :: "'p \<Rightarrow> bool"
    and in_flight :: "'s \<Rightarrow> 'b list"
    and returned :: "'s \<Rightarrow> 'b list"
    and buf :: "'p \<Rightarrow> 'b"
  assumes push_law: "ok_state s \<Longrightarrow> room s \<Longrightarrow> legal p \<Longrightarrow> ok_state (push p s) \<and>
      in_flight (push p s) = in_flight s @ [buf p] \<and> returned (push p s) = returned s"
    and reap_law: "ok_state s \<Longrightarrow> \<exists>s' n. reap s = Some s' \<and> ok_state s' \<and>
      in_flight s' = drop n (in_flight s) \<and> returned s' = returned s @ take n (in_flight s)"
    and dev_law: "ok_state s \<Longrightarrow> ok_state (dev h s) \<and> in_flight (dev h s) = in_flight s \<and>
      returned (dev h s) = returned s"
begin

lemma reap_history:
  assumes "ok_state s"
  obtains s' where "reap s = Some s'" "ok_state s'"
    "returned s' @ in_flight s' = returned s @ in_flight s"
  using reap_law[OF assms] by (metis append.assoc append_take_drop_id)

text \<open>No run gets stuck, and what came back followed by what is still in
  flight is the old history followed by a subsequence of the pushed buffers.\<close>

lemma run_history:
  assumes "ok_state s" and "\<forall>p. Push p \<in> set ops \<longrightarrow> legal p"
  shows "\<exists>s' ps. ring_run room push reap dev ops s = Some s' \<and> ok_state s'
     \<and> returned s' @ in_flight s' = (returned s @ in_flight s) @ map buf ps
     \<and> set ps \<subseteq> {p. Push p \<in> set ops} \<and> length ps \<le> length ops"
  using assms
proof (induction ops arbitrary: s)
  case Nil
  then show ?case by (auto intro!: exI[of _ "[]"])
next
  case (Cons x ops)
  have leg: "\<forall>p. Push p \<in> set ops \<longrightarrow> legal p" using Cons.prems(2) by simp
  show ?case
  proof (cases x)
    case (Push p)
    define s1 where "s1 = (if room s then push p s else s)"
    have s1: "ok_state s1" "returned s1 @ in_flight s1
        = (returned s @ in_flight s) @ map buf (if room s then [p] else [])"
      using push_law[OF Cons.prems(1), of p] Cons.prems Push by (auto simp: s1_def)
    from Cons.IH[OF s1(1) leg] obtain s' ps where *:
      "ring_run room push reap dev ops s1 = Some s'" "ok_state s'"
      "returned s' @ in_flight s' = (returned s1 @ in_flight s1) @ map buf ps"
      "set ps \<subseteq> {p. Push p \<in> set ops}" "length ps \<le> length ops" by blast
    show ?thesis
      using * s1(2) Push
      by (intro exI[of _ s'] exI[of _ "(if room s then [p] else []) @ ps"])
         (auto simp: s1_def split: if_splits)
  next
    case Reap
    from Cons.prems(1) obtain s1 where s1: "reap s = Some s1" "ok_state s1"
      "returned s1 @ in_flight s1 = returned s @ in_flight s" by (rule reap_history)
    from Cons.IH[OF s1(2) leg] show ?thesis
      using s1 Reap by fastforce
  next
    case (Device h)
    from Cons.IH[OF _ leg, of "dev h s"] dev_law[OF Cons.prems(1), of h] show ?thesis
      using Device by fastforce
  qed
qed

end

section \<open>Simulations\<close>

text \<open>The contract between a component and its abstract specification: every
  operation keeps the invariant and commutes with the abstraction. A history of
  operations then does what the specification says, step for step.\<close>

locale simulation =
  fixes inv :: "'c \<Rightarrow> bool"
    and step :: "'op \<Rightarrow> 'c \<Rightarrow> 'c"
    and astep :: "'op \<Rightarrow> 'a \<Rightarrow> 'a"
    and abst :: "'c \<Rightarrow> 'a"
  assumes step_inv: "inv c \<Longrightarrow> inv (step x c)"
    and step_abs: "inv c \<Longrightarrow> abst (step x c) = astep x (abst c)"
begin

lemma run_simulates:
  "inv c \<Longrightarrow> inv (fold step xs c) \<and> abst (fold step xs c) = fold astep xs (abst c)"
  by (induction xs arbitrary: c) (simp_all add: step_inv step_abs)

end

section \<open>Sizes\<close>

text \<open>The alignment macros roundup, roundup2 and
  CYW_ALIGN4 on sizes that do not wrap.\<close>

definition roundup :: "nat \<Rightarrow> nat \<Rightarrow> nat" where
  "roundup n a = (n + a - 1) div a * a"

lemma roundup_ge:
  assumes "0 < a"
  shows "n \<le> roundup n a"
proof -
  have "n + a - 1 = roundup n a + (n + a - 1) mod a"
    by (simp only: roundup_def div_mult_mod_eq)
  moreover have "(n + a - 1) mod a < a"
    using assms by simp
  ultimately show ?thesis
    using assms by linarith
qed

lemma roundup_less:
  assumes "0 < a"
  shows "roundup n a < n + a"
proof -
  have "n + a - 1 = roundup n a + (n + a - 1) mod a"
    by (simp only: roundup_def div_mult_mod_eq)
  then show ?thesis
    using assms by linarith
qed

lemma roundup_dvd: "a dvd roundup n a"
  by (simp add: roundup_def)

section \<open>Byte fields\<close>

definition le16 :: "u16 \<Rightarrow> bytes" where
  "le16 w = [ucast w, ucast (drop_bit 8 w)]"

definition le32 :: "u32 \<Rightarrow> bytes" where
  "le32 w = [ucast w, ucast (drop_bit 8 w), ucast (drop_bit 16 w), ucast (drop_bit 24 w)]"

definition rd_le16 :: "bytes \<Rightarrow> nat \<Rightarrow> u16" where
  "rd_le16 b i = ucast (b ! i) OR push_bit 8 (ucast (b ! (i + 1)))"

definition rd_le32 :: "bytes \<Rightarrow> nat \<Rightarrow> u32" where
  "rd_le32 b i = ucast (b ! i) OR push_bit 8 (ucast (b ! (i + 1)))
     OR push_bit 16 (ucast (b ! (i + 2))) OR push_bit 24 (ucast (b ! (i + 3)))"

definition be16 :: "u16 \<Rightarrow> bytes" where
  "be16 w = [ucast (drop_bit 8 w), ucast w]"

definition rd_be16 :: "bytes \<Rightarrow> nat \<Rightarrow> u16" where
  "rd_be16 b i = push_bit 8 (ucast (b ! i)) OR ucast (b ! (i + 1))"

definition rd_be32 :: "bytes \<Rightarrow> nat \<Rightarrow> u32" where
  "rd_be32 b i = push_bit 24 (ucast (b ! i)) OR push_bit 16 (ucast (b ! (i + 1)))
     OR push_bit 8 (ucast (b ! (i + 2))) OR ucast (b ! (i + 3))"

definition be32 :: "u32 \<Rightarrow> bytes" where
  "be32 w = [ucast (drop_bit 24 w), ucast (drop_bit 16 w), ucast (drop_bit 8 w), ucast w]"

lemma length_be32 [byte_simps, simp]: "length (be32 w) = 4"
  by (simp add: be32_def)

lemma length_le16 [byte_simps, simp]: "length (le16 w) = 2"
  by (simp add: le16_def)

lemma length_le32 [byte_simps, simp]: "length (le32 w) = 4"
  by (simp add: le32_def)

lemma length_be16 [byte_simps, simp]: "length (be16 w) = 2"
  by (simp add: be16_def)

lemma word16_split: "(ucast (ucast w :: u8) :: u16) OR push_bit 8 (ucast (ucast (drop_bit 8 w) :: u8)) = w"
proof (rule bit_word_eqI)
  fix n assume "n < LENGTH(16)"
  then show "bit ((ucast (ucast w :: u8) :: u16) OR push_bit 8 (ucast (ucast (drop_bit 8 w) :: u8))) n = bit w n"
    by (cases "n < 8") (auto simp: bit_simps)
qed

lemma word32_split:
  "(ucast (ucast w :: u8) :: u32) OR push_bit 8 (ucast (ucast (drop_bit 8 w) :: u8))
     OR push_bit 16 (ucast (ucast (drop_bit 16 w) :: u8)) OR push_bit 24 (ucast (ucast (drop_bit 24 w) :: u8)) = w"
proof (rule bit_word_eqI)
  fix n assume "n < LENGTH(32)"
  then show "bit ((ucast (ucast w :: u8) :: u32) OR push_bit 8 (ucast (ucast (drop_bit 8 w) :: u8))
     OR push_bit 16 (ucast (ucast (drop_bit 16 w) :: u8)) OR push_bit 24 (ucast (ucast (drop_bit 24 w) :: u8))) n = bit w n"
    by (cases "n < 8"; cases "n < 16"; cases "n < 24") (auto simp: bit_simps)
qed

lemma rd_le16_append [byte_simps]: "i = length xs \<Longrightarrow> rd_le16 (xs @ le16 w @ ys) i = w"
  by (simp add: rd_le16_def le16_def nth_append word16_split)

lemma rd_le32_append [byte_simps]: "i = length xs \<Longrightarrow> rd_le32 (xs @ le32 w @ ys) i = w"
  by (simp add: rd_le32_def le32_def nth_append word32_split)

lemma rd_be16_append [byte_simps]: "i = length xs \<Longrightarrow> rd_be16 (xs @ be16 w @ ys) i = w"
  using word16_split[of w]
  by (simp add: rd_be16_def be16_def nth_append or.commute)

lemma rd_be32_append [byte_simps]: "i = length xs \<Longrightarrow> rd_be32 (xs @ be32 w @ ys) i = w"
  using word32_split[of w]
  by (simp add: rd_be32_def be32_def nth_append or.commute or.left_commute or.assoc)

lemma rd_le16_later: "length xs \<le> i \<Longrightarrow> rd_le16 (xs @ ys) i = rd_le16 ys (i - length xs)"
  by (simp add: rd_le16_def nth_append Suc_diff_le)

lemma rd_le32_later: "length xs \<le> i \<Longrightarrow> rd_le32 (xs @ ys) i = rd_le32 ys (i - length xs)"
  by (simp add: rd_le32_def nth_append Suc_diff_le numeral_eq_Suc)

lemma rd_le16_earlier: "i + 1 < length xs \<Longrightarrow> rd_le16 (xs @ ys) i = rd_le16 xs i"
  by (simp add: rd_le16_def nth_append)

lemma rd_le32_earlier: "i + 3 < length xs \<Longrightarrow> rd_le32 (xs @ ys) i = rd_le32 xs i"
  by (simp add: rd_le32_def nth_append)

end
