(* ===== verification/Bcm2712.thy ===== *)
theory Bcm2712
  imports Prelude
begin

text \<open>
  The SoC support module (bcm2712.c, bcm2712_var.h): the AVS ring oscillator
  temperature sensor with its cached reading, the RP1 PWM1 controller the fan
  hangs on, and the module event handler that maps the register windows,
  starts the PWM clock and muxes GPIO45. The locale pwm_provider
  states what the fan module relies on.
\<close>

section \<open>State\<close>

text \<open>The four windows the module maps, each with its registers.\<close>

datatype window = AVS | PWM1 | CLK | GPIO

record pwm_channel =
  chan_period :: u32
  chan_duty_a :: u32
  chan_duty_b :: u32
  chan_flags :: u32
  chan_enabled :: bool

text \<open>The softc; a pointer field is the truth value of "is not NULL", the
  registers behind it are those of the window.\<close>

record bcm2712_softc =
  avs_vaddr :: bool
  avs_mapped :: bool
  pwm_vaddr :: bool
  pwm_mapped :: bool
  channels :: "pwm_channel list"
  cached_temp_mc :: u32
  last_update :: nat

text \<open>The module's global pointer, the registers of the machine, the mappings
  that are live, whether the periodic callout is scheduled, and the clock.\<close>

record bcm_world =
  bcm2712_sc :: "bcm2712_softc option"
  win :: "window \<Rightarrow> mmio"
  mappings :: "window list"
  callout_pending :: bool
  time_uptime :: nat

definition BCM2712_PWM_NCHANNELS :: u32 where "BCM2712_PWM_NCHANNELS = 4"
definition RP1_PWM_GLOBAL_CTRL :: nat where "RP1_PWM_GLOBAL_CTRL = 0"
definition RP1_PWM_CHAN_CTRL :: "u32 \<Rightarrow> nat" where "RP1_PWM_CHAN_CTRL x = 0x14 + unat x * 16"
definition RP1_PWM_RANGE :: "u32 \<Rightarrow> nat" where "RP1_PWM_RANGE x = 0x18 + unat x * 16"
definition RP1_PWM_DUTY :: "u32 \<Rightarrow> nat" where "RP1_PWM_DUTY x = 0x20 + unat x * 16"
definition RP1_PWM_TACH_RPM :: nat where "RP1_PWM_TACH_RPM = 0x3c"
definition RP1_PWM_CHAN_DEFAULT :: u32 where "RP1_PWM_CHAN_DEFAULT = 0x101"
definition RP1_PWM_POLARITY :: u32 where "RP1_PWM_POLARITY = push_bit 3 1"
definition RP1_PWM_SET_UPDATE :: u32 where "RP1_PWM_SET_UPDATE = push_bit 31 1"
definition RP1_PWM_CHAN_ENABLE :: "u32 \<Rightarrow> u32" where "RP1_PWM_CHAN_ENABLE x = push_bit (unat x) 1"
definition RP1_PWM_CLK_PERIOD_NS :: u32 where "RP1_PWM_CLK_PERIOD_NS = 163"

definition RP1_GPIO_CTRL_OFFSET :: "nat \<Rightarrow> nat" where
  "RP1_GPIO_CTRL_OFFSET pin =
     (if pin < 28 then 0 else if pin < 34 then 0x4000 else 0x8000)
     + (if pin < 28 then pin else if pin < 34 then pin - 28 else pin - 34) * 8 + 4"

lemmas pwm_reg_defs = RP1_PWM_GLOBAL_CTRL_def RP1_PWM_CHAN_CTRL_def RP1_PWM_RANGE_def
  RP1_PWM_DUTY_def

section \<open>Thermal sensor\<close>

text \<open>The conversion of a valid raw value: unsigned 32-bit arithmetic with the
  negative slope, read back as a signed value and clamped.\<close>

definition temp_code_to_mc :: "u32 \<Rightarrow> u32" where
  "temp_code_to_mc raw_code =
     (let temp_mc = (- 550) * raw_code + 450000;
          temp_mc = (if temp_mc <s 0 then 0 else temp_mc)
      in if 120000 <s temp_mc then 120000 else temp_mc)"

definition bcm2712_thermal_read_raw :: "mmio \<Rightarrow> bcm2712_softc \<Rightarrow> u32" where
  "bcm2712_thermal_read_raw avs sc =
     (if \<not> avs_mapped sc \<or> \<not> avs_vaddr sc then cached_temp_mc sc
      else let raw_value = rd avs 0x200 in
        if raw_value AND 0x10000 = 0 then cached_temp_mc sc
        else temp_code_to_mc (raw_value AND 0x3FF))"

definition bcm2712_thermal_raw_to_millic :: "u32 \<Rightarrow> u32" where
  "bcm2712_thermal_raw_to_millic temp_mc = temp_mc"

definition bcm2712_thermal_sysctl_temp :: "bcm2712_softc \<Rightarrow> u32" where
  "bcm2712_thermal_sysctl_temp sc = cached_temp_mc sc div 100 + 2731"

text \<open>The callout body: the softc it is armed with is the module's own.\<close>

definition bcm2712_thermal_update :: "bcm_world \<Rightarrow> bcm_world" where
  "bcm2712_thermal_update w =
     (case bcm2712_sc w of None \<Rightarrow> w
      | Some sc \<Rightarrow>
        let raw_value = bcm2712_thermal_read_raw (win w AVS) sc in
        w\<lparr>bcm2712_sc := Some (sc\<lparr>cached_temp_mc := bcm2712_thermal_raw_to_millic raw_value,
                                 last_update := time_uptime w\<rparr>),
          callout_pending := True\<rparr>)"

definition bcm2712_read_cpu_temp :: "bcm_world \<Rightarrow> u32 result" where
  "bcm2712_read_cpu_temp w =
     (case bcm2712_sc w of None \<Rightarrow> Inl ENODEV | Some sc \<Rightarrow> Inr (cached_temp_mc sc))"

definition bcm2712_get_softc :: "bcm_world \<Rightarrow> bcm2712_softc option" where
  "bcm2712_get_softc w = bcm2712_sc w"

section \<open>PWM controller\<close>

definition ns_to_ticks :: "u32 \<Rightarrow> u32" where
  "ns_to_ticks ns = (ns + RP1_PWM_CLK_PERIOD_NS div 2) div RP1_PWM_CLK_PERIOD_NS"

definition pwm_program :: "u32 \<Rightarrow> u32 \<Rightarrow> u32 \<Rightarrow> mmio \<Rightarrow> mmio" where
  "pwm_program channel range_ticks duty m =
     (let chan_ctrl = (rd m (RP1_PWM_CHAN_CTRL channel) AND NOT 0x1ff)
            OR (RP1_PWM_CHAN_DEFAULT OR RP1_PWM_POLARITY);
          m = wr m (RP1_PWM_CHAN_CTRL channel) chan_ctrl;
          m = wr m (RP1_PWM_DUTY channel) duty;
          m = wr m (RP1_PWM_RANGE channel) range_ticks;
          gctrl = rd m RP1_PWM_GLOBAL_CTRL OR RP1_PWM_SET_UPDATE
      in wr m RP1_PWM_GLOBAL_CTRL gctrl)"

definition bcm2712_pwm_set_config :: "u32 \<Rightarrow> u32 \<Rightarrow> u32 \<Rightarrow> bcm_world \<Rightarrow> rc \<times> bcm_world" where
  "bcm2712_pwm_set_config channel period_ns duty_ns w =
     (if channel \<ge> BCM2712_PWM_NCHANNELS then (fail EINVAL, w)
      else case bcm2712_sc w of
        None \<Rightarrow> (fail ENODEV, w)
      | Some sc \<Rightarrow>
        if \<not> pwm_mapped sc then (fail ENODEV, w)
        else let range_ticks = ns_to_ticks period_ns;
                 duty = ns_to_ticks duty_ns;
                 m = pwm_program channel range_ticks duty (win w PWM1);
                 ch = channels sc ! unat channel;
                 sc' = sc\<lparr>channels := (channels sc)[unat channel :=
                          ch\<lparr>chan_period := period_ns, chan_duty_a := duty_ns\<rparr>]\<rparr>
             in (ok, w\<lparr>win := (win w)(PWM1 := m), bcm2712_sc := Some sc'\<rparr>))"

definition pwm_switch :: "u32 \<Rightarrow> bool \<Rightarrow> mmio \<Rightarrow> mmio" where
  "pwm_switch channel enable m =
     (let gctrl = rd m RP1_PWM_GLOBAL_CTRL;
          gctrl = (if enable then gctrl OR RP1_PWM_CHAN_ENABLE channel
                   else gctrl AND NOT (RP1_PWM_CHAN_ENABLE channel))
      in wr m RP1_PWM_GLOBAL_CTRL (gctrl OR RP1_PWM_SET_UPDATE))"

definition bcm2712_pwm_enable :: "u32 \<Rightarrow> bool \<Rightarrow> bcm_world \<Rightarrow> rc \<times> bcm_world" where
  "bcm2712_pwm_enable channel enable w =
     (if channel \<ge> BCM2712_PWM_NCHANNELS then (fail EINVAL, w)
      else case bcm2712_sc w of
        None \<Rightarrow> (fail ENODEV, w)
      | Some sc \<Rightarrow>
        if \<not> pwm_mapped sc then (fail ENODEV, w)
        else let ch = channels sc ! unat channel;
                 sc' = sc\<lparr>channels := (channels sc)[unat channel := ch\<lparr>chan_enabled := enable\<rparr>]\<rparr>
             in (ok, w\<lparr>bcm2712_sc := Some sc',
                       win := (win w)(PWM1 := pwm_switch channel enable (win w PWM1))\<rparr>))"

text \<open>The four registers the diagnostic handler prints.\<close>

definition bcm2712_sysctl_pwm_regs :: "bcm_world \<Rightarrow> (u32 \<times> u32 \<times> u32 \<times> u32) result" where
  "bcm2712_sysctl_pwm_regs w =
     (case bcm2712_sc w of None \<Rightarrow> Inl ENODEV
      | Some sc \<Rightarrow> if \<not> pwm_mapped sc then Inl ENODEV
        else let m = win w PWM1 in
          Inr (rd m RP1_PWM_GLOBAL_CTRL, rd m (RP1_PWM_CHAN_CTRL 3), rd m (RP1_PWM_RANGE 3),
               rd m (RP1_PWM_DUTY 3)))"

definition bcm2712_read_fan_rpm :: "bcm_world \<Rightarrow> u32" where
  "bcm2712_read_fan_rpm w =
     (case bcm2712_sc w of None \<Rightarrow> 0
      | Some sc \<Rightarrow> if \<not> pwm_mapped sc then 0 else rd (win w PWM1) RP1_PWM_TACH_RPM)"

section \<open>Module events\<close>

datatype modevent = MOD_LOAD | MOD_UNLOAD | MOD_OTHER

definition clk_sequence :: "mmio \<Rightarrow> mmio" where
  "clk_sequence m = wr (wr (wr (wr m 0x84 0x40) 0x88 8) 0x8C 0x23550000) 0x84 0x840"

definition gpio_mux_fan :: "mmio \<Rightarrow> mmio" where
  "gpio_mux_fan m =
     (let r = RP1_GPIO_CTRL_OFFSET 45 in wr m r ((rd m r AND NOT 0x1f) OR 0))"

definition initial_channel :: pwm_channel where
  "initial_channel = \<lparr>chan_period = 41566, chan_duty_a = 0, chan_duty_b = 0, chan_flags = 0,
     chan_enabled = False\<rparr>"

definition with_window :: "(window \<Rightarrow> bool) \<Rightarrow> window \<Rightarrow> (mmio \<Rightarrow> mmio) \<Rightarrow> bcm_world \<Rightarrow> bcm_world" where
  "with_window avail v f w =
     (if avail v then w\<lparr>win := (win w)(v := f (win w v)),
                        mappings := remove1 v (v # mappings w)\<rparr> else w)"

text \<open>malloc_ok and avail v: malloc returned memory, and
  pmap_mapdev_attr a non-NULL address for the window.\<close>

definition bcm2712_load :: "bool \<Rightarrow> (window \<Rightarrow> bool) \<Rightarrow> bcm_world \<Rightarrow> rc \<times> bcm_world" where
  "bcm2712_load malloc_ok avail w =
     (if \<not> malloc_ok then (fail ENOMEM, w)
      else if \<not> avail AVS then (fail ENXIO, w)
      else let w1 = w\<lparr>mappings := AVS # mappings w\<rparr> in
        if \<not> avail PWM1 then (fail ENXIO, w1\<lparr>mappings := remove1 AVS (mappings w1)\<rparr>)
        else let w2 = w1\<lparr>mappings := PWM1 # mappings w1\<rparr>;
                 w3 = with_window avail CLK clk_sequence w2;
                 w4 = with_window avail GPIO gpio_mux_fan w3;
                 sc = \<lparr>avs_vaddr = True, avs_mapped = True, pwm_vaddr = True, pwm_mapped = True,
                       channels = replicate 4 initial_channel,
                       cached_temp_mc = 50000, last_update = 0\<rparr>
             in (ok, w4\<lparr>callout_pending := True, bcm2712_sc := Some sc\<rparr>))"

definition bcm2712_unload :: "bcm_world \<Rightarrow> bcm_world" where
  "bcm2712_unload w =
     (case bcm2712_sc w of None \<Rightarrow> w
      | Some sc \<Rightarrow>
        let w1 = w\<lparr>bcm2712_sc := None, callout_pending := False\<rparr>;
            w2 = (if pwm_vaddr sc then w1\<lparr>mappings := remove1 PWM1 (mappings w1)\<rparr> else w1)
        in if avs_vaddr sc then w2\<lparr>mappings := remove1 AVS (mappings w2)\<rparr> else w2)"

definition bcm2712_modevent :: "modevent \<Rightarrow> bool \<Rightarrow> (window \<Rightarrow> bool) \<Rightarrow> bcm_world \<Rightarrow> rc \<times> bcm_world" where
  "bcm2712_modevent event malloc_ok avail w =
     (case event of
        MOD_LOAD \<Rightarrow> bcm2712_load malloc_ok avail w
      | MOD_UNLOAD \<Rightarrow> (ok, bcm2712_unload w)
      | MOD_OTHER \<Rightarrow> (fail EOPNOTSUPP, w))"


section \<open>The sensor conversion\<close>

text \<open>The conversion over the integers: slope, offset and clamp.\<close>

definition temp_spec :: "nat \<Rightarrow> int" where
  "temp_spec code = min 120000 (max 0 (450000 - 550 * int code))"

lemma sint_linear_code:
  assumes "uint (c :: u32) \<le> 1023"
  shows "sint ((- 550) * c + 450000) = 450000 - 550 * uint c"
proof -
  have "(- 550) * c + 450000 = word_of_int (450000 - 550 * uint c)"
    by simp
  then have "sint ((- 550) * c + 450000) = signed_take_bit 31 (450000 - 550 * uint c)"
    by (simp only: signed_of_int) simp
  also have "\<dots> = 450000 - 550 * uint c"
  proof (rule signed_take_bit_int_eq_self)
    have "(2::int) ^ 31 = 2147483648" by simp
    then show "- (2 ^ 31) \<le> 450000 - 550 * uint c" "450000 - 550 * uint c < 2 ^ 31"
      using assms uint_ge_0[of c] by linarith+
  qed
  finally show ?thesis .
qed

lemma code_bound: "uint ((w :: u32) AND 0x3ff) \<le> 1023"
proof -
  have "w AND 0x3ff = take_bit 10 w"
    by (simp add: take_bit_eq_mask mask_eq_exp_minus_1)
  then have "uint (w AND 0x3ff) = take_bit 10 (uint w)"
    by (simp add: unsigned_take_bit_eq)
  then show ?thesis
    using take_bit_int_less_exp[of 10 "uint w"] by simp
qed

lemma temp_code_to_mc_spec:
  assumes "uint c \<le> 1023"
  shows "int (unat (temp_code_to_mc c)) = temp_spec (unat c)"
proof -
  let ?t = "(- 550) * c + 450000 :: u32"
  have t: "sint ?t = 450000 - 550 * uint c"
    by (rule sint_linear_code) (rule assms)
  have neg: "?t <s 0 \<longleftrightarrow> 450000 - 550 * uint c < 0"
    by (simp only: word_sless_alt t) simp
  have big: "120000 <s ?t \<longleftrightarrow> 120000 < 450000 - 550 * uint c"
    by (simp only: word_sless_alt t) simp
  have val: "uint ?t = 450000 - 550 * uint c" if "0 \<le> 450000 - 550 * uint c"
  proof -
    have "?t = word_of_int (450000 - 550 * uint c)" by simp
    then have "uint ?t = (450000 - 550 * uint c) mod 2 ^ 32"
      by (simp only: uint_word_of_int) simp
    moreover have "(450000 - 550 * uint c) mod 2 ^ 32 = 450000 - 550 * uint c"
    proof (rule mod_pos_pos_trivial)
      have "(2::int) ^ 32 = 4294967296" by simp
      then show "450000 - 550 * uint c < 2 ^ 32"
        using uint_ge_0[of c] by linarith
    qed (rule that)
    ultimately show ?thesis by simp
  qed
  have z: "\<not> (120000 :: u32) <s 0"
    by (simp add: word_sless_alt)
  show ?thesis
    using neg big val z
    by (auto simp: temp_code_to_mc_def temp_spec_def Let_def)
qed

lemma read_raw_bound:
  assumes "cached_temp_mc sc \<le> 120000"
  shows "bcm2712_thermal_read_raw avs sc \<le> 120000"
proof -
  have "int (unat (temp_code_to_mc (rd avs 0x200 AND 0x3FF))) \<le> 120000"
    by (simp only: temp_code_to_mc_spec[OF code_bound]) (simp add: temp_spec_def)
  then have "unat (temp_code_to_mc (rd avs 0x200 AND 0x3FF)) \<le> 120000"
    by linarith
  then have "temp_code_to_mc (rd avs 0x200 AND 0x3FF) \<le> 120000"
    by (simp add: word_le_nat_alt)
  with assms show ?thesis
    by (simp add: bcm2712_thermal_read_raw_def Let_def)
qed

section \<open>The world invariant\<close>

definition bcm_inv :: "bcm_world \<Rightarrow> bool" where
  "bcm_inv w =
     (case bcm2712_sc w of
        None \<Rightarrow> mappings w = [] \<and> \<not> callout_pending w
      | Some sc \<Rightarrow> mappings w = [PWM1, AVS] \<and> callout_pending w \<and>
          avs_vaddr sc \<and> avs_mapped sc \<and> pwm_vaddr sc \<and> pwm_mapped sc \<and>
          length (channels sc) = 4 \<and> cached_temp_mc sc \<le> 120000)"

definition bcm_boot :: "(window \<Rightarrow> mmio) \<Rightarrow> bcm_world" where
  "bcm_boot regs = \<lparr>bcm2712_sc = None, win = regs, mappings = [], callout_pending = False,
     time_uptime = 0\<rparr>"

text \<open>The steps of the module and its environment: kernel module events, the
  callout, calls from the fan module, and the hardware changing a register.
  The kernel loads a module only when it is not loaded.\<close>

inductive bcm_step :: "bcm_world \<Rightarrow> bcm_world \<Rightarrow> bool" where
  step_load: "bcm2712_sc w = None \<Longrightarrow> bcm_step w (snd (bcm2712_modevent MOD_LOAD malloc_ok avail w))"
| step_unload: "bcm_step w (snd (bcm2712_modevent MOD_UNLOAD malloc_ok avail w))"
| step_other: "bcm_step w (snd (bcm2712_modevent MOD_OTHER malloc_ok avail w))"
| step_update: "callout_pending w \<Longrightarrow> bcm_step w (bcm2712_thermal_update w)"
| step_config: "bcm_step w (snd (bcm2712_pwm_set_config channel period_ns duty_ns w))"
| step_enable: "bcm_step w (snd (bcm2712_pwm_enable channel enable w))"
| step_hw: "bcm_step w (w\<lparr>win := (win w)(v := m)\<rparr>)"
| step_clock: "bcm_step w (w\<lparr>time_uptime := Suc (time_uptime w)\<rparr>)"

inductive bcm_reachable :: "bcm_world \<Rightarrow> bool" where
  reach_boot: "bcm_reachable (bcm_boot regs)"
| reach_step: "bcm_reachable w \<Longrightarrow> bcm_step w w' \<Longrightarrow> bcm_reachable w'"

inductive_cases bcm_stepE: "bcm_step w w'"

lemma with_window_frame [simp]:
  "bcm2712_sc (with_window avail v f w) = bcm2712_sc w"
  "mappings (with_window avail v f w) = mappings w"
  "callout_pending (with_window avail v f w) = callout_pending w"
  by (simp_all add: with_window_def)

lemma load_inv: "bcm_inv w \<Longrightarrow> bcm2712_sc w = None \<Longrightarrow> bcm_inv (snd (bcm2712_load malloc_ok avail w))"
  by (simp add: bcm_inv_def bcm2712_load_def Let_def)

lemma unload_inv: "bcm_inv w \<Longrightarrow> bcm_inv (bcm2712_unload w)"
  by (auto simp: bcm_inv_def bcm2712_unload_def Let_def split: option.splits)

lemma update_inv: "bcm_inv w \<Longrightarrow> bcm_inv (bcm2712_thermal_update w)"
  by (auto simp: bcm_inv_def bcm2712_thermal_update_def bcm2712_thermal_raw_to_millic_def Let_def
           intro: read_raw_bound split: option.splits)

lemma config_inv: "bcm_inv w \<Longrightarrow> bcm_inv (snd (bcm2712_pwm_set_config c p d w))"
  by (auto simp: bcm_inv_def bcm2712_pwm_set_config_def Let_def split: option.splits)

lemma enable_inv: "bcm_inv w \<Longrightarrow> bcm_inv (snd (bcm2712_pwm_enable c e w))"
  by (auto simp: bcm_inv_def bcm2712_pwm_enable_def Let_def split: option.splits)

lemma hw_inv: "bcm_inv w \<Longrightarrow> bcm_inv (w\<lparr>win := r\<rparr>)"
  by (simp add: bcm_inv_def split: option.splits)

lemma clock_inv: "bcm_inv w \<Longrightarrow> bcm_inv (w\<lparr>time_uptime := t\<rparr>)"
  by (simp add: bcm_inv_def split: option.splits)

lemmas bcm_op_inv = hw_inv clock_inv load_inv unload_inv update_inv config_inv enable_inv

lemma bcm_step_inv: "bcm_step w w' \<Longrightarrow> bcm_inv w \<Longrightarrow> bcm_inv w'"
  by (erule bcm_stepE)
     (simp_all add: bcm2712_modevent_def bcm_op_inv)

lemma bcm_reachable_inv: "bcm_reachable w \<Longrightarrow> bcm_inv w"
  by (induction rule: bcm_reachable.induct)
     (simp add: bcm_inv_def bcm_boot_def, blast intro: bcm_step_inv)

section \<open>The PWM contract\<close>

text \<open>What the fan module relies on: a PWM controller that is ready takes a
  configuration and a switch for a channel in range, the counters of the
  channel become the configured ones and no other channel changes.\<close>

locale pwm_provider =
  fixes configure :: "u32 \<Rightarrow> u32 \<Rightarrow> u32 \<Rightarrow> 'w \<Rightarrow> rc \<times> 'w"
    and switch :: "u32 \<Rightarrow> bool \<Rightarrow> 'w \<Rightarrow> rc \<times> 'w"
    and ready :: "'w \<Rightarrow> bool"
    and counters :: "'w \<Rightarrow> u32 \<Rightarrow> u32 \<times> u32"
    and running :: "'w \<Rightarrow> u32 \<Rightarrow> bool"
    and conv :: "u32 \<Rightarrow> u32"
    and nchan :: u32
  assumes configure_ok: "ready w \<Longrightarrow> c < nchan \<Longrightarrow>
      fst (configure c p d w) = ok \<and> ready (snd (configure c p d w))"
    and configure_counters: "ready w \<Longrightarrow> c < nchan \<Longrightarrow> x < nchan \<Longrightarrow>
      counters (snd (configure c p d w)) x = (if x = c then (conv p, conv d) else counters w x)"
    and configure_running: "x < nchan \<Longrightarrow> running (snd (configure c p d w)) x = running w x"
    and configure_not_ready: "\<not> ready w \<Longrightarrow> snd (configure c p d w) = w"
    and switch_ok: "ready w \<Longrightarrow> c < nchan \<Longrightarrow>
      fst (switch c e w) = ok \<and> ready (snd (switch c e w))"
    and switch_running: "ready w \<Longrightarrow> c < nchan \<Longrightarrow> x < nchan \<Longrightarrow>
      running (snd (switch c e w)) x = (if x = c then e else running w x)"
    and switch_counters: "x < nchan \<Longrightarrow> counters (snd (switch c e w)) x = counters w x"
    and switch_not_ready: "\<not> ready w \<Longrightarrow> snd (switch c e w) = w"
begin

text \<open>Configure and then switch, both results ignored, as the fan code does.\<close>

lemma drive_counters:
  "ready w \<Longrightarrow> c < nchan \<Longrightarrow> x < nchan \<Longrightarrow>
   counters (snd (switch c e (snd (configure c p d w)))) x
     = (if x = c then (conv p, conv d) else counters w x)"
  by (simp add: switch_counters configure_counters)

lemma drive_running:
  "ready w \<Longrightarrow> c < nchan \<Longrightarrow> x < nchan \<Longrightarrow>
   running (snd (switch c e (snd (configure c p d w)))) x = (if x = c then e else running w x)"
  by (simp add: switch_running configure_running configure_ok)

lemma drive_ready: "ready w \<Longrightarrow> c < nchan \<Longrightarrow> ready (snd (switch c e (snd (configure c p d w))))"
  by (simp add: switch_ok configure_ok)

lemma drive_not_ready: "\<not> ready w \<Longrightarrow> snd (switch c e (snd (configure c p d w))) = w"
  by (simp add: configure_not_ready switch_not_ready)

end

definition pwm_ready :: "bcm_world \<Rightarrow> bool" where
  "pwm_ready w = (case bcm2712_sc w of None \<Rightarrow> False | Some sc \<Rightarrow> pwm_mapped sc)"

definition pwm_counters :: "bcm_world \<Rightarrow> u32 \<Rightarrow> u32 \<times> u32" where
  "pwm_counters w c = (rd (win w PWM1) (RP1_PWM_RANGE c), rd (win w PWM1) (RP1_PWM_DUTY c))"

definition pwm_running :: "bcm_world \<Rightarrow> u32 \<Rightarrow> bool" where
  "pwm_running w c = bit (rd (win w PWM1) RP1_PWM_GLOBAL_CTRL) (unat c)"

lemma chan_regs_distinct [simp]:
  "RP1_PWM_CHAN_CTRL a \<noteq> RP1_PWM_RANGE b" "RP1_PWM_RANGE b \<noteq> RP1_PWM_CHAN_CTRL a"
  "RP1_PWM_CHAN_CTRL a \<noteq> RP1_PWM_GLOBAL_CTRL" "RP1_PWM_GLOBAL_CTRL \<noteq> RP1_PWM_CHAN_CTRL a"
  "RP1_PWM_RANGE a \<noteq> RP1_PWM_GLOBAL_CTRL" "RP1_PWM_GLOBAL_CTRL \<noteq> RP1_PWM_RANGE a"
  "RP1_PWM_DUTY a \<noteq> RP1_PWM_GLOBAL_CTRL" "RP1_PWM_GLOBAL_CTRL \<noteq> RP1_PWM_DUTY a"
  "RP1_PWM_RANGE a \<noteq> RP1_PWM_DUTY b" "RP1_PWM_DUTY b \<noteq> RP1_PWM_RANGE a"
  "RP1_PWM_CHAN_CTRL a \<noteq> RP1_PWM_DUTY b" "RP1_PWM_DUTY b \<noteq> RP1_PWM_CHAN_CTRL a"
  unfolding pwm_reg_defs by arith+

lemma chan_regs_inj [simp]:
  "RP1_PWM_CHAN_CTRL a = RP1_PWM_CHAN_CTRL b \<longleftrightarrow> a = b"
  "RP1_PWM_RANGE a = RP1_PWM_RANGE b \<longleftrightarrow> a = b"
  "RP1_PWM_DUTY a = RP1_PWM_DUTY b \<longleftrightarrow> a = b"
  by (simp_all add: pwm_reg_defs word_unat_eq_iff)

lemma bit_set_update [simp]: "bit RP1_PWM_SET_UPDATE n \<longleftrightarrow> n = 31"
  unfolding RP1_PWM_SET_UPDATE_def by (auto simp only: bit_push_bit_iff bit_1_iff) simp_all

lemma bit_chan_enable [simp]:
  "unat c < 4 \<Longrightarrow> bit (RP1_PWM_CHAN_ENABLE c) n \<longleftrightarrow> n = unat c"
  unfolding RP1_PWM_CHAN_ENABLE_def by (auto simp only: bit_push_bit_iff bit_1_iff) simp_all

lemma pwm_program_reads [simp]:
  "rd (pwm_program c r d m) (RP1_PWM_RANGE x) = (if x = c then r else rd m (RP1_PWM_RANGE x))"
  "rd (pwm_program c r d m) (RP1_PWM_DUTY x) = (if x = c then d else rd m (RP1_PWM_DUTY x))"
  "rd (pwm_program c r d m) RP1_PWM_GLOBAL_CTRL = rd m RP1_PWM_GLOBAL_CTRL OR RP1_PWM_SET_UPDATE"
  by (simp_all add: pwm_program_def Let_def)

lemma bits_1ff: "bit (0x1ff :: u32) n \<longleftrightarrow> n < 9"
proof -
  have "(0x1ff :: u32) = mask 9" by (simp add: mask_eq_exp_minus_1)
  then show ?thesis by (simp only: bit_mask_iff) auto
qed

lemma bits_chan_ctrl: "bit (RP1_PWM_CHAN_DEFAULT OR RP1_PWM_POLARITY) n \<longleftrightarrow> n \<in> {0, 3, 8}"
proof -
  have d: "RP1_PWM_CHAN_DEFAULT = push_bit 0 1 OR push_bit 8 1"
    by (simp add: RP1_PWM_CHAN_DEFAULT_def)
  show ?thesis
    by (simp only: d RP1_PWM_POLARITY_def bit_or_iff bit_push_bit_iff bit_1_iff) auto
qed

lemma pwm_program_ctrl:
  "bit (rd (pwm_program c r d m) (RP1_PWM_CHAN_CTRL c)) n
     = (if n < 9 then n \<in> {0, 3, 8} else bit (rd m (RP1_PWM_CHAN_CTRL c)) n)"
proof -
  have "rd (pwm_program c r d m) (RP1_PWM_CHAN_CTRL c)
      = (rd m (RP1_PWM_CHAN_CTRL c) AND NOT 0x1ff) OR (RP1_PWM_CHAN_DEFAULT OR RP1_PWM_POLARITY)"
    by (simp add: pwm_program_def Let_def)
  then show ?thesis
    by (simp only: masked_bits bits_1ff bits_chan_ctrl) auto
qed

lemma pwm_program_log:
  "map fst (reg_log (pwm_program c r d m)) = map fst (reg_log m)
     @ [RP1_PWM_CHAN_CTRL c, RP1_PWM_DUTY c, RP1_PWM_RANGE c, RP1_PWM_GLOBAL_CTRL]"
  "snd (last (reg_log (pwm_program c r d m))) = rd m RP1_PWM_GLOBAL_CTRL OR RP1_PWM_SET_UPDATE"
  by (simp_all add: pwm_program_def Let_def)

lemma pwm_switch_reads [simp]:
  "rd (pwm_switch c e m) (RP1_PWM_RANGE x) = rd m (RP1_PWM_RANGE x)"
  "rd (pwm_switch c e m) (RP1_PWM_DUTY x) = rd m (RP1_PWM_DUTY x)"
  "rd (pwm_switch c e m) (RP1_PWM_CHAN_CTRL x) = rd m (RP1_PWM_CHAN_CTRL x)"
  by (simp_all add: pwm_switch_def Let_def)

lemma unat_lt4: "(c :: u32) < 4 \<longleftrightarrow> unat c < 4"
  by (simp add: word_less_nat_alt)

lemma unat_ge4: "4 \<le> (c :: u32) \<longleftrightarrow> 4 \<le> unat c"
  by (simp add: word_le_nat_alt)

lemma pwm_switch_global:
  "unat c < 4 \<Longrightarrow> unat x < 4 \<Longrightarrow>
   bit (rd (pwm_switch c e m) RP1_PWM_GLOBAL_CTRL) (unat x)
     = (if x = c then e else bit (rd m RP1_PWM_GLOBAL_CTRL) (unat x))"
  by (auto simp: pwm_switch_def Let_def bit_or_iff bit_and_iff bit_not_iff word_unat_eq_iff)

interpretation bcm_pwm: pwm_provider bcm2712_pwm_set_config bcm2712_pwm_enable pwm_ready
  pwm_counters pwm_running ns_to_ticks BCM2712_PWM_NCHANNELS
  by unfold_locales
     (auto simp: bcm2712_pwm_set_config_def bcm2712_pwm_enable_def pwm_ready_def pwm_counters_def
        pwm_running_def BCM2712_PWM_NCHANNELS_def Let_def unat_ge4 unat_lt4 pwm_switch_global
        bit_or_iff split: option.splits)


section \<open>Properties\<close>

text \<open>The sensor read. With both the mapping flag and the mapping present
  and bit 16 of the register set, the reading is the calibration line over the
  low ten bits, computed without wrap-around error by the unsigned C
  arithmetic and clamped to 0 to 120 degrees; otherwise the cached reading.\<close>

theorem thermal_read_raw_spec:
  "int (unat (bcm2712_thermal_read_raw avs sc)) =
     (if avs_mapped sc \<and> avs_vaddr sc \<and> bit (rd avs 0x200) 16
      then temp_spec (unat (rd avs 0x200) mod 1024)
      else int (unat (cached_temp_mc sc)))"
proof -
  let ?r = "rd avs 0x200"
  have m: "?r AND 0x3FF = take_bit 10 ?r"
    by (simp add: take_bit_eq_mask mask_eq_exp_minus_1)
  have code: "unat (?r AND 0x3FF) = unat ?r mod 1024"
    unfolding m by (simp only: unsigned_take_bit_eq) (simp add: take_bit_eq_mod)
  have "?r AND 0x10000 = push_bit 16 (of_bool (bit ?r 16))"
    by (rule bit_word_eqI) (auto simp: bit_simps bit_push_bit_iff[of 16 1, simplified])
  then have valid: "?r AND 0x10000 = 0 \<longleftrightarrow> \<not> bit ?r 16"
    by simp
  show ?thesis
    using temp_code_to_mc_spec[OF code_bound[of ?r]]
    by (simp add: bcm2712_thermal_read_raw_def Let_def valid code)
qed

text \<open>C1: Every reachable state of the module keeps its invariant: mappings,
  mapping flags and the callout exist exactly while the softc does, and the
  reading other modules get never exceeds 120 degrees, whatever the hardware
  registers hold.\<close>

theorem bcm_reachable_safe:
  "bcm_reachable w \<Longrightarrow> bcm_inv w \<and> (\<forall>t. bcm2712_read_cpu_temp w = Inr t \<longrightarrow> t \<le> 120000)"
  by (drule bcm_reachable_inv)
     (auto simp: bcm_inv_def bcm2712_read_cpu_temp_def split: option.splits)

theorem bcm_reachable_safe_witness:
  "let w = snd (bcm2712_modevent MOD_LOAD True (\<lambda>v. True) (bcm_boot (\<lambda>v. \<lparr>reg_val = \<lambda>r. 0, reg_log = []\<rparr>)))
   in bcm_inv w \<and> bcm2712_read_cpu_temp w = Inr 50000"
proof -
  let ?w = "snd (bcm2712_modevent MOD_LOAD True (\<lambda>v. True) (bcm_boot (\<lambda>v. \<lparr>reg_val = \<lambda>r. 0, reg_log = []\<rparr>)))"
  have "bcm_step (bcm_boot (\<lambda>v. \<lparr>reg_val = \<lambda>r. 0, reg_log = []\<rparr>)) ?w"
    by (rule step_load) (simp add: bcm_boot_def)
  then have "bcm_reachable ?w"
    by (blast intro: reach_boot reach_step)
  from bcm_reachable_safe[OF this] show ?thesis
    by (simp add: bcm2712_read_cpu_temp_def bcm2712_modevent_def bcm2712_load_def Let_def bcm_boot_def)
qed

text \<open>Programming a channel of a loaded controller. The counters become
  the rounded tick counts, the control word the default mode with inverted
  polarity in its low nine bits and the old bits above, the software mirror
  the nanoseconds; the commit comes last, and nothing but the channel's three
  registers and the global commit bit is written.\<close>

theorem pwm_set_config_effect:
  assumes "pwm_ready w" and "unat c < 4"
  shows "\<exists>sc w'. bcm2712_sc w = Some sc \<and> bcm2712_pwm_set_config c p d w = (ok, w')
     \<and> pwm_counters w' c = (ns_to_ticks p, ns_to_ticks d)
     \<and> (\<forall>n. bit (rd (win w' PWM1) (RP1_PWM_CHAN_CTRL c)) n
            = (if n < 9 then n \<in> {0, 3, 8} else bit (rd (win w PWM1) (RP1_PWM_CHAN_CTRL c)) n))
     \<and> map fst (reg_log (win w' PWM1)) = map fst (reg_log (win w PWM1))
         @ [RP1_PWM_CHAN_CTRL c, RP1_PWM_DUTY c, RP1_PWM_RANGE c, RP1_PWM_GLOBAL_CTRL]
     \<and> bit (snd (last (reg_log (win w' PWM1)))) 31
     \<and> (\<forall>v. v \<noteq> PWM1 \<longrightarrow> win w' v = win w v)
     \<and> bcm2712_sc w' = Some (sc\<lparr>channels := (channels sc)[unat c :=
          (channels sc ! unat c)\<lparr>chan_period := p, chan_duty_a := d\<rparr>]\<rparr>)"
proof -
  obtain sc where sc: "bcm2712_sc w = Some sc" "pwm_mapped sc"
    using assms(1) by (auto simp: pwm_ready_def split: option.splits)
  show ?thesis
    using sc assms(2)
    by (simp add: bcm2712_pwm_set_config_def BCM2712_PWM_NCHANNELS_def unat_ge4 Let_def pwm_counters_def
        pwm_program_ctrl pwm_program_log bit_or_iff)
qed

theorem pwm_set_config_effect_witness:
  "let w = snd (bcm2712_load True (\<lambda>v. True) (bcm_boot (\<lambda>v. \<lparr>reg_val = \<lambda>r. 0xFFFFFE00, reg_log = []\<rparr>)))
   in \<exists>sc w'. bcm2712_sc w = Some sc \<and> bcm2712_pwm_set_config 3 41566 20000 w = (ok, w')
        \<and> pwm_counters w' 3 = (255, 123)"
proof -
  let ?w = "snd (bcm2712_load True (\<lambda>v. True) (bcm_boot (\<lambda>v. \<lparr>reg_val = \<lambda>r. 0xFFFFFE00, reg_log = []\<rparr>)))"
  have "pwm_ready ?w"
    by (simp add: pwm_ready_def bcm2712_load_def Let_def bcm_boot_def)
  from pwm_set_config_effect[of ?w 3 41566 20000, OF this] show ?thesis
    by (auto simp: ns_to_ticks_def RP1_PWM_CLK_PERIOD_NS_def)
qed

text \<open>Loading and unloading. A load that fails for any reason leaves the
  machine exactly as it was; one that succeeds runs the PWM clock sequence in
  the order source, divisors, enable where that window can be mapped, muxes
  GPIO45 to function 0 and to nothing else, and an unload then gives back
  every mapping, clears the global pointer and stops the callout.\<close>

theorem bcm_load_unload:
  "bcm2712_modevent MOD_LOAD malloc_ok avail w = (r, w') \<Longrightarrow>
   (if r \<noteq> ok then w' = w \<and> r = (if malloc_ok then fail ENXIO else fail ENOMEM)
    else avail AVS \<and> avail PWM1 \<and> pwm_ready w'
      \<and> reg_log (win w' CLK) = reg_log (win w CLK)
          @ (if avail CLK then [(0x84, 0x40), (0x88, 8), (0x8C, 0x23550000), (0x84, 0x840)] else [])
      \<and> (avail GPIO \<longrightarrow> rd (win w' GPIO) 0x805C = (rd (win w GPIO) 0x805C AND NOT 0x1f))
      \<and> (\<forall>off. off \<noteq> 0x805C \<longrightarrow> rd (win w' GPIO) off = rd (win w GPIO) off)
      \<and> bcm2712_sc (bcm2712_unload w') = None
      \<and> mappings (bcm2712_unload w') = mappings w
      \<and> \<not> callout_pending (bcm2712_unload w'))"
  by (auto simp: bcm2712_modevent_def bcm2712_load_def bcm2712_unload_def pwm_ready_def Let_def
      with_window_def clk_sequence_def gpio_mux_fan_def RP1_GPIO_CTRL_OFFSET_def split: if_splits)

theorem bcm_load_unload_witness:
  "let b = bcm_boot (\<lambda>v. \<lparr>reg_val = \<lambda>r. 0xFFFFFFFF, reg_log = []\<rparr>);
       w = snd (bcm2712_modevent MOD_LOAD True (\<lambda>v. True) b)
   in rd (win w GPIO) 0x805C = 0xFFFFFFE0 \<and> mappings (bcm2712_unload w) = []"
proof -
  let ?b = "bcm_boot (\<lambda>v. \<lparr>reg_val = \<lambda>r. 0xFFFFFFFF, reg_log = []\<rparr>)"
  let ?w = "snd (bcm2712_modevent MOD_LOAD True (\<lambda>v. True) ?b)"
  have "bcm2712_modevent MOD_LOAD True (\<lambda>v. True) ?b = (ok, ?w)"
    by (simp add: bcm2712_modevent_def bcm2712_load_def Let_def)
  from bcm_load_unload[OF this] show ?thesis
    by (simp add: bcm_boot_def rd_def)
qed

end
