(* ===== verification/Rpi5Fan.thy ===== *)
theory Rpi5Fan
  imports Bcm2712
begin

text \<open>
  The board module (rpi5.c): the cooling fan controller that reads the cached
  temperature of the SoC module once a second, chooses one of five states and
  programs PWM channel 3 through the pwm_provider contract, its
  sysctls and its module events.
\<close>

section \<open>State\<close>

record cooling_fan =
  pwm_channel :: u32
  fan_temp0 :: u32
  fan_temp1 :: u32
  fan_temp2 :: u32
  fan_temp3 :: u32
  fan_temp0_hyst :: u32
  fan_temp1_hyst :: u32
  fan_temp2_hyst :: u32
  fan_temp3_hyst :: u32
  fan_temp0_speed :: u32
  fan_temp1_speed :: u32
  fan_temp2_speed :: u32
  fan_temp3_speed :: u32
  fan_current_state :: u32
  fan_prev_state :: u32
  cpu_temp :: u32
  thermal_active :: bool

definition cooling_fan_init :: cooling_fan where
  "cooling_fan_init = \<lparr>pwm_channel = 3,
     fan_temp0 = 50000, fan_temp1 = 60000, fan_temp2 = 67500, fan_temp3 = 75000,
     fan_temp0_hyst = 5000, fan_temp1_hyst = 5000, fan_temp2_hyst = 5000, fan_temp3_hyst = 5000,
     fan_temp0_speed = 75, fan_temp1_speed = 125, fan_temp2_speed = 175, fan_temp3_speed = 250,
     fan_current_state = 0, fan_prev_state = 0, cpu_temp = 50000, thermal_active = False\<rparr>"

text \<open>The fan's static structure beside the world of the SoC module, and
  whether the fan's own callout is scheduled.\<close>

record rpi5_world =
  fan :: cooling_fan
  soc :: bcm_world
  tick_pending :: bool

section \<open>Operations\<close>

definition rpi5_check_bcm2712 :: rc where "rpi5_check_bcm2712 = ok"

text \<open>The chain of comparisons of the update, in its order; the subtractions
  wrap as unsigned 32-bit arithmetic does.\<close>

definition select_state :: "cooling_fan \<Rightarrow> u32" where
  "select_state f =
     (let temp = cpu_temp f in
      if temp \<ge> fan_temp3 f then 4
      else if temp \<ge> fan_temp2 f \<and>
              (fan_prev_state f < 3 \<or> temp \<ge> fan_temp2 f - fan_temp2_hyst f) then 3
      else if temp \<ge> fan_temp1 f \<and>
              (fan_prev_state f < 2 \<or> temp \<ge> fan_temp1 f - fan_temp1_hyst f) then 2
      else if temp \<ge> fan_temp0 f \<and>
              (fan_prev_state f = 0 \<or> temp \<ge> fan_temp0 f - fan_temp0_hyst f) then 1
      else 0)"

definition track_state :: "cooling_fan \<Rightarrow> cooling_fan" where
  "track_state f =
     (let new_state = select_state f in
      if new_state \<noteq> fan_current_state f
      then f\<lparr>fan_prev_state := fan_current_state f, fan_current_state := new_state\<rparr>
      else f)"

definition state_speed :: "cooling_fan \<Rightarrow> u32" where
  "state_speed f =
     (let s = fan_current_state f in
      if s = 0 then fan_temp0_speed f else if s = 1 then fan_temp1_speed f
      else if s = 2 then fan_temp2_speed f else if s = 3 then fan_temp3_speed f
      else if s = 4 then fan_temp3_speed f else fan_temp0_speed f)"

definition speed_to_duty :: "u32 \<Rightarrow> u32" where
  "speed_to_duty speed = (speed * 41566) div 255"

definition rpi5_update_fan_state :: "rpi5_world \<Rightarrow> rpi5_world" where
  "rpi5_update_fan_state w =
     (let f = track_state (fan w);
          duty = speed_to_duty (state_speed f);
          s1 = snd (bcm2712_pwm_set_config (pwm_channel f) 41566 duty (soc w));
          s2 = snd (bcm2712_pwm_enable (pwm_channel f) True s1)
      in w\<lparr>fan := f, soc := s2\<rparr>)"

definition rpi5_thermal_tick :: "rpi5_world \<Rightarrow> rpi5_world" where
  "rpi5_thermal_tick w =
     (let w1 = (case bcm2712_read_cpu_temp (soc w) of
                  Inl e \<Rightarrow> w
                | Inr temp \<Rightarrow> w\<lparr>fan := (fan w)\<lparr>cpu_temp := temp\<rparr>\<rparr>);
          w2 = rpi5_update_fan_state w1
      in w2\<lparr>tick_pending := thermal_active (fan w2)\<rparr>)"

text \<open>The validating handlers: io is the result of
  sysctl_handle_int, new the value written, None on a read.\<close>

definition sysctl_bounded :: "u32 \<Rightarrow> rc \<Rightarrow> u32 option \<Rightarrow> u32 \<Rightarrow> rc \<times> u32" where
  "sysctl_bounded limit io new cur =
     (case io of Some e \<Rightarrow> (fail e, cur)
      | None \<Rightarrow> (case new of None \<Rightarrow> (ok, cur)
                | Some v \<Rightarrow> if limit < v then (fail EINVAL, cur) else (ok, v)))"

definition rpi5_sysctl_temp_handler :: "rc \<Rightarrow> u32 option \<Rightarrow> u32 \<Rightarrow> rc \<times> u32" where
  "rpi5_sysctl_temp_handler = sysctl_bounded 120000"

definition rpi5_sysctl_hyst_handler :: "rc \<Rightarrow> u32 option \<Rightarrow> u32 \<Rightarrow> rc \<times> u32" where
  "rpi5_sysctl_hyst_handler = sysctl_bounded 10000"

definition rpi5_sysctl_speed_handler :: "rc \<Rightarrow> u32 option \<Rightarrow> u32 \<Rightarrow> rc \<times> u32" where
  "rpi5_sysctl_speed_handler = sysctl_bounded 255"

definition rpi5_sysctl_current_temp_handler :: "rpi5_world \<Rightarrow> u32" where
  "rpi5_sysctl_current_temp_handler w = cpu_temp (fan w)"

definition rpi5_sysctl_current_state_handler :: "rpi5_world \<Rightarrow> u32" where
  "rpi5_sysctl_current_state_handler w = fan_current_state (fan w)"

definition rpi5_sysctl_fan_rpm_handler :: "rpi5_world \<Rightarrow> u32" where
  "rpi5_sysctl_fan_rpm_handler w = bcm2712_read_fan_rpm (soc w)"

text \<open>The writable nodes the load handler really adds: SYSCTL_ADD_UINT on the
  fields, which stores whatever 32-bit value is written.\<close>

datatype fan_node = Temp0 | Temp1 | Temp2 | Temp3 | Hyst0 | Hyst1 | Hyst2 | Hyst3
  | Speed0 | Speed1 | Speed2 | Speed3

fun rpi5_sysctl_write :: "fan_node \<Rightarrow> u32 \<Rightarrow> cooling_fan \<Rightarrow> cooling_fan" where
  "rpi5_sysctl_write Temp0 v f = f\<lparr>fan_temp0 := v\<rparr>"
| "rpi5_sysctl_write Temp1 v f = f\<lparr>fan_temp1 := v\<rparr>"
| "rpi5_sysctl_write Temp2 v f = f\<lparr>fan_temp2 := v\<rparr>"
| "rpi5_sysctl_write Temp3 v f = f\<lparr>fan_temp3 := v\<rparr>"
| "rpi5_sysctl_write Hyst0 v f = f\<lparr>fan_temp0_hyst := v\<rparr>"
| "rpi5_sysctl_write Hyst1 v f = f\<lparr>fan_temp1_hyst := v\<rparr>"
| "rpi5_sysctl_write Hyst2 v f = f\<lparr>fan_temp2_hyst := v\<rparr>"
| "rpi5_sysctl_write Hyst3 v f = f\<lparr>fan_temp3_hyst := v\<rparr>"
| "rpi5_sysctl_write Speed0 v f = f\<lparr>fan_temp0_speed := v\<rparr>"
| "rpi5_sysctl_write Speed1 v f = f\<lparr>fan_temp1_speed := v\<rparr>"
| "rpi5_sysctl_write Speed2 v f = f\<lparr>fan_temp2_speed := v\<rparr>"
| "rpi5_sysctl_write Speed3 v f = f\<lparr>fan_temp3_speed := v\<rparr>"

definition rpi5_load :: "rpi5_world \<Rightarrow> rc \<times> rpi5_world" where
  "rpi5_load w =
     (case rpi5_check_bcm2712 of
        Some e \<Rightarrow> (fail e, w)
      | None \<Rightarrow>
        let s1 = snd (bcm2712_pwm_set_config (pwm_channel (fan w)) 41566 0 (soc w));
            s2 = snd (bcm2712_pwm_enable (pwm_channel (fan w)) True s1)
        in (ok, w\<lparr>soc := s2, fan := (fan w)\<lparr>thermal_active := True\<rparr>, tick_pending := True\<rparr>))"

definition rpi5_unload :: "rpi5_world \<Rightarrow> rpi5_world" where
  "rpi5_unload w =
     w\<lparr>fan := (fan w)\<lparr>thermal_active := False\<rparr>, tick_pending := False,
       soc := snd (bcm2712_pwm_enable (pwm_channel (fan w)) False (soc w))\<rparr>"

definition rpi5_modevent :: "modevent \<Rightarrow> rpi5_world \<Rightarrow> rc \<times> rpi5_world" where
  "rpi5_modevent event w =
     (case event of MOD_LOAD \<Rightarrow> rpi5_load w
      | MOD_UNLOAD \<Rightarrow> (ok, rpi5_unload w)
      | MOD_OTHER \<Rightarrow> (fail EOPNOTSUPP, w))"

section \<open>Speed, duty and ticks\<close>

lemma unat_ns_to_ticks:
  "unat ns + 81 < 2 ^ 32 \<Longrightarrow> unat (ns_to_ticks ns) = (unat ns + 81) div 163"
  by (simp add: ns_to_ticks_def RP1_PWM_CLK_PERIOD_NS_def unat_div unat_word_ariths)

lemma unat_speed_to_duty:
  "unat s \<le> 103327 \<Longrightarrow> unat (speed_to_duty s) = unat s * 41566 div 255"
  by (simp add: speed_to_duty_def unat_div unat_word_ariths)

lemma speed_ticks_nat:
  assumes "(s :: nat) \<le> 255"
  shows "(s * 41566 div 255 + 81) div 163 = s"
proof -
  define q where "q = s * 41566 div 255"
  have "255 * q \<le> s * 41566" "s * 41566 < 255 * q + 255"
    unfolding q_def by (rule times_div_less_eq_dividend) (simp add: dividend_less_times_div)
  with assms have "163 * s \<le> q + 81" "q + 81 < 163 * s + 163"
    by linarith+
  then show ?thesis
    unfolding q_def by (intro div_nat_eqI) simp_all
qed

text \<open>A speed of 0 to 255 reaches the counter as itself.\<close>

lemma speed_ticks:
  assumes "unat s \<le> 255"
  shows "ns_to_ticks (speed_to_duty s) = s"
proof -
  have "unat (speed_to_duty s) = unat s * 41566 div 255"
    using assms by (simp add: unat_speed_to_duty)
  moreover have "unat s * 41566 div 255 \<le> 41566"
    using assms by linarith
  ultimately have "unat (ns_to_ticks (speed_to_duty s)) = unat s"
    using assms by (simp add: unat_ns_to_ticks speed_ticks_nat)
  then show ?thesis
    by (simp add: word_unat_eq_iff)
qed

lemma period_ticks: "ns_to_ticks 41566 = 255"
  by (simp add: ns_to_ticks_def RP1_PWM_CLK_PERIOD_NS_def)


section \<open>The chosen state\<close>

text \<open>The level of a temperature with no memory at all.\<close>

definition temp_level :: "cooling_fan \<Rightarrow> nat" where
  "temp_level f =
     (let t = cpu_temp f in
      if t \<ge> fan_temp3 f then 4 else if t \<ge> fan_temp2 f then 3
      else if t \<ge> fan_temp1 f then 2 else if t \<ge> fan_temp0 f then 1 else 0)"

definition hyst_sane :: "cooling_fan \<Rightarrow> bool" where
  "hyst_sane f \<longleftrightarrow> fan_temp0_hyst f \<le> fan_temp0 f \<and> fan_temp1_hyst f \<le> fan_temp1 f
     \<and> fan_temp2_hyst f \<le> fan_temp2 f"

lemma sub_le_self: "(h :: u32) \<le> t \<Longrightarrow> t - h \<le> t"
  by (simp add: word_sub_le)

lemma select_state_sane: "hyst_sane f \<Longrightarrow> select_state f = of_nat (temp_level f)"
  using sub_le_self[of "fan_temp0_hyst f" "fan_temp0 f"] sub_le_self[of "fan_temp1_hyst f" "fan_temp1 f"]
    sub_le_self[of "fan_temp2_hyst f" "fan_temp2 f"]
  by (auto simp: select_state_def temp_level_def hyst_sane_def Let_def intro: order_trans)

lemma select_state_bound: "select_state f \<in> {0, 1, 2, 3, 4}"
  by (simp add: select_state_def Let_def)

lemma track_state_current [simp]: "fan_current_state (track_state f) = select_state f"
  by (simp add: track_state_def Let_def)

lemma track_state_frame [simp]:
  "pwm_channel (track_state f) = pwm_channel f" "cpu_temp (track_state f) = cpu_temp f"
  "thermal_active (track_state f) = thermal_active f"
  "fan_temp0_speed (track_state f) = fan_temp0_speed f"
  "fan_temp1_speed (track_state f) = fan_temp1_speed f"
  "fan_temp2_speed (track_state f) = fan_temp2_speed f"
  "fan_temp3_speed (track_state f) = fan_temp3_speed f"
  by (simp_all add: track_state_def Let_def)

section \<open>Reachable states\<close>

definition fan_ok :: "cooling_fan \<Rightarrow> bool" where
  "fan_ok f \<longleftrightarrow> pwm_channel f = 3 \<and> fan_current_state f \<le> 4 \<and> fan_prev_state f \<le> 4
     \<and> (fan_prev_state f = fan_current_state f \<longrightarrow> fan_current_state f = 0)"

definition fan_inv :: "rpi5_world \<Rightarrow> bool" where
  "fan_inv w \<longleftrightarrow> fan_ok (fan w) \<and> (tick_pending w \<longrightarrow> thermal_active (fan w))"

inductive fan_step :: "rpi5_world \<Rightarrow> rpi5_world \<Rightarrow> bool" where
  fan_event: "fan_step w (snd (rpi5_modevent ev w))"
| fan_tick: "tick_pending w \<Longrightarrow> fan_step w (rpi5_thermal_tick w)"
| fan_sysctl: "fan_step w (w\<lparr>fan := rpi5_sysctl_write nd v (fan w)\<rparr>)"
| fan_soc: "bcm_step (soc w) s \<Longrightarrow> fan_step w (w\<lparr>soc := s\<rparr>)"

inductive fan_reachable :: "rpi5_world \<Rightarrow> bool" where
  fan_boot: "bcm_reachable s \<Longrightarrow>
     fan_reachable \<lparr>fan = cooling_fan_init, soc = s, tick_pending = False\<rparr>"
| fan_next: "fan_reachable w \<Longrightarrow> fan_step w w' \<Longrightarrow> fan_reachable w'"

inductive_cases fan_stepE: "fan_step w w'"

lemma select_state_le4: "select_state f \<le> 4"
  using select_state_bound[of f] by auto

lemma update_fields [simp]:
  "fan (rpi5_update_fan_state w) = track_state (fan w)"
  "tick_pending (rpi5_update_fan_state w) = tick_pending w"
  by (simp_all add: rpi5_update_fan_state_def Let_def)

lemma tick_fan:
  "fan (rpi5_thermal_tick w) = track_state (case bcm2712_read_cpu_temp (soc w) of
      Inl e \<Rightarrow> fan w | Inr t \<Rightarrow> (fan w)\<lparr>cpu_temp := t\<rparr>)"
  by (simp add: rpi5_thermal_tick_def Let_def split: sum.splits)

lemma tick_tick_pending:
  "tick_pending (rpi5_thermal_tick w) = thermal_active (fan w)"
  by (simp add: rpi5_thermal_tick_def Let_def split: sum.splits)

lemma tick_soc:
  "soc (rpi5_thermal_tick w) =
     snd (bcm2712_pwm_enable (pwm_channel (fan w)) True
       (snd (bcm2712_pwm_set_config (pwm_channel (fan w)) 41566
          (speed_to_duty (state_speed (fan (rpi5_thermal_tick w)))) (soc w))))"
  by (simp add: rpi5_thermal_tick_def rpi5_update_fan_state_def Let_def split: sum.splits)

lemma track_state_ok:
  assumes "fan_ok f"
  shows "fan_ok (track_state f)"
proof (cases "select_state f = fan_current_state f")
  case True
  with assms show ?thesis by (simp add: track_state_def Let_def)
next
  case False
  with assms select_state_le4[of f] show ?thesis
    by (auto simp: track_state_def Let_def fan_ok_def)
qed

lemma fan_ok_temp [simp]: "fan_ok (f\<lparr>cpu_temp := t\<rparr>) = fan_ok f"
  by (simp add: fan_ok_def)

lemma tick_inv: "fan_inv w \<Longrightarrow> fan_inv (rpi5_thermal_tick w)"
  by (auto simp: fan_inv_def tick_fan tick_tick_pending intro!: track_state_ok split: sum.splits)

lemma event_inv: "fan_inv w \<Longrightarrow> fan_inv (snd (rpi5_modevent ev w))"
  by (cases ev) (auto simp: fan_inv_def fan_ok_def rpi5_modevent_def rpi5_load_def rpi5_check_bcm2712_def
      rpi5_unload_def Let_def)

lemma sysctl_inv: "fan_inv w \<Longrightarrow> fan_inv (w\<lparr>fan := rpi5_sysctl_write nd v (fan w)\<rparr>)"
  by (cases nd) (auto simp: fan_inv_def fan_ok_def)

lemma fan_soc_inv: "fan_inv w \<Longrightarrow> fan_inv (w\<lparr>soc := s\<rparr>)"
  by (simp add: fan_inv_def)

lemma fan_step_inv: "fan_step w w' \<Longrightarrow> fan_inv w \<Longrightarrow> fan_inv w'"
  by (erule fan_stepE) (simp_all add: tick_inv event_inv sysctl_inv fan_soc_inv)

lemma fan_reachable_inv: "fan_reachable w \<Longrightarrow> fan_inv w"
  by (induction rule: fan_reachable.induct)
     (simp add: fan_inv_def fan_ok_def cooling_fan_init_def, blast intro: fan_step_inv)

text \<open>The SoC side of a reachable pair is itself reachable, since the fan
  module only calls its operations.\<close>

lemma soc_calls_reachable:
  "bcm_reachable s \<Longrightarrow> bcm_reachable (snd (bcm2712_pwm_set_config c p d s))"
  "bcm_reachable s \<Longrightarrow> bcm_reachable (snd (bcm2712_pwm_enable c e s))"
  by (blast intro: reach_step bcm_step.intros)+

lemma tick_soc_reachable: "bcm_reachable (soc w) \<Longrightarrow> bcm_reachable (soc (rpi5_thermal_tick w))"
  by (simp add: tick_soc soc_calls_reachable)

lemma event_soc_reachable: "bcm_reachable (soc w) \<Longrightarrow> bcm_reachable (soc (snd (rpi5_modevent ev w)))"
  by (cases ev) (simp_all add: rpi5_modevent_def rpi5_load_def rpi5_check_bcm2712_def rpi5_unload_def
      Let_def soc_calls_reachable)

lemma fan_reachable_soc: "fan_reachable w \<Longrightarrow> bcm_reachable (soc w)"
proof (induction rule: fan_reachable.induct)
  case (fan_next w w')
  from fan_next.hyps(2) fan_next.IH show ?case
    by (cases rule: fan_step.cases)
       (auto intro: reach_step tick_soc_reachable event_soc_reachable)
qed simp


section \<open>Properties\<close>

text \<open>The speed field of each state, and the level a run of the update settles on.\<close>

definition level_speed :: "cooling_fan \<Rightarrow> nat \<Rightarrow> u32" where
  "level_speed f l = (if l = 0 then fan_temp0_speed f else if l = 1 then fan_temp1_speed f
     else if l = 2 then fan_temp2_speed f else fan_temp3_speed f)"

lemma temp_level_le: "temp_level f \<le> 4"
  by (simp add: temp_level_def Let_def)

lemma state_speed_level:
  assumes "l \<le> 4" and "fan_current_state f = of_nat l"
  shows "state_speed f = level_speed f l"
proof -
  have "l = 0 \<or> l = 1 \<or> l = 2 \<or> l = 3 \<or> l = 4"
    using assms(1) by arith
  with assms(2) show ?thesis
    by (auto simp: state_speed_def level_speed_def Let_def)
qed

lemma level_speed_track [simp]: "level_speed (track_state f) l = level_speed f l"
  by (simp add: level_speed_def)

lemma sane_track_speed: "hyst_sane f \<Longrightarrow> state_speed (track_state f) = level_speed f (temp_level f)"
  using temp_level_le[of f] by (simp add: state_speed_level[of "temp_level f"] select_state_sane)


definition sample_regs :: "window \<Rightarrow> mmio" where
  "sample_regs v = \<lparr>reg_val = (\<lambda>r. if r = 0x200 then 0x102D5 else 0), reg_log = []\<rparr>"

definition sample_world :: rpi5_world where
  "sample_world = snd (rpi5_modevent MOD_LOAD
     \<lparr>fan = cooling_fan_init,
      soc = bcm2712_thermal_update (snd (bcm2712_modevent MOD_LOAD True (\<lambda>v. True) (bcm_boot sample_regs))),
      tick_pending = False\<rparr>)"

lemma sample_world_reachable: "fan_reachable sample_world"
proof -
  let ?s = "snd (bcm2712_modevent MOD_LOAD True (\<lambda>v. True) (bcm_boot sample_regs))"
  have "bcm_reachable ?s"
    by (rule reach_step[OF reach_boot step_load]) (simp add: bcm_boot_def)
  moreover from this have "bcm_reachable (bcm2712_thermal_update ?s)"
    by (rule reach_step[OF _ step_update])
       (simp add: bcm2712_modevent_def bcm2712_load_def Let_def)
  ultimately show ?thesis
    unfolding sample_world_def by (blast intro: fan_boot fan_next fan_event)
qed

lemma sample_world_fields:
  "tick_pending sample_world" "pwm_ready (soc sample_world)"
  "bcm2712_read_cpu_temp (soc sample_world) = Inr 51250"
  "fan sample_world = cooling_fan_init\<lparr>thermal_active := True\<rparr>"
  by (simp_all add: sample_world_def rpi5_modevent_def rpi5_load_def rpi5_check_bcm2712_def
      pwm_ready_def bcm2712_modevent_def bcm2712_load_def bcm2712_thermal_update_def
      bcm2712_thermal_read_raw_def bcm2712_thermal_raw_to_millic_def temp_code_to_mc_def
      bcm2712_read_cpu_temp_def sample_regs_def bcm_boot_def with_window_def Let_def word_sless_alt
      clk_sequence_def gpio_mux_fan_def RP1_GPIO_CTRL_OFFSET_def rd_def wr_def
      bcm2712_pwm_set_config_def bcm2712_pwm_enable_def BCM2712_PWM_NCHANNELS_def cooling_fan_init_def)


text \<open>The hysteresis settings have no effect. While every hysteresis is at
  most its threshold, the next state is the level of the temperature alone:
  whatever the previous and the current state were, the thresholds switch the
  fan at the same temperature going up and coming down.\<close>

theorem fan_no_hysteresis:
  "hyst_sane f \<Longrightarrow>
   select_state (f\<lparr>fan_prev_state := p, fan_current_state := c\<rparr>) = of_nat (temp_level f)"
  using select_state_sane[of "f\<lparr>fan_prev_state := p, fan_current_state := c\<rparr>"]
  by (simp add: hyst_sane_def temp_level_def Let_def)

theorem fan_no_hysteresis_witness:
  "select_state (cooling_fan_init\<lparr>cpu_temp := 59999, fan_prev_state := 1, fan_current_state := 2\<rparr>) = 1"
  using fan_no_hysteresis[of "cooling_fan_init\<lparr>cpu_temp := 59999\<rparr>" 2 1]
  by (simp add: cooling_fan_init_def hyst_sane_def temp_level_def Let_def)

text \<open>A hysteresis above its threshold wraps. When the level-2 hysteresis
  exceeds the threshold and the previous state was 3 or 4, every temperature
  between the level-2 and the level-3 threshold and below the wrapped
  difference selects a state of at most 2: the fan is driven slower than the
  threshold asks for.\<close>

theorem fan_hysteresis_wraps:
  assumes "fan_temp2 f < fan_temp2_hyst f" and "3 \<le> fan_prev_state f"
    and "fan_temp2 f \<le> cpu_temp f" and "cpu_temp f < fan_temp3 f"
    and "unat (cpu_temp f) + unat (fan_temp2_hyst f) < 2 ^ 32 + unat (fan_temp2 f)"
  shows "temp_level f = 3 \<and> select_state f \<le> 2"
proof -
  have "unat (fan_temp2 f - fan_temp2_hyst f) = 2 ^ 32 + unat (fan_temp2 f) - unat (fan_temp2_hyst f)"
    using assms(1) unsigned_less[of "fan_temp2_hyst f", where ?'a = nat]
      unsigned_less[of "fan_temp2 f", where ?'a = nat]
    by (simp add: unat_sub_if' word_less_nat_alt)
  with assms(5) have "\<not> fan_temp2 f - fan_temp2_hyst f \<le> cpu_temp f"
    by (simp add: word_le_nat_alt)
  moreover have "\<not> fan_prev_state f < 3"
    using assms(2) by simp
  moreover have "\<not> fan_temp3 f \<le> cpu_temp f"
    using assms(4) by simp
  ultimately have "select_state f \<le> 2"
    by (simp add: select_state_def Let_def)
  then show ?thesis
    using assms(3,4) by (simp add: temp_level_def Let_def not_le)
qed

theorem fan_hysteresis_wraps_witness:
  "let f = cooling_fan_init\<lparr>fan_temp2_hyst := 70000, fan_prev_state := 4, cpu_temp := 70000\<rparr>
   in temp_level f = 3 \<and> select_state f \<le> 2"
  using fan_hysteresis_wraps[of "cooling_fan_init\<lparr>fan_temp2_hyst := 70000, fan_prev_state := 4, cpu_temp := 70000\<rparr>"]
  by (simp add: cooling_fan_init_def)

text \<open>With sane hysteresis and speeds set in increasing order, a warmer
  reading never drives the fan slower, from whatever states the two updates
  start.\<close>

theorem fan_speed_monotone:
  assumes "hyst_sane f"
    and "fan_temp0_speed f \<le> fan_temp1_speed f" and "fan_temp1_speed f \<le> fan_temp2_speed f"
    and "fan_temp2_speed f \<le> fan_temp3_speed f"
    and "cpu_temp f \<le> t"
  shows "state_speed (track_state f)
       \<le> state_speed (track_state (f\<lparr>cpu_temp := t, fan_prev_state := p, fan_current_state := c\<rparr>))"
proof -
  let ?g = "f\<lparr>cpu_temp := t, fan_prev_state := p, fan_current_state := c\<rparr>"
  have lev: "temp_level f \<le> temp_level ?g"
    using assms(5) by (auto simp: temp_level_def Let_def intro: order_trans)
  have "level_speed f (temp_level f) \<le> level_speed ?g (temp_level ?g)"
    using lev assms(2-4) by (auto simp: level_speed_def intro: order_trans)
  then show ?thesis
    using assms(1) by (simp add: sane_track_speed hyst_sane_def)
qed

theorem fan_speed_monotone_witness:
  "state_speed (track_state cooling_fan_init)
     \<le> state_speed (track_state (cooling_fan_init\<lparr>cpu_temp := 70000, fan_prev_state := 4, fan_current_state := 1\<rparr>))"
  by (rule fan_speed_monotone) (simp_all add: cooling_fan_init_def hyst_sane_def)

text \<open>The level table. Level 0 runs the first speed, level 1 already the
  second, level 2 the third, and levels 3 and 4 both the fourth; the table of
  the manual shifts every row of the upper levels by one.\<close>

theorem fan_level_table:
  "hyst_sane f \<Longrightarrow>
   state_speed (track_state f) =
     (if cpu_temp f \<ge> fan_temp3 f \<or> cpu_temp f \<ge> fan_temp2 f then fan_temp3_speed f
      else if cpu_temp f \<ge> fan_temp1 f then fan_temp2_speed f
      else if cpu_temp f \<ge> fan_temp0 f then fan_temp1_speed f
      else fan_temp0_speed f)"
  by (simp add: sane_track_speed level_speed_def temp_level_def Let_def)

theorem fan_level_table_witness:
  "state_speed (track_state (cooling_fan_init\<lparr>cpu_temp := 68000\<rparr>)) = 250"
  using fan_level_table[of "cooling_fan_init\<lparr>cpu_temp := 68000\<rparr>"]
  by (simp add: cooling_fan_init_def hyst_sane_def)

text \<open>Module lifecycle over a ready PWM controller. After a load channel 3
  runs with duty 0 and the tick is scheduled; after an unload channel 3 is
  switched off and no tick is scheduled or will reschedule itself.\<close>

theorem fan_lifecycle:
  assumes "fan_reachable w" and "pwm_ready (soc w)"
  shows "\<exists>l. rpi5_modevent MOD_LOAD w = (ok, l)
     \<and> pwm_counters (soc l) 3 = (255, 0) \<and> pwm_running (soc l) 3
     \<and> tick_pending l \<and> thermal_active (fan l)
     \<and> (\<exists>u. rpi5_modevent MOD_UNLOAD l = (ok, u)
          \<and> \<not> pwm_running (soc u) 3 \<and> \<not> tick_pending u \<and> \<not> thermal_active (fan u))"
proof -
  have ch: "pwm_channel (fan w) = 3"
    using fan_reachable_inv[OF assms(1)] by (simp add: fan_inv_def fan_ok_def)
  have nch: "(3::u32) < BCM2712_PWM_NCHANNELS"
    by (simp add: BCM2712_PWM_NCHANNELS_def)
  have z: "ns_to_ticks 0 = 0"
    by (simp add: ns_to_ticks_def RP1_PWM_CLK_PERIOD_NS_def)
  show ?thesis
    using assms(2) nch
    by (simp add: rpi5_modevent_def rpi5_load_def rpi5_check_bcm2712_def rpi5_unload_def Let_def ch
        bcm_pwm.drive_counters bcm_pwm.drive_running bcm_pwm.drive_ready bcm_pwm.switch_running
        period_ticks z)
qed

theorem fan_lifecycle_witness:
  "\<exists>l. rpi5_modevent MOD_LOAD sample_world = (ok, l) \<and> pwm_counters (soc l) 3 = (255, 0)"
  using fan_lifecycle[OF sample_world_reachable sample_world_fields(2)] by blast

end
