(* ===== verification/EthTx.thy ===== *)
theory EthTx
  imports Prelude
begin

text \<open>
  The transmit side of the GEM Ethernet driver (rp1_eth.c): the descriptor
  ring, cgem_clean_tx and cgem_start_locked. The ring is proved to be a FIFO of
  frames: the driver's early wrap, its full mark and the flag bits the
  reclaiming loop follows never let it leave the ring, overwrite a frame in
  flight or lose a buffer.
\<close>

section \<open>State\<close>

record tx_desc =
  td_addr :: u32
  td_ctl :: u32

text \<open>The transmit fields of the softc and of the interface, and the buffers
  the driver has freed: after transmission, and unsent. An mbuf is a number;
  a map slot is whether it holds a map.\<close>

record tx_ring =
  txring :: "tx_desc list"
  txring_m :: "nat option list"
  txring_m_dmamap :: "bool list"
  txring_hd_ptr :: nat
  txring_tl_ptr :: nat
  txring_queued :: int
  txfull :: nat
  txdefrags :: nat
  txdefragfails :: nat
  txdmamapfails :: nat
  oactive :: bool
  opackets :: nat
  oerrors :: nat
  m_freed :: "nat list"
  m_dropped :: "nat list"

definition RP1ETH_NUM_TX_DESCS :: nat where "RP1ETH_NUM_TX_DESCS = 256"
definition TX_MAX_DMA_SEGS :: nat where "TX_MAX_DMA_SEGS = 8"
definition CGEM_TXDESC_USED :: u32 where "CGEM_TXDESC_USED = push_bit 31 1"
definition CGEM_TXDESC_WRAP :: u32 where "CGEM_TXDESC_WRAP = push_bit 30 1"
definition CGEM_TXDESC_RETRY_ERR :: u32 where "CGEM_TXDESC_RETRY_ERR = push_bit 29 1"
definition CGEM_TXDESC_AHB_ERR :: u32 where "CGEM_TXDESC_AHB_ERR = push_bit 27 1"
definition CGEM_TXDESC_LATE_COLL :: u32 where "CGEM_TXDESC_LATE_COLL = push_bit 26 1"
definition CGEM_TXDESC_LAST_BUF :: u32 where "CGEM_TXDESC_LAST_BUF = push_bit 15 1"
definition CGEM_NET_CTRL :: nat where "CGEM_NET_CTRL = 0x000"
definition CGEM_USER_IO :: nat where "CGEM_USER_IO = 0x00C"
definition CGEM_NET_CTRL_START_TX :: u32 where "CGEM_NET_CTRL_START_TX = push_bit 9 1"

text \<open>The busdma and mbuf calls the driver makes, as an argument: whether a map
  can be created for a buffer, what loading a buffer gives, and the buffer a
  defragmentation returns.\<close>

datatype dma_result = Segs "(u32 \<times> u32) list" | EFBIG | LoadErr

record dma =
  dma_create :: "nat \<Rightarrow> bool"
  dma_load :: "nat \<Rightarrow> dma_result"
  dma_defrag :: "nat \<Rightarrow> nat option"

section \<open>Operations\<close>

text \<open>The TX part of the ring setup; the stop handler leaves the same ring.\<close>

definition tx_ring_init :: "tx_ring \<Rightarrow> tx_ring" where
  "tx_ring_init t =
     t\<lparr>txring := (replicate 256 \<lparr>td_addr = 0, td_ctl = CGEM_TXDESC_USED\<rparr>)
         [255 := \<lparr>td_addr = 0, td_ctl = CGEM_TXDESC_USED OR CGEM_TXDESC_WRAP\<rparr>],
       txring_m := replicate 256 None, txring_m_dmamap := replicate 256 False,
       txring_hd_ptr := 0, txring_tl_ptr := 0, txring_queued := 0\<rparr>"

text \<open>The inner loop of the reclaim, over the later descriptors of a frame.
  None is a descriptor outside the ring, or running out of fuel.\<close>

fun clean_frame :: "nat \<Rightarrow> u32 \<Rightarrow> tx_ring \<Rightarrow> (u32 \<times> tx_ring) option" where
  "clean_frame fuel ctl t =
     (if ctl AND CGEM_TXDESC_LAST_BUF \<noteq> 0 then Some (ctl, t)
      else case fuel of 0 \<Rightarrow> None
      | Suc f \<Rightarrow>
        let tl = (if ctl AND CGEM_TXDESC_WRAP \<noteq> 0 then 0 else txring_tl_ptr t + 1);
            t1 = t\<lparr>txring_tl_ptr := tl, txring_queued := txring_queued t - 1\<rparr>
        in if length (txring t) \<le> tl then None
           else let d = txring t ! tl;
                    t2 = t1\<lparr>txring := (txring t)[tl := d\<lparr>td_ctl := td_ctl d OR CGEM_TXDESC_USED\<rparr>]\<rparr>
                in clean_frame f (td_ctl d) t2)"

declare clean_frame.simps [simp del]

definition count_tx :: "u32 \<Rightarrow> tx_ring \<Rightarrow> tx_ring" where
  "count_tx ctl t =
     (if ctl AND CGEM_TXDESC_AHB_ERR \<noteq> 0 then t
      else if ctl AND (CGEM_TXDESC_RETRY_ERR OR CGEM_TXDESC_LATE_COLL) \<noteq> 0
      then t\<lparr>oerrors := oerrors t + 1\<rparr>
      else t\<lparr>opackets := opackets t + 1\<rparr>)"

definition release_tx :: "tx_ring \<Rightarrow> tx_ring" where
  "release_tx t =
     (let tl = txring_tl_ptr t in
      t\<lparr>txring_m_dmamap := (txring_m_dmamap t)[tl := False],
        txring_m := (txring_m t)[tl := None],
        m_freed := m_freed t @ (case txring_m t ! tl of None \<Rightarrow> [] | Some m \<Rightarrow> [m])\<rparr>)"

fun clean_tx_loop :: "nat \<Rightarrow> tx_ring \<Rightarrow> tx_ring option" where
  "clean_tx_loop fuel t =
     (if \<not> 0 < txring_queued t then Some t
      else if length (txring t) \<le> txring_tl_ptr t then None
      else let ctl = td_ctl (txring t ! txring_tl_ptr t) in
        if ctl AND CGEM_TXDESC_USED = 0 then Some t
        else case fuel of 0 \<Rightarrow> None
        | Suc f \<Rightarrow>
          (case clean_frame RP1ETH_NUM_TX_DESCS ctl (count_tx ctl (release_tx t)) of
             None \<Rightarrow> None
           | Some (ctl', t1) \<Rightarrow>
             clean_tx_loop f (t1\<lparr>
               txring_tl_ptr := (if ctl' AND CGEM_TXDESC_WRAP \<noteq> 0 then 0 else txring_tl_ptr t1 + 1),
               txring_queued := txring_queued t1 - 1,
               oactive := False\<rparr>)))"

declare clean_tx_loop.simps [simp del]

definition cgem_clean_tx :: "tx_ring \<Rightarrow> tx_ring option" where
  "cgem_clean_tx t = clean_tx_loop RP1ETH_NUM_TX_DESCS t"

text \<open>The descriptor loop of the transmit path, from the last segment down to
  the first.\<close>

fun write_segs :: "nat \<Rightarrow> nat \<Rightarrow> bool \<Rightarrow> (u32 \<times> u32) list \<Rightarrow> tx_desc list \<times> nat option list
    \<Rightarrow> tx_desc list \<times> nat option list" where
  "write_segs 0 hp wrap segs (ring, ms) = (ring, ms)"
| "write_segs (Suc i) hp wrap segs (ring, ms) =
     (let ctl = snd (segs ! i);
          ctl = (if i = length segs - 1
                 then (if wrap then ctl OR CGEM_TXDESC_LAST_BUF OR CGEM_TXDESC_WRAP
                       else ctl OR CGEM_TXDESC_LAST_BUF)
                 else ctl);
          ring = ring[hp + i := \<lparr>td_addr = fst (segs ! i), td_ctl = ctl\<rparr>];
          ms = (if i \<noteq> 0 then ms[hp + i := None] else ms)
      in write_segs i hp wrap segs (ring, ms))"

definition tx_post :: "(u32 \<times> u32) list \<Rightarrow> nat \<Rightarrow> tx_ring \<Rightarrow> tx_ring" where
  "tx_post segs m t =
     (let hp = txring_hd_ptr t;
          nsegs = length segs;
          wrap = (hp + nsegs + TX_MAX_DMA_SEGS \<ge> RP1ETH_NUM_TX_DESCS);
          (ring, ms) = write_segs nsegs hp wrap segs (txring t, (txring_m t)[hp := Some m])
      in t\<lparr>txring := ring, txring_m := ms,
           txring_hd_ptr := (if wrap then 0 else hp + nsegs),
           txring_queued := txring_queued t + int nsegs\<rparr>)"

definition tx_loaded :: "dma_result \<Rightarrow> nat \<Rightarrow> tx_ring \<Rightarrow> bool \<times> tx_ring" where
  "tx_loaded r m t =
     (case r of Segs segs \<Rightarrow> (True, tx_post segs m t)
      | _ \<Rightarrow> (False, t\<lparr>m_dropped := m_dropped t @ [m],
                       txring_m_dmamap := (txring_m_dmamap t)[txring_hd_ptr t := False],
                       txdmamapfails := txdmamapfails t + 1\<rparr>))"

text \<open>One pass of the transmit loop after the dequeue: whether the frame was
  posted.\<close>

definition tx_enqueue :: "dma \<Rightarrow> nat \<Rightarrow> tx_ring \<Rightarrow> bool \<times> tx_ring" where
  "tx_enqueue d m t =
     (if \<not> dma_create d m
      then (False, t\<lparr>m_dropped := m_dropped t @ [m], txdmamapfails := txdmamapfails t + 1\<rparr>)
      else let hp = txring_hd_ptr t;
               t1 = t\<lparr>txring_m_dmamap := (txring_m_dmamap t)[hp := True]\<rparr>
           in case dma_load d m of
                EFBIG \<Rightarrow>
                  (case dma_defrag d m of
                     None \<Rightarrow> (False, t1\<lparr>txdefragfails := txdefragfails t1 + 1,
                                       m_dropped := m_dropped t1 @ [m],
                                       txring_m_dmamap := (txring_m_dmamap t1)[hp := False]\<rparr>)
                   | Some m2 \<Rightarrow> tx_loaded (dma_load d m2) m2 (t1\<lparr>txdefrags := txdefrags t1 + 1\<rparr>))
              | r \<Rightarrow> tx_loaded r m t1)"

text \<open>The guard at the head of the loop: reclaim when the ring is nearly full;
  the flag tells whether there is room now.\<close>

definition tx_make_room :: "tx_ring \<Rightarrow> (bool \<times> tx_ring) option" where
  "tx_make_room t =
     (let lim = int (RP1ETH_NUM_TX_DESCS - TX_MAX_DMA_SEGS * 2) in
      if txring_queued t \<ge> lim
      then (case cgem_clean_tx t of None \<Rightarrow> None
            | Some t1 \<Rightarrow> if txring_queued t1 \<ge> lim
                then Some (False, t1\<lparr>oactive := True, txfull := txfull t1 + 1\<rparr>)
                else Some (True, t1))
      else Some (True, t))"

definition tx_kick :: "u32 \<Rightarrow> mmio \<Rightarrow> mmio" where
  "tx_kick net_ctl_shadow mac =
     wr (wr mac CGEM_NET_CTRL (net_ctl_shadow OR CGEM_NET_CTRL_START_TX)) CGEM_USER_IO 1"

text \<open>The loop over the interface's send queue; the result also has the part
  of the queue that is left.\<close>

fun start_loop :: "dma \<Rightarrow> u32 \<Rightarrow> nat list \<Rightarrow> tx_ring \<times> mmio \<Rightarrow> (tx_ring \<times> mmio \<times> nat list) option" where
  "start_loop d shadow [] (t, mac) =
     (case tx_make_room t of None \<Rightarrow> None | Some (room, t1) \<Rightarrow> Some (t1, mac, []))"
| "start_loop d shadow (m # q) (t, mac) =
     (case tx_make_room t of None \<Rightarrow> None
      | Some (room, t1) \<Rightarrow>
        if \<not> room then Some (t1, mac, m # q)
        else let (posted, t2) = tx_enqueue d m t1
             in start_loop d shadow q (t2, if posted then tx_kick shadow mac else mac))"

definition cgem_start_locked :: "dma \<Rightarrow> u32 \<Rightarrow> nat list \<Rightarrow> tx_ring \<times> mmio
    \<Rightarrow> (tx_ring \<times> mmio \<times> nat list) option" where
  "cgem_start_locked d shadow sendq tm =
     (if oactive (fst tm) then Some (fst tm, snd tm, sendq) else start_loop d shadow sendq tm)"


section \<open>Flag bits\<close>

lemma and_flags [simp]:
  "x AND CGEM_TXDESC_USED = 0 \<longleftrightarrow> \<not> bit x 31"
  "x AND CGEM_TXDESC_WRAP = 0 \<longleftrightarrow> \<not> bit x 30"
  "x AND CGEM_TXDESC_LAST_BUF = 0 \<longleftrightarrow> \<not> bit x 15"
  by (rule and_flag; simp add: CGEM_TXDESC_USED_def CGEM_TXDESC_WRAP_def CGEM_TXDESC_LAST_BUF_def)+

lemma bit_flags [simp]:
  "bit CGEM_TXDESC_USED k \<longleftrightarrow> k = 31" "bit CGEM_TXDESC_WRAP k \<longleftrightarrow> k = 30"
  "bit CGEM_TXDESC_LAST_BUF k \<longleftrightarrow> k = 15" "bit CGEM_TXDESC_RETRY_ERR k \<longleftrightarrow> k = 29"
  "bit CGEM_TXDESC_AHB_ERR k \<longleftrightarrow> k = 27" "bit CGEM_TXDESC_LATE_COLL k \<longleftrightarrow> k = 26"
  by (simp_all add: flag_bit[OF CGEM_TXDESC_USED_def] flag_bit[OF CGEM_TXDESC_WRAP_def]
      flag_bit[OF CGEM_TXDESC_LAST_BUF_def] flag_bit[OF CGEM_TXDESC_RETRY_ERR_def]
      flag_bit[OF CGEM_TXDESC_AHB_ERR_def] flag_bit[OF CGEM_TXDESC_LATE_COLL_def])

lemmas ring_consts = RP1ETH_NUM_TX_DESCS_def TX_MAX_DMA_SEGS_def

section \<open>Frames in flight\<close>

text \<open>A frame is the position of its first descriptor, its number of
  descriptors and its buffer. A chain of frames starts where the tail points
  and each frame follows its predecessor, or starts at 0 where the driver
  wrapped.\<close>

type_synonym frame = "nat \<times> nat \<times> nat"

definition nxt :: "nat \<Rightarrow> nat \<Rightarrow> nat" where
  "nxt p n = (if p + n + 8 \<ge> 256 then 0 else p + n)"

fun chain :: "nat \<Rightarrow> frame list \<Rightarrow> nat \<Rightarrow> bool" where
  "chain p [] q \<longleftrightarrow> p = q"
| "chain p ((s, n, m) # r) q \<longleftrightarrow> s = p \<and> 1 \<le> n \<and> n \<le> 8 \<and> chain (nxt p n) r q"

fun total :: "frame list \<Rightarrow> nat" where
  "total [] = 0"
| "total ((s, n, m) # r) = n + total r"

fun slots :: "frame list \<Rightarrow> nat set" where
  "slots [] = {}"
| "slots ((s, n, m) # r) = {s..<s + n} \<union> slots r"

lemma chain_append: "chain p (f @ g) q \<longleftrightarrow> (\<exists>r. chain p f r \<and> chain r g q)"
  by (induction p f q rule: chain.induct) auto

lemma total_append [simp]: "total (f @ g) = total f + total g"
  by (induction f rule: total.induct) auto

lemma slots_append [simp]: "slots (f @ g) = slots f \<union> slots g"
  by (induction f rule: slots.induct) auto

lemma nxt_le: "nxt p n \<le> 247"
  by (simp add: nxt_def)

lemma chain_end_le: "chain p fl q \<Longrightarrow> p \<le> 247 \<Longrightarrow> q \<le> 247"
  by (induction p fl q rule: chain.induct) (auto simp: nxt_le)

lemma chain_slots_bound: "chain p fl q \<Longrightarrow> p \<le> 247 \<Longrightarrow> slots fl \<subseteq> {..<256}"
  by (induction p fl q rule: chain.induct) (auto simp: nxt_le)

text \<open>Without a wrap the chain is the interval from the tail to the head; with
  one it is the end of the ring from the tail and its beginning up to the head.\<close>

fun path :: "frame list \<Rightarrow> nat list" where
  "path [] = []"
| "path ((s, n, m) # r) = [s..<s + n] @ path r"

lemma set_path: "set (path fl) = slots fl"
  by (induction fl rule: path.induct) auto

definition straight :: "nat \<Rightarrow> frame list \<Rightarrow> nat \<Rightarrow> bool" where
  "straight p fl q \<longleftrightarrow> q = p + total fl \<and> path fl = [p..<q]"

definition wrapped :: "nat \<Rightarrow> frame list \<Rightarrow> nat \<Rightarrow> bool" where
  "wrapped p fl q \<longleftrightarrow>
     (\<exists>l. 248 \<le> l \<and> l \<le> 255 \<and> p \<le> l \<and> p + total fl = l + q \<and> path fl = [p..<l] @ [0..<q])"

lemma straight_slots: "straight p fl q \<Longrightarrow> q = p + total fl \<and> slots fl = {p..<q}"
  by (simp add: straight_def flip: set_path)

lemma wrapped_slots:
  "wrapped p fl q \<Longrightarrow>
   \<exists>l. 248 \<le> l \<and> l \<le> 255 \<and> p \<le> l \<and> p + total fl = l + q \<and> slots fl = {p..<l} \<union> {..<q}"
  unfolding wrapped_def set_path[symmetric]
proof (elim exE)
  fix l assume "248 \<le> l \<and> l \<le> 255 \<and> p \<le> l \<and> p + total fl = l + q \<and> path fl = [p..<l] @ [0..<q]"
  then show "\<exists>l. 248 \<le> l \<and> l \<le> 255 \<and> p \<le> l \<and> p + total fl = l + q \<and> set (path fl) = {p..<l} \<union> {..<q}"
    by (intro exI[of _ l]) (simp add: atLeast0LessThan)
qed

lemma upt_join: "a \<le> b \<Longrightarrow> b \<le> c \<Longrightarrow> [a..<b] @ [b..<c] = [a..<c]"
  using upt_add_eq_append[of a b "c - b"] by simp

lemma straight_cons: "straight (p + n) r q \<Longrightarrow> straight p ((p, n, m) # r) q"
  by (auto simp: straight_def upt_join)

lemma wrapped_cons:
  assumes "wrapped (p + n) r q"
  shows "wrapped p ((p, n, m) # r) q"
proof -
  obtain l where l: "248 \<le> l" "l \<le> 255" "p + n \<le> l" "p + n + total r = l + q"
    "path r = [p + n..<l] @ [0..<q]"
    using assms unfolding wrapped_def by blast
  have "[p..<p + n] @ [p + n..<l] = [p..<l]"
    using l(3) by (intro upt_join) simp_all
  then have "path ((p, n, m) # r) = [p..<l] @ [0..<q]"
    by (simp add: l(5) flip: append_assoc)
  with l show ?thesis
    unfolding wrapped_def by (intro exI[of _ l]) simp
qed

lemma straight_wraps:
  assumes "straight 0 r q" "248 \<le> p + n" "p \<le> 247" "n \<le> 8"
  shows "wrapped p ((p, n, m) # r) q"
  using assms unfolding wrapped_def straight_def
  by (intro exI[of _ "p + n"]) simp

lemma chain_shape:
  "chain p fl q \<Longrightarrow> p \<le> 247 \<Longrightarrow> total fl \<le> 247 \<Longrightarrow> straight p fl q \<or> wrapped p fl q"
proof (induction p fl q rule: chain.induct)
  case (1 p q)
  then show ?case by (simp add: straight_def)
next
  case (2 p s n m r q)
  show ?case
  proof (cases "p + n + 8 \<ge> 256")
    case True
    with 2 have "straight 0 r q \<or> wrapped 0 r q" by (simp add: nxt_def)
    moreover have "\<not> wrapped 0 r q"
      using 2(4) by (auto simp: wrapped_def)
    ultimately show ?thesis
      using True 2(2,3) straight_wraps[of r q p n m] by simp
  next
    case False
    with 2 have "straight (p + n) r q \<or> wrapped (p + n) r q" by (simp add: nxt_def)
    then show ?thesis
      using 2(2) straight_cons wrapped_cons by auto
  qed
qed

text \<open>The next frame never meets one in flight while fewer than 240
  descriptors are queued.\<close>

lemma chain_room:
  assumes "chain p fl q" "p \<le> 247" "total fl < 240" "n \<le> 8"
  shows "{q..<q + n} \<inter> slots fl = {}"
proof -
  have "straight p fl q \<or> wrapped p fl q"
    using assms by (intro chain_shape) simp_all
  then show ?thesis
  proof
    assume "straight p fl q"
    then show ?thesis by (auto dest: straight_slots)
  next
    assume "wrapped p fl q"
    then obtain l where "248 \<le> l" "p + total fl = l + q" "slots fl = {p..<l} \<union> {..<q}"
      by (auto dest: wrapped_slots)
    moreover from this assms(3,4) have "q + n \<le> p" by linarith
    ultimately show ?thesis by auto
  qed
qed

text \<open>The descriptors of a frame are its own.\<close>

lemma chain_head_disjoint:
  assumes "chain p ((s, n, m) # r) q" "p \<le> 247" "total ((s, n, m) # r) \<le> 247"
  shows "{s..<s + n} \<inter> slots r = {}"
proof (cases "p + n + 8 \<ge> 256")
  case True
  with assms have c: "chain 0 r q" by (simp add: nxt_def)
  have "straight 0 r q \<or> wrapped 0 r q"
    by (rule chain_shape[OF c]) (use assms in simp_all)
  moreover have "\<not> wrapped 0 r q"
    using assms by (auto simp: wrapped_def)
  ultimately have "slots r = {0..<total r}"
    by (auto dest: straight_slots)
  moreover have "total r < p"
    using assms True by simp
  ultimately show ?thesis
    using assms(1) by auto
next
  case False
  with assms have c: "chain (p + n) r q" by (simp add: nxt_def)
  have "straight (p + n) r q \<or> wrapped (p + n) r q"
    by (rule chain_shape[OF c]) (use assms False in simp_all)
  then show ?thesis
  proof
    assume "straight (p + n) r q"
    then show ?thesis using assms(1) by (auto dest: straight_slots)
  next
    assume "wrapped (p + n) r q"
    then obtain l where "248 \<le> l" "p + n + total r = l + q" "slots r = {p + n..<l} \<union> {..<q}"
      by (auto dest: wrapped_slots)
    moreover from this assms(3) have "q < p" by simp
    ultimately show ?thesis
      using assms(1) by auto
  qed
qed


section \<open>The ring invariant\<close>

definition desc_ok :: "tx_desc list \<Rightarrow> nat \<Rightarrow> nat \<Rightarrow> bool" where
  "desc_ok ring s n \<longleftrightarrow>
     (\<forall>j < n. (bit (td_ctl (ring ! (s + j))) 15 \<longleftrightarrow> j = n - 1) \<and>
              (bit (td_ctl (ring ! (s + j))) 30 \<longleftrightarrow> j = n - 1 \<and> s + n + 8 \<ge> 256))"

fun frame_ok :: "tx_ring \<Rightarrow> frame \<Rightarrow> bool" where
  "frame_ok t (s, n, m) \<longleftrightarrow>
     desc_ok (txring t) s n \<and> txring_m t ! s = Some m \<and> txring_m_dmamap t ! s"

definition tx_ok :: "tx_ring \<Rightarrow> frame list \<Rightarrow> bool" where
  "tx_ok t fl \<longleftrightarrow>
     length (txring t) = 256 \<and> length (txring_m t) = 256 \<and> length (txring_m_dmamap t) = 256
   \<and> txring_tl_ptr t \<le> 247 \<and> chain (txring_tl_ptr t) fl (txring_hd_ptr t)
   \<and> total fl \<le> 247 \<and> txring_queued t = int (total fl)
   \<and> (\<forall>f \<in> set fl. frame_ok t f)
   \<and> (\<forall>i < 256. i \<notin> fst ` set fl \<longrightarrow> txring_m t ! i = None \<and> \<not> txring_m_dmamap t ! i)
   \<and> (\<forall>i < 256. i \<notin> slots fl \<longrightarrow> bit (td_ctl (txring t ! i)) 31)"

abbreviation fbuf :: "frame \<Rightarrow> nat" where "fbuf f \<equiv> snd (snd f)"

lemma start_in_slots: "chain p fl q \<Longrightarrow> (s, n, m) \<in> set fl \<Longrightarrow> {s..<s + n} \<subseteq> slots fl \<and> 1 \<le> n"
  by (induction p fl q rule: chain.induct) auto

lemma starts_subset: "chain p fl q \<Longrightarrow> fst ` set fl \<subseteq> slots fl"
  by (induction p fl q rule: chain.induct) auto

section \<open>Reclaiming\<close>

definition mark :: "nat \<Rightarrow> nat \<Rightarrow> tx_desc list \<Rightarrow> tx_desc list" where
  "mark a b ring = map (\<lambda>i. if a \<le> i \<and> i < b
      then (ring ! i)\<lparr>td_ctl := td_ctl (ring ! i) OR CGEM_TXDESC_USED\<rparr> else ring ! i) [0..<length ring]"

lemma length_mark [simp]: "length (mark a b ring) = length ring"
  by (simp add: mark_def)

lemma nth_mark [simp]: "i < length ring \<Longrightarrow> mark a b ring ! i =
    (if a \<le> i \<and> i < b then (ring ! i)\<lparr>td_ctl := td_ctl (ring ! i) OR CGEM_TXDESC_USED\<rparr> else ring ! i)"
  by (simp add: mark_def)

lemma mark_empty [simp]: "mark a a ring = ring"
  by (rule nth_equalityI) auto

lemma mark_step: "a < b \<Longrightarrow> b \<le> length ring \<Longrightarrow>
    mark (Suc a) b (ring[a := (ring ! a)\<lparr>td_ctl := td_ctl (ring ! a) OR CGEM_TXDESC_USED\<rparr>]) = mark a b ring"
  by (rule nth_equalityI) (auto simp: nth_list_update)

lemma desc_okD:
  "desc_ok ring s n \<Longrightarrow> j < n \<Longrightarrow> (bit (td_ctl (ring ! (s + j))) 15 \<longleftrightarrow> j = n - 1)
     \<and> (bit (td_ctl (ring ! (s + j))) 30 \<longleftrightarrow> j = n - 1 \<and> s + n + 8 \<ge> 256)"
  by (simp add: desc_ok_def)

lemma bit_set_used:
  "i < length ring \<Longrightarrow> k \<noteq> 31 \<Longrightarrow>
   bit (td_ctl (ring[a := (ring ! a)\<lparr>td_ctl := td_ctl (ring ! a) OR CGEM_TXDESC_USED\<rparr>] ! i)) k
     = bit (td_ctl (ring ! i)) k"
  by (cases "i = a") (simp_all add: bit_or_iff)

lemma desc_ok_update:
  "desc_ok ring s n \<Longrightarrow> length ring = 256 \<Longrightarrow> s + n \<le> 256 \<Longrightarrow>
   desc_ok (ring[a := (ring ! a)\<lparr>td_ctl := td_ctl (ring ! a) OR CGEM_TXDESC_USED\<rparr>]) s n"
  by (simp add: desc_ok_def bit_set_used)

lemma clean_frame_run:
  "desc_ok (txring t) s n \<Longrightarrow> length (txring t) = 256 \<Longrightarrow> s + n \<le> 256 \<Longrightarrow> j + k + 1 = n \<Longrightarrow>
   txring_tl_ptr t = s + j \<Longrightarrow> (bit ctl 15 \<longleftrightarrow> j = n - 1) \<Longrightarrow>
   (bit ctl 30 \<longleftrightarrow> j = n - 1 \<and> s + n + 8 \<ge> 256) \<Longrightarrow> k \<le> fuel \<Longrightarrow>
   \<exists>ctl'. clean_frame fuel ctl t = Some (ctl', t\<lparr>txring_tl_ptr := s + n - 1,
        txring_queued := txring_queued t - int k, txring := mark (s + j + 1) (s + n) (txring t)\<rparr>)
     \<and> (bit ctl' 30 \<longleftrightarrow> s + n + 8 \<ge> 256)"
proof (induction k arbitrary: j t ctl fuel)
  case 0
  then have n: "n = j + 1" by simp
  have "ctl AND CGEM_TXDESC_LAST_BUF \<noteq> 0"
    using 0(6) n by simp
  then have run: "clean_frame fuel ctl t = Some (ctl, t)"
    by (subst clean_frame.simps) simp
  have same: "t\<lparr>txring_tl_ptr := s + n - 1, txring_queued := txring_queued t - int 0,
      txring := mark (s + j + 1) (s + n) (txring t)\<rparr> = t"
    using 0(5) by (cases t) (simp add: n)
  have "clean_frame fuel ctl t = Some (ctl, t\<lparr>txring_tl_ptr := s + n - 1,
        txring_queued := txring_queued t - int 0, txring := mark (s + j + 1) (s + n) (txring t)\<rparr>)"
    unfolding same by (rule run)
  moreover have "bit ctl 30 \<longleftrightarrow> s + n + 8 \<ge> 256"
    using 0(7) n by simp
  ultimately show ?case
    by (intro exI[of _ ctl] conjI)
next
  case (Suc k)
  define d where "d = txring t ! (s + (j + 1))"
  define t2 where "t2 = t\<lparr>txring_tl_ptr := s + (j + 1), txring_queued := txring_queued t - 1,
    txring := (txring t)[s + (j + 1) := d\<lparr>td_ctl := td_ctl d OR CGEM_TXDESC_USED\<rparr>]\<rparr>"
  obtain f where f: "fuel = Suc f" "k \<le> f"
    using Suc.prems by (cases fuel) auto
  have nb: "\<not> bit ctl 15" "\<not> bit ctl 30"
    using Suc.prems by auto
  have lt: "s + (j + 1) < 256"
    using Suc.prems by simp
  have step: "clean_frame fuel ctl t = clean_frame f (td_ctl d) t2"
    using nb lt Suc.prems f by (subst clean_frame.simps) (simp add: t2_def d_def Let_def)
  have "desc_ok (txring t2) s n"
    using Suc.prems by (simp add: t2_def d_def desc_ok_update del: add_Suc_right)
  moreover have "bit (td_ctl d) 15 \<longleftrightarrow> j + 1 = n - 1"
      "bit (td_ctl d) 30 \<longleftrightarrow> j + 1 = n - 1 \<and> s + n + 8 \<ge> 256"
    using desc_okD[OF Suc.prems(1), of "j + 1"] Suc.prems(4) by (simp_all add: d_def)
  ultimately obtain ctl' where ctl': "clean_frame f (td_ctl d) t2 = Some (ctl', t2\<lparr>txring_tl_ptr := s + n - 1,
        txring_queued := txring_queued t2 - int k, txring := mark (s + (j + 1) + 1) (s + n) (txring t2)\<rparr>)"
      "bit ctl' 30 \<longleftrightarrow> s + n + 8 \<ge> 256"
    using Suc.IH[of t2 "j + 1" "td_ctl d" f] Suc.prems f lt by (auto simp: t2_def)
  have "mark (s + (j + 1) + 1) (s + n) (txring t2) = mark (s + j + 1) (s + n) (txring t)"
    using mark_step[of "s + (j + 1)" "s + n" "txring t"] Suc.prems by (simp add: t2_def d_def)
  with ctl' step show ?case
    by (intro exI[of _ ctl']) (simp add: t2_def)
qed

text \<open>One round of the reclaim takes the oldest frame off the chain.\<close>

lemma frame_ok_frame:
  "frame_ok t (s, n, m) \<Longrightarrow> \<forall>i. s \<le> i \<and> i < s + n \<longrightarrow> txring t' ! i = txring t ! i \<Longrightarrow>
   txring_m t' ! s = txring_m t ! s \<Longrightarrow> txring_m_dmamap t' ! s = txring_m_dmamap t ! s \<Longrightarrow>
   frame_ok t' (s, n, m)"
  by (auto simp: desc_ok_def)

definition tx_done :: "tx_ring \<Rightarrow> frame \<Rightarrow> bool" where
  "tx_done t f = bit (td_ctl (txring t ! fst f)) 31"

definition tx_good :: "tx_ring \<Rightarrow> frame \<Rightarrow> bool" where
  "tx_good t f \<longleftrightarrow> \<not> bit (td_ctl (txring t ! fst f)) 27 \<and> \<not> bit (td_ctl (txring t ! fst f)) 29
     \<and> \<not> bit (td_ctl (txring t ! fst f)) 26"

lemma count_tx_fields:
  "count_tx ctl t = t\<lparr>opackets := opackets t + (if \<not> bit ctl 27 \<and> \<not> bit ctl 29 \<and> \<not> bit ctl 26 then 1 else 0),
     oerrors := oerrors t + (if \<not> bit ctl 27 \<and> (bit ctl 29 \<or> bit ctl 26) then 1 else 0)\<rparr>"
proof -
  have "ctl AND CGEM_TXDESC_AHB_ERR = 0 \<longleftrightarrow> \<not> bit ctl 27"
    by (rule and_flag) (simp_all add: CGEM_TXDESC_AHB_ERR_def)
  moreover have "ctl AND CGEM_TXDESC_RETRY_ERR = 0 \<longleftrightarrow> \<not> bit ctl 29"
    by (rule and_flag) (simp_all add: CGEM_TXDESC_RETRY_ERR_def)
  moreover have "ctl AND CGEM_TXDESC_LATE_COLL = 0 \<longleftrightarrow> \<not> bit ctl 26"
    by (rule and_flag) (simp_all add: CGEM_TXDESC_LATE_COLL_def)
  ultimately show ?thesis
    by (auto simp: count_tx_def bit.conj_disj_distrib or_eq_0_iff)
qed


definition popped :: "tx_ring \<Rightarrow> nat \<Rightarrow> nat \<Rightarrow> nat \<Rightarrow> tx_ring" where
  "popped t s n m = (count_tx (td_ctl (txring t ! s)) (release_tx t))\<lparr>
     txring := mark (s + 1) (s + n) (txring t), txring_tl_ptr := nxt s n,
     txring_queued := txring_queued t - int n, oactive := False\<rparr>"

lemma count_tx_sel [simp]:
  "txring (count_tx c t) = txring t" "txring_tl_ptr (count_tx c t) = txring_tl_ptr t"
  "txring_queued (count_tx c t) = txring_queued t" "txring_m (count_tx c t) = txring_m t"
  "txring_m_dmamap (count_tx c t) = txring_m_dmamap t" "txring_hd_ptr (count_tx c t) = txring_hd_ptr t"
  "m_freed (count_tx c t) = m_freed t" "m_dropped (count_tx c t) = m_dropped t"
  by (simp_all add: count_tx_fields)

lemma release_tx_sel [simp]:
  "txring (release_tx t) = txring t" "txring_tl_ptr (release_tx t) = txring_tl_ptr t"
  "txring_queued (release_tx t) = txring_queued t" "txring_hd_ptr (release_tx t) = txring_hd_ptr t"
  "txring_m (release_tx t) = (txring_m t)[txring_tl_ptr t := None]"
  "txring_m_dmamap (release_tx t) = (txring_m_dmamap t)[txring_tl_ptr t := False]"
  "m_dropped (release_tx t) = m_dropped t" "opackets (release_tx t) = opackets t"
  "oerrors (release_tx t) = oerrors t"
  by (simp_all add: release_tx_def Let_def)

lemma clean_round:
  assumes ok: "tx_ok t ((s, n, m) # r)" and used: "bit (td_ctl (txring t ! s)) 31"
  shows "clean_tx_loop (Suc f) t = clean_tx_loop f (popped t s n m)"
proof -
  have tl: "txring_tl_ptr t = s" and n: "1 \<le> n" "n \<le> 8" and len: "length (txring t) = 256"
    and s: "s \<le> 247" and d: "desc_ok (txring t) s n" and q: "0 < txring_queued t"
    using ok by (auto simp: tx_ok_def)
  let ?c = "td_ctl (txring t ! s)"
  let ?t = "count_tx ?c (release_tx t)"
  have "\<exists>c'. clean_frame 256 ?c ?t = Some (c', ?t\<lparr>txring_tl_ptr := s + n - 1,
        txring_queued := txring_queued ?t - int (n - 1), txring := mark (s + 0 + 1) (s + n) (txring ?t)\<rparr>)
     \<and> (bit c' 30 \<longleftrightarrow> s + n + 8 \<ge> 256)"
    using desc_okD[OF d, of 0] n s d len tl by (intro clean_frame_run) simp_all
  then obtain c' where c': "clean_frame 256 ?c ?t = Some (c', ?t\<lparr>txring_tl_ptr := s + n - 1,
        txring_queued := txring_queued ?t - int (n - 1), txring := mark (s + 0 + 1) (s + n) (txring ?t)\<rparr>)"
     "bit c' 30 \<longleftrightarrow> s + n + 8 \<ge> 256" by blast
  have qn: "txring_queued t - int (n - 1) - 1 = txring_queued t - int n"
    using n by simp
  show ?thesis
    using q len tl s used n
    by (subst clean_tx_loop.simps) (simp add: Let_def ring_consts c' popped_def nxt_def qn)
qed

lemma popped_ok:
  assumes ok: "tx_ok t ((s, n, m) # r)" and used: "bit (td_ctl (txring t ! s)) 31"
  shows "tx_ok (popped t s n m) r"
proof -
  have ch: "chain s ((s, n, m) # r) (txring_hd_ptr t)" and s: "s \<le> 247" and tl: "txring_tl_ptr t = s"
    and tot: "total ((s, n, m) # r) \<le> 247" and n: "1 \<le> n" "n \<le> 8"
    using ok by (auto simp: tx_ok_def)
  have dis: "{s..<s + n} \<inter> slots r = {}"
    using chain_head_disjoint[OF ch s tot] .
  have fr: "frame_ok (popped t s n m) f" if "f \<in> set r" for f
  proof -
    obtain s' n' m' where f: "f = (s', n', m')" by (cases f)
    have "chain (nxt s n) r (txring_hd_ptr t)" using ch by simp
    from start_in_slots[OF this] that f have sl: "{s'..<s' + n'} \<subseteq> slots r" "1 \<le> n'"
      by auto
    then have "s' \<in> slots r" "s' + n' - 1 \<in> slots r" by auto
    moreover have "slots r \<subseteq> {..<256}"
      using chain_slots_bound[OF ch s] by auto
    moreover have "s \<in> {s..<s + n}" using n by simp
    ultimately have b: "s' \<noteq> s" "s' + n' \<le> 256"
      using dis by (blast, auto)
    have "frame_ok t f"
      using ok that unfolding tx_ok_def by simp
    then have old: "frame_ok t (s', n', m')"
      by (simp only: f)
    show ?thesis
      unfolding f
    proof (rule frame_ok_frame[OF old])
      show "\<forall>i. s' \<le> i \<and> i < s' + n' \<longrightarrow> txring (popped t s n m) ! i = txring t ! i"
      proof (intro allI impI)
        fix i assume i: "s' \<le> i \<and> i < s' + n'"
        then have "i \<in> slots r" using sl by auto
        then have "i \<notin> {s..<s + n}" using dis by blast
        then show "txring (popped t s n m) ! i = txring t ! i"
          using ok i b by (auto simp: popped_def tx_ok_def)
      qed
    qed (use sl b tl in \<open>simp_all add: popped_def\<close>)
  qed
  have m: "txring_m (popped t s n m) ! i = None \<and> \<not> txring_m_dmamap (popped t s n m) ! i"
    if "i < 256" "i \<notin> fst ` set r" for i
    using ok that tl by (cases "i = s") (auto simp: popped_def tx_ok_def)
  have u: "bit (td_ctl (txring (popped t s n m) ! i)) 31" if "i < 256" "i \<notin> slots r" for i
    using ok used that by (cases "i = s") (auto simp: popped_def tx_ok_def bit_or_iff)
  have "chain (nxt s n) r (txring_hd_ptr t)"
    using ch by simp
  with ok tot fr m u n show ?thesis
    by (simp add: tx_ok_def) (simp add: popped_def nxt_le)
qed

lemma popped_log: "tx_ok t ((s, n, m) # r) \<Longrightarrow> m_freed (popped t s n m) = m_freed t @ [m]"
  by (auto simp: popped_def tx_ok_def release_tx_def Let_def)

lemma popped_frames:
  assumes ok: "tx_ok t ((s, n, m) # r)" and f: "f \<in> set r"
  shows "tx_done (popped t s n m) f = tx_done t f" "tx_good (popped t s n m) f = tx_good t f"
proof -
  have ch: "chain s ((s, n, m) # r) (txring_hd_ptr t)" and s: "s \<le> 247"
    and tot: "total ((s, n, m) # r) \<le> 247"
    using ok by (auto simp: tx_ok_def)
  have "fst f \<in> slots r"
    using starts_subset[of "nxt s n" r] ch f by auto
  then have "fst f \<notin> {s..<s + n}" "fst f < 256"
    using chain_head_disjoint[OF ch s tot] chain_slots_bound[OF ch s] by auto
  then have "txring (popped t s n m) ! fst f = txring t ! fst f"
    using ok by (auto simp: popped_def tx_ok_def)
  then show "tx_done (popped t s n m) f = tx_done t f" "tx_good (popped t s n m) f = tx_good t f"
    by (simp_all add: tx_done_def tx_good_def)
qed

lemma clean_all:
  "tx_ok t fl \<Longrightarrow> length fl \<le> f \<Longrightarrow>
   \<exists>t'. clean_tx_loop f t = Some t' \<and> tx_ok t' (dropWhile (tx_done t) fl)
     \<and> m_freed t' = m_freed t @ map fbuf (takeWhile (tx_done t) fl)
     \<and> m_dropped t' = m_dropped t
     \<and> opackets t' = opackets t + length (filter (tx_good t) (takeWhile (tx_done t) fl))
     \<and> txring_hd_ptr t' = txring_hd_ptr t"
proof (induction fl arbitrary: t f)
  case Nil
  then have "clean_tx_loop f t = Some t"
    by (subst clean_tx_loop.simps) (simp add: tx_ok_def)
  with Nil show ?case by simp
next
  case (Cons x r)
  obtain s n m where x: "x = (s, n, m)" by (cases x)
  obtain g where g: "f = Suc g" "length r \<le> g"
    using Cons.prems by (cases f) auto
  have ok: "tx_ok t ((s, n, m) # r)" using Cons.prems x by simp
  show ?case
  proof (cases "bit (td_ctl (txring t ! s)) 31")
    case False
    then have "clean_tx_loop f t = Some t"
      using ok by (subst clean_tx_loop.simps) (auto simp: tx_ok_def Let_def)
    with ok False show ?thesis by (simp add: x tx_done_def)
  next
    case True
    let ?p = "popped t s n m"
    have same: "takeWhile (tx_done ?p) r = takeWhile (tx_done t) r"
        "dropWhile (tx_done ?p) r = dropWhile (tx_done t) r"
      using popped_frames(1)[OF ok] by (auto intro: takeWhile_cong dropWhile_cong)
    have good: "filter (tx_good ?p) (takeWhile (tx_done t) r) = filter (tx_good t) (takeWhile (tx_done t) r)"
      using popped_frames(2)[OF ok] by (intro filter_cong) (auto dest: set_takeWhileD)
    have cnt: "opackets ?p = opackets t + (if tx_good t x then 1 else 0)"
      by (simp add: popped_def count_tx_fields tx_good_def x)
    from Cons.IH[OF popped_ok[OF ok True] g(2)] show ?thesis
      using clean_round[OF ok True, of g] True popped_log[OF ok]
      by (auto simp: g(1) x tx_done_def[of t "(s, n, m)"] same good cnt) (simp_all add: popped_def)
  qed
qed


section \<open>Posting\<close>

text \<open>The descriptor of segment i of a frame.\<close>

definition seg_desc :: "(u32 \<times> u32) list \<Rightarrow> bool \<Rightarrow> nat \<Rightarrow> tx_desc" where
  "seg_desc segs wrap i = \<lparr>td_addr = fst (segs ! i),
     td_ctl = (if i = length segs - 1
       then (if wrap then snd (segs ! i) OR CGEM_TXDESC_LAST_BUF OR CGEM_TXDESC_WRAP
             else snd (segs ! i) OR CGEM_TXDESC_LAST_BUF)
       else snd (segs ! i))\<rparr>"

lemma write_segs_step:
  "write_segs (Suc i) hp wrap segs (ring, ms) =
     write_segs i hp wrap segs (ring[hp + i := seg_desc segs wrap i], if i \<noteq> 0 then ms[hp + i := None] else ms)"
  by (simp add: seg_desc_def Let_def)

declare write_segs.simps(2) [simp del]

lemma write_segs_run:
  "length ring = 256 \<Longrightarrow> length ms = 256 \<Longrightarrow> hp + k \<le> 256 \<Longrightarrow>
   \<exists>ring' ms'. write_segs k hp wrap segs (ring, ms) = (ring', ms')
     \<and> length ring' = 256 \<and> length ms' = 256
     \<and> (\<forall>i < 256. ring' ! i = (if hp \<le> i \<and> i < hp + k then seg_desc segs wrap (i - hp) else ring ! i))
     \<and> (\<forall>i < 256. ms' ! i = (if hp < i \<and> i < hp + k then None else ms ! i))"
proof (induction k arbitrary: ring ms)
  case 0
  then show ?case by auto
next
  case (Suc k)
  let ?ring = "ring[hp + k := seg_desc segs wrap k]"
  let ?ms = "if k \<noteq> 0 then ms[hp + k := None] else ms"
  have "length ?ring = 256" "length ?ms = 256" "hp + k \<le> 256"
    using Suc.prems by simp_all
  from Suc.IH[OF this] obtain ring' ms' where r: "write_segs k hp wrap segs (?ring, ?ms) = (ring', ms')"
    "length ring' = 256" "length ms' = 256"
    "\<forall>i < 256. ring' ! i = (if hp \<le> i \<and> i < hp + k then seg_desc segs wrap (i - hp) else ?ring ! i)"
    "\<forall>i < 256. ms' ! i = (if hp < i \<and> i < hp + k then None else ?ms ! i)" by blast
  have "ring' ! i = (if hp \<le> i \<and> i < hp + Suc k then seg_desc segs wrap (i - hp) else ring ! i)" if "i < 256" for i
    using r(4) that Suc.prems by (auto simp: nth_list_update)
  moreover have "ms' ! i = (if hp < i \<and> i < hp + Suc k then None else ms ! i)" if "i < 256" for i
    using r(5) that Suc.prems by (auto simp: nth_list_update)
  ultimately show ?case
    using r(1-3) by (simp add: write_segs_step)
qed

text \<open>What the busdma interface documents of a mapping it returns: one to eight
  segments, each no longer than a cluster.\<close>

definition legal_segs :: "(u32 \<times> u32) list \<Rightarrow> bool" where
  "legal_segs segs \<longleftrightarrow> 1 \<le> length segs \<and> length segs \<le> 8 \<and> (\<forall>sg \<in> set segs. unat (snd sg) \<le> 2048)"

lemma seg_desc_bits:
  assumes "legal_segs segs" "i < length segs"
  shows "bit (td_ctl (seg_desc segs wrap i)) 15 \<longleftrightarrow> i = length segs - 1"
    and "bit (td_ctl (seg_desc segs wrap i)) 30 \<longleftrightarrow> i = length segs - 1 \<and> wrap"
    and "\<not> bit (td_ctl (seg_desc segs wrap i)) 31"
proof -
  have "segs ! i \<in> set segs" using assms(2) by simp
  then have "unat (snd (segs ! i)) \<le> 2048"
    using assms(1) unfolding legal_segs_def by blast
  then have "unat (snd (segs ! i)) < 2 ^ 14" by simp
  then have "\<not> bit (snd (segs ! i)) k" if "14 \<le> k" for k
    using small_not_bit that by blast
  then show "bit (td_ctl (seg_desc segs wrap i)) 15 \<longleftrightarrow> i = length segs - 1"
    and "bit (td_ctl (seg_desc segs wrap i)) 30 \<longleftrightarrow> i = length segs - 1 \<and> wrap"
    and "\<not> bit (td_ctl (seg_desc segs wrap i)) 31"
    by (auto simp: seg_desc_def bit_or_iff)
qed

definition tx_map :: "tx_ring \<Rightarrow> tx_ring" where
  "tx_map t = t\<lparr>txring_m_dmamap := (txring_m_dmamap t)[txring_hd_ptr t := True]\<rparr>"

lemma tx_post_facts:
  assumes len: "length (txring t) = 256" "length (txring_m t) = 256" "length (txring_m_dmamap t) = 256"
    and hp: "txring_hd_ptr t \<le> 247" and seg: "legal_segs segs" and n: "n = length segs"
    and p: "p = tx_post segs m (tx_map t)"
  shows "length (txring p) = 256" "length (txring_m p) = 256" "length (txring_m_dmamap p) = 256"
    "txring_hd_ptr p = nxt (txring_hd_ptr t) n" "txring_tl_ptr p = txring_tl_ptr t"
    "txring_queued p = txring_queued t + int n" "m_freed p = m_freed t" "m_dropped p = m_dropped t"
    "i < 256 \<Longrightarrow> txring p ! i = (if txring_hd_ptr t \<le> i \<and> i < txring_hd_ptr t + n
       then seg_desc segs (txring_hd_ptr t + n + 8 \<ge> 256) (i - txring_hd_ptr t) else txring t ! i)"
    "i < 256 \<Longrightarrow> txring_m p ! i = (if i = txring_hd_ptr t then Some m
       else if txring_hd_ptr t < i \<and> i < txring_hd_ptr t + n then None else txring_m t ! i)"
    "i < 256 \<Longrightarrow> txring_m_dmamap p ! i = (if i = txring_hd_ptr t then True else txring_m_dmamap t ! i)"
proof -
  let ?h = "txring_hd_ptr t"
  have b: "?h + n \<le> 256" "1 \<le> n"
    using hp seg n by (simp_all add: legal_segs_def)
  have lenm: "length ((txring_m t)[?h := Some m]) = 256"
    using len by simp
  from write_segs_run[OF len(1) lenm b(1), of "?h + n + 8 \<ge> 256" segs]
  obtain ring' ms' where w: "write_segs n ?h (?h + n + 8 \<ge> 256) segs (txring t, (txring_m t)[?h := Some m]) = (ring', ms')"
    "length ring' = 256" "length ms' = 256"
    "\<forall>i < 256. ring' ! i = (if ?h \<le> i \<and> i < ?h + n then seg_desc segs (?h + n + 8 \<ge> 256) (i - ?h) else txring t ! i)"
    "\<forall>i < 256. ms' ! i = (if ?h < i \<and> i < ?h + n then None else (txring_m t)[?h := Some m] ! i)"
    by blast
  have p': "p = (tx_map t)\<lparr>txring := ring', txring_m := ms', txring_hd_ptr := nxt ?h n,
      txring_queued := txring_queued t + int n\<rparr>"
    using w(1) by (simp add: p tx_post_def tx_map_def Let_def ring_consts nxt_def n[symmetric])
  show "length (txring p) = 256" "length (txring_m p) = 256" "length (txring_m_dmamap p) = 256"
    "txring_hd_ptr p = nxt (txring_hd_ptr t) n" "txring_tl_ptr p = txring_tl_ptr t"
    "txring_queued p = txring_queued t + int n" "m_freed p = m_freed t" "m_dropped p = m_dropped t"
    using w(2,3) len by (simp_all add: p' tx_map_def)
  show "i < 256 \<Longrightarrow> txring p ! i = (if txring_hd_ptr t \<le> i \<and> i < txring_hd_ptr t + n
       then seg_desc segs (txring_hd_ptr t + n + 8 \<ge> 256) (i - txring_hd_ptr t) else txring t ! i)"
    using w(4) by (simp add: p' tx_map_def)
  show "i < 256 \<Longrightarrow> txring_m p ! i = (if i = txring_hd_ptr t then Some m
       else if txring_hd_ptr t < i \<and> i < txring_hd_ptr t + n then None else txring_m t ! i)"
    using w(5) len by (auto simp: p' tx_map_def nth_list_update)
  show "i < 256 \<Longrightarrow> txring_m_dmamap p ! i = (if i = txring_hd_ptr t then True else txring_m_dmamap t ! i)"
    using len by (simp add: p' tx_map_def nth_list_update)
qed

lemma tx_post_ok:
  assumes ok: "tx_ok t fl" and room: "txring_queued t < 240" and seg: "legal_segs segs"
  shows "tx_ok (tx_post segs m (tx_map t)) (fl @ [(txring_hd_ptr t, length segs, m)])"
proof -
  let ?h = "txring_hd_ptr t" and ?n = "length segs" and ?p = "tx_post segs m (tx_map t)"
  have ch: "chain (txring_tl_ptr t) fl ?h" and tl: "txring_tl_ptr t \<le> 247"
    and tot: "total fl < 240" and n: "1 \<le> ?n" "?n \<le> 8"
    using ok room seg by (auto simp: tx_ok_def legal_segs_def)
  have hp: "?h \<le> 247"
    using chain_end_le[OF ch tl] .
  have dis: "{?h..<?h + ?n} \<inter> slots fl = {}"
    using chain_room[OF ch tl tot n(2)] .
  have len: "length (txring t) = 256" "length (txring_m t) = 256" "length (txring_m_dmamap t) = 256"
    using ok by (simp_all add: tx_ok_def)
  note facts = tx_post_facts[OF len hp seg refl refl, where m = m]
  have fr: "frame_ok ?p f" if "f \<in> set fl" for f
  proof -
    obtain s n' m' where f: "f = (s, n', m')" by (cases f)
    have sl: "{s..<s + n'} \<subseteq> slots fl" "1 \<le> n'"
      using start_in_slots[OF ch] that f by auto
    have out: "i \<notin> {?h..<?h + ?n}" "i < 256" if "s \<le> i" "i < s + n'" for i
    proof -
      have "i \<in> slots fl" using sl that by auto
      then show "i \<notin> {?h..<?h + ?n}" "i < 256"
        using dis chain_slots_bound[OF ch tl] by (blast, auto)
    qed
    have "frame_ok t f"
      using ok that unfolding tx_ok_def by simp
    then have old: "frame_ok t (s, n', m')"
      by (simp only: f)
    have s: "s < 256" "\<not> (?h \<le> s \<and> s < ?h + ?n)" "s \<noteq> ?h"
      using out[of s] sl n by auto
    have "\<forall>i. s \<le> i \<and> i < s + n' \<longrightarrow> txring ?p ! i = txring t ! i"
    proof (intro allI impI)
      fix i assume "s \<le> i \<and> i < s + n'"
      then have "i < 256" "\<not> (?h \<le> i \<and> i < ?h + ?n)"
        using out[of i] by auto
      then show "txring ?p ! i = txring t ! i"
        using facts(9)[of i] by auto
    qed
    moreover have "txring_m ?p ! s = txring_m t ! s"
      using facts(10)[OF s(1)] s(2,3) by auto
    moreover have "txring_m_dmamap ?p ! s = txring_m_dmamap t ! s"
      using facts(11)[OF s(1)] s(3) by simp
    ultimately show ?thesis
      unfolding f by (rule frame_ok_frame[OF old])
  qed
  have new: "frame_ok ?p (?h, ?n, m)"
    using facts(9-11) seg_desc_bits[OF seg] hp n by (simp add: desc_ok_def)
  have rest: "txring_m ?p ! i = None \<and> \<not> txring_m_dmamap ?p ! i"
    if "i < 256" "i \<notin> fst ` set (fl @ [(?h, ?n, m)])" for i
    using that facts(10,11)[of i] ok by (auto simp: tx_ok_def)
  have free: "bit (td_ctl (txring ?p ! i)) 31" if "i < 256" "i \<notin> slots (fl @ [(?h, ?n, m)])" for i
    using that facts(9)[of i] ok by (auto simp: tx_ok_def)
  have "chain (txring_tl_ptr t) (fl @ [(?h, ?n, m)]) (nxt ?h ?n)"
    using ch n by (auto simp: chain_append)
  with fr new rest free facts(1-6) tl tot n ok show ?thesis
    unfolding tx_ok_def by (simp add: ball_Un)
qed


section \<open>One pass, the device, and the contract\<close>

definition legal_dma :: "dma \<Rightarrow> bool" where
  "legal_dma d \<longleftrightarrow> (\<forall>m segs. dma_load d m = Segs segs \<longrightarrow> legal_segs segs)"

text \<open>The buffer that ends up being loaded, and whether that succeeds.\<close>

definition dma_buf :: "dma \<Rightarrow> nat \<Rightarrow> nat" where
  "dma_buf d m = (if dma_create d m \<and> dma_load d m = EFBIG
     then (case dma_defrag d m of None \<Rightarrow> m | Some m2 \<Rightarrow> m2) else m)"

definition dma_accepts :: "dma \<Rightarrow> nat \<Rightarrow> bool" where
  "dma_accepts d m \<longleftrightarrow> dma_create d m \<and>
     (case dma_load d m of Segs _ \<Rightarrow> True
      | EFBIG \<Rightarrow> (case dma_defrag d m of None \<Rightarrow> False
                | Some m2 \<Rightarrow> (case dma_load d m2 of Segs _ \<Rightarrow> True | _ \<Rightarrow> False))
      | LoadErr \<Rightarrow> False)"

lemma tx_ok_cong:
  "txring t' = txring t \<Longrightarrow> txring_m t' = txring_m t \<Longrightarrow> txring_m_dmamap t' = txring_m_dmamap t \<Longrightarrow>
   txring_hd_ptr t' = txring_hd_ptr t \<Longrightarrow> txring_tl_ptr t' = txring_tl_ptr t \<Longrightarrow>
   txring_queued t' = txring_queued t \<Longrightarrow> tx_ok t' fl = tx_ok t fl"
proof -
  assume eqs: "txring t' = txring t" "txring_m t' = txring_m t" "txring_m_dmamap t' = txring_m_dmamap t"
   "txring_hd_ptr t' = txring_hd_ptr t" "txring_tl_ptr t' = txring_tl_ptr t"
   "txring_queued t' = txring_queued t"
  then have "frame_ok t' = frame_ok t"
    by (auto simp: fun_eq_iff)
  with eqs show ?thesis by (simp add: tx_ok_def)
qed

lemma head_unmapped:
  assumes "tx_ok t fl" "txring_queued t < 240"
  shows "(txring_m_dmamap t)[txring_hd_ptr t := False] = txring_m_dmamap t"
proof -
  let ?h = "txring_hd_ptr t"
  have ch: "chain (txring_tl_ptr t) fl ?h" and tl: "txring_tl_ptr t \<le> 247" and tot: "total fl < 240"
    using assms by (auto simp: tx_ok_def)
  have "?h \<notin> slots fl"
    using chain_room[OF ch tl tot, of 1] by simp
  then have "?h \<notin> fst ` set fl" "?h < 256"
    using starts_subset[OF ch] chain_end_le[OF ch tl] by auto
  then have "\<not> txring_m_dmamap t ! ?h"
    using assms(1) by (simp add: tx_ok_def)
  then show ?thesis
    by (metis (full_types) list_update_id)
qed

lemma post_accept:
  assumes ok: "tx_ok t fl" and room: "txring_queued t < 240" and seg: "legal_segs segs"
    and t1: "t1 = (t\<lparr>txdefrags := c\<rparr>)\<lparr>txring_m_dmamap := (txring_m_dmamap t)[txring_hd_ptr t := True]\<rparr>"
  shows "tx_ok (tx_post segs m t1) (fl @ [(txring_hd_ptr t, length segs, m)])
    \<and> m_freed (tx_post segs m t1) = m_freed t \<and> m_dropped (tx_post segs m t1) = m_dropped t"
proof -
  let ?t = "t\<lparr>txdefrags := c\<rparr>"
  have t1': "t1 = tx_map ?t" by (simp add: t1 tx_map_def)
  have ok': "tx_ok ?t fl"
    using ok by (subst tx_ok_cong[of _ t]) simp_all
  have len: "length (txring ?t) = 256" "length (txring_m ?t) = 256" "length (txring_m_dmamap ?t) = 256"
    and hp: "txring_hd_ptr ?t \<le> 247"
    using ok chain_end_le by (auto simp: tx_ok_def)
  show ?thesis
    unfolding t1'
    using tx_post_ok[OF ok' _ seg, of m] room tx_post_facts(7,8)[OF len hp seg refl refl, where m = m] by simp
qed

lemma enqueue_accept:
  assumes ok: "tx_ok t fl" and room: "txring_queued t < 240" and leg: "legal_dma d"
    and acc: "dma_accepts d m"
  shows "\<exists>t' n. tx_enqueue d m t = (True, t') \<and> tx_ok t' (fl @ [(txring_hd_ptr t, n, dma_buf d m)])
    \<and> m_freed t' = m_freed t \<and> m_dropped t' = m_dropped t"
proof (cases "dma_load d m")
  case (Segs segs)
  have seg: "legal_segs segs" using leg Segs by (simp add: legal_dma_def)
  have "tx_enqueue d m t = (True, tx_post segs m (t\<lparr>txring_m_dmamap := (txring_m_dmamap t)[txring_hd_ptr t := True]\<rparr>))"
    using acc Segs by (simp add: tx_enqueue_def tx_loaded_def dma_accepts_def)
  moreover have "dma_buf d m = m" using Segs by (simp add: dma_buf_def)
  ultimately show ?thesis
    using post_accept[OF ok room seg, where c = "txdefrags t", OF refl] by auto
next
  case EFBIG
  then obtain m2 segs where m2: "dma_defrag d m = Some m2" "dma_load d m2 = Segs segs"
    using acc by (auto simp: dma_accepts_def split: option.splits dma_result.splits)
  have seg: "legal_segs segs" using leg m2 by (simp add: legal_dma_def)
  have "tx_enqueue d m t = (True, tx_post segs m2 ((t\<lparr>txdefrags := txdefrags t + 1\<rparr>)
      \<lparr>txring_m_dmamap := (txring_m_dmamap t)[txring_hd_ptr t := True]\<rparr>))"
    using acc EFBIG m2 by (cases t) (simp add: tx_enqueue_def tx_loaded_def dma_accepts_def)
  moreover have "dma_buf d m = m2" using acc EFBIG m2 by (simp add: dma_buf_def dma_accepts_def)
  ultimately show ?thesis
    using post_accept[OF ok room seg refl] by auto
next
  case LoadErr
  then show ?thesis using acc by (simp add: dma_accepts_def)
qed

lemma enqueue_reject:
  assumes ok: "tx_ok t fl" and room: "txring_queued t < 240" and rej: "\<not> dma_accepts d m"
  shows "\<exists>t'. tx_enqueue d m t = (False, t') \<and> tx_ok t' fl
    \<and> m_freed t' = m_freed t \<and> m_dropped t' = m_dropped t @ [dma_buf d m]
    \<and> txring t' = txring t \<and> txring_queued t' = txring_queued t \<and> txring_m t' = txring_m t
    \<and> txring_tl_ptr t' = txring_tl_ptr t"
proof -
  obtain t' where t': "tx_enqueue d m t = (False, t')" "m_dropped t' = m_dropped t @ [dma_buf d m]"
    "txring t' = txring t" "txring_m t' = txring_m t" "txring_hd_ptr t' = txring_hd_ptr t"
    "txring_tl_ptr t' = txring_tl_ptr t" "txring_queued t' = txring_queued t" "m_freed t' = m_freed t"
    "txring_m_dmamap t' = txring_m_dmamap t \<or>
     txring_m_dmamap t' = (txring_m_dmamap t)[txring_hd_ptr t := False]"
    using rej unfolding tx_enqueue_def tx_loaded_def dma_accepts_def dma_buf_def Let_def
    by (cases "dma_create d m"; cases "dma_load d m"; cases "dma_defrag d m";
        cases "dma_load d (the (dma_defrag d m))") auto
  then have "txring_m_dmamap t' = txring_m_dmamap t"
    using head_unmapped[OF ok room] by auto
  with t' have "tx_ok t' fl"
    using ok by (subst tx_ok_cong[of _ t]) simp_all
  with t' show ?thesis by auto
qed

text \<open>The device reports the end of a frame in the status word of the frame's
  first descriptor, and leaves the length, last and wrap bits alone.\<close>

definition tx_device :: "nat \<times> u32 \<Rightarrow> tx_ring \<Rightarrow> tx_ring" where
  "tx_device h t =
     (let i = fst h; status = snd h AND (CGEM_TXDESC_RETRY_ERR OR CGEM_TXDESC_AHB_ERR OR CGEM_TXDESC_LATE_COLL);
          e = txring t ! i in
      if i < 256 \<and> txring_m t ! i \<noteq> None
      then t\<lparr>txring := (txring t)[i := e\<lparr>td_ctl := td_ctl e OR CGEM_TXDESC_USED OR status\<rparr>]\<rparr>
      else t)"

lemma device_desc:
  assumes "length (txring t) = 256" "i < 256"
  shows "k \<in> {15, 30} \<Longrightarrow> bit (td_ctl (txring (tx_device h t) ! i)) k = bit (td_ctl (txring t ! i)) k"
    and "bit (td_ctl (txring t ! i)) 31 \<Longrightarrow> bit (td_ctl (txring (tx_device h t) ! i)) 31"
  using assms by (cases "i = fst h"; auto simp: tx_device_def Let_def bit_or_iff bit_and_iff)+

lemma device_sel [simp]:
  "txring_m (tx_device h t) = txring_m t" "txring_m_dmamap (tx_device h t) = txring_m_dmamap t"
  "txring_hd_ptr (tx_device h t) = txring_hd_ptr t" "txring_tl_ptr (tx_device h t) = txring_tl_ptr t"
  "txring_queued (tx_device h t) = txring_queued t" "length (txring (tx_device h t)) = length (txring t)"
  "m_freed (tx_device h t) = m_freed t" "m_dropped (tx_device h t) = m_dropped t"
  by (simp_all add: tx_device_def Let_def)

lemma device_ok:
  assumes ok: "tx_ok t fl"
  shows "tx_ok (tx_device h t) fl"
proof -
  have len: "length (txring t) = 256" and ch: "chain (txring_tl_ptr t) fl (txring_hd_ptr t)"
    and tl: "txring_tl_ptr t \<le> 247"
    using ok by (simp_all add: tx_ok_def)
  have "frame_ok (tx_device h t) f" if f: "f \<in> set fl" for f
  proof -
    obtain s n m where x: "f = (s, n, m)" by (cases f)
    have "i < 256" if "s \<le> i" "i < s + n" for i
    proof -
      have "i \<in> slots fl" using start_in_slots[OF ch] f x that by fastforce
      then show ?thesis using chain_slots_bound[OF ch tl] by auto
    qed
    then have same: "bit (td_ctl (txring (tx_device h t) ! (s + j))) k = bit (td_ctl (txring t ! (s + j))) k"
      if "j < n" "k \<in> {15, 30}" for j k
      using device_desc(1)[OF len] that by simp
    have "frame_ok t f" using ok f unfolding tx_ok_def by simp
    then show ?thesis
      by (simp add: x desc_ok_def same)
  qed
  then show ?thesis
    using ok device_desc(2)[OF len] unfolding tx_ok_def by simp
qed


text \<open>The buffers in flight, oldest first: those of the ring in index order
  from the tail on, cyclically.\<close>

definition tx_in_flight :: "tx_ring \<Rightarrow> nat list" where
  "tx_in_flight t = List.map_filter (\<lambda>i. txring_m t ! i) ([txring_tl_ptr t..<256] @ [0..<txring_tl_ptr t])"

lemma map_filter_append: "List.map_filter f (xs @ ys) = List.map_filter f xs @ List.map_filter f ys"
  by (simp add: List.map_filter_def)

lemma map_filter_none: "\<forall>x \<in> set xs. f x = None \<Longrightarrow> List.map_filter f xs = []"
  by (induction xs) (auto simp: List.map_filter_def)

lemma chain_path_distinct:
  "chain p fl q \<Longrightarrow> p \<le> 247 \<Longrightarrow> total fl \<le> 247 \<Longrightarrow> distinct (path fl)"
  using chain_shape[of p fl q] by (auto simp: straight_def wrapped_def)

lemma distinct_path_starts:
  "distinct (path fl) \<Longrightarrow> (s, n, m) \<in> set fl \<Longrightarrow> (s', n', m') \<in> set fl \<Longrightarrow> 1 \<le> n' \<Longrightarrow>
   s < s' \<Longrightarrow> s' < s + n \<Longrightarrow> False"
proof (induction fl)
  case Nil
  then show ?case by simp
next
  case (Cons x fl)
  obtain a b c where x: "x = (a, b, c)" by (cases x)
  have mem: "{s..<s + n} \<subseteq> set (path fl)" if "(s, n, m) \<in> set fl" for s n m
    using that by (induction fl rule: path.induct) auto
  have dis: "{a..<a + b} \<inter> set (path fl) = {}" "distinct (path fl)"
    using Cons.prems(1) x by auto
  show ?case
  proof (cases "(s, n, m) \<in> set fl \<and> (s', n', m') \<in> set fl")
    case True
    then show ?thesis using Cons.IH[OF dis(2)] Cons.prems by blast
  next
    case False
    then consider "x = (s, n, m)" "x = (s', n', m')" | "x = (s, n, m)" "(s', n', m') \<in> set fl"
      | "x = (s', n', m')" "(s, n, m) \<in> set fl"
      using Cons.prems by auto
    then show ?thesis
    proof cases
      case 1
      then show ?thesis using Cons.prems by simp
    next
      case 2
      then have "s' \<in> {a..<a + b}" "s' \<in> set (path fl)"
        using Cons.prems x mem[of s' n' m'] by auto
      then show ?thesis using dis by blast
    next
      case 3
      then have "s' \<in> {a..<a + b}" "s' \<in> set (path fl)"
        using Cons.prems x mem[of s n m] by auto
      then show ?thesis using dis by blast
    qed
  qed
qed

lemma path_bufs:
  "\<forall>f \<in> set fl. case f of (s, n, m) \<Rightarrow> ms ! s = Some m \<and> 1 \<le> n \<and> (\<forall>i. s < i \<and> i < s + n \<longrightarrow> ms ! i = None) \<Longrightarrow>
   List.map_filter (\<lambda>i. ms ! i) (path fl) = map fbuf fl"
proof (induction fl rule: path.induct)
  case 1
  then show ?case by (simp add: List.map_filter_def)
next
  case (2 s n m r)
  have "[s..<s + n] = s # [Suc s..<s + n]"
    using 2(2) by (simp add: upt_conv_Cons)
  moreover have "List.map_filter (\<lambda>i. ms ! i) [Suc s..<s + n] = []"
    using 2(2) by (intro map_filter_none) auto
  moreover have "ms ! s = Some m" using 2(2) by simp
  ultimately have "List.map_filter (\<lambda>i. ms ! i) [s..<s + n] = [m]"
    by (simp add: List.map_filter_def)
  with 2 show ?case by (simp add: map_filter_append)
qed

lemma tx_in_flight_frames:
  assumes ok: "tx_ok t fl"
  shows "tx_in_flight t = map fbuf fl"
proof -
  let ?p = "txring_tl_ptr t" and ?q = "txring_hd_ptr t" and ?f = "\<lambda>i. txring_m t ! i"
  have ch: "chain ?p fl ?q" and tl: "?p \<le> 247" and tot: "total fl \<le> 247"
    using ok by (auto simp: tx_ok_def)
  have none: "?f i = None" if "i < 256" "i \<notin> fst ` set fl" for i
    using ok that by (simp add: tx_ok_def)
  have out: "List.map_filter ?f xs = []" if "set xs \<subseteq> {..<256}" "set xs \<inter> slots fl = {}" for xs
    using that none starts_subset[OF ch] by (intro map_filter_none) blast
  have "case f of (s, n, m) \<Rightarrow> ?f s = Some m \<and> 1 \<le> n \<and> (\<forall>i. s < i \<and> i < s + n \<longrightarrow> ?f i = None)"
    if f: "f \<in> set fl" for f
  proof -
    obtain s n m where x: "f = (s, n, m)" by (cases f)
    have "frame_ok t f" using ok f unfolding tx_ok_def by simp
    then have "?f s = Some m" by (simp add: x)
    moreover have n: "{s..<s + n} \<subseteq> slots fl \<and> 1 \<le> n"
      using start_in_slots[OF ch] f x by blast
    moreover have "?f i = None" if i: "s < i \<and> i < s + n" for i
    proof (rule none)
      have "i \<in> slots fl" using n i by auto
      then show "i < 256" using chain_slots_bound[OF ch tl] by auto
      show "i \<notin> fst ` set fl"
      proof
        assume "i \<in> fst ` set fl"
        then obtain n' m' where g: "(i, n', m') \<in> set fl" by force
        then have "1 \<le> n'" using start_in_slots[OF ch] by blast
        then show False
          using distinct_path_starts[OF chain_path_distinct[OF ch tl tot], of s n m i n' m'] f g i x by blast
      qed
    qed
    ultimately show ?thesis by (simp add: x)
  qed
  then have bufs: "List.map_filter ?f (path fl) = map fbuf fl"
    by (intro path_bufs) blast
  from chain_shape[OF ch tl tot] show ?thesis
  proof
    assume st: "straight ?p fl ?q"
    then have "?p \<le> ?q" "?q \<le> 256" "path fl = [?p..<?q]"
      using tot chain_end_le[OF ch tl] by (auto simp: straight_def)
    moreover from this have "[?p..<256] = path fl @ [?q..<256]"
      by (simp add: upt_join)
    moreover have "List.map_filter ?f [?q..<256] = []" "List.map_filter ?f [0..<?p] = []"
      using tl straight_slots[OF st] by (intro out; auto)+
    ultimately show ?thesis
      using bufs by (simp add: tx_in_flight_def map_filter_append)
  next
    assume "wrapped ?p fl ?q"
    then obtain l where l: "248 \<le> l" "l \<le> 255" "?p \<le> l" "?p + total fl = l + ?q"
      "path fl = [?p..<l] @ [0..<?q]"
      by (auto simp: wrapped_def)
    have sl: "slots fl = {?p..<l} \<union> {0..<?q}"
      using l(5) by (simp flip: set_path)
    have "[?p..<256] = [?p..<l] @ [l..<256]"
      using l by (simp add: upt_join)
    moreover have "[0..<?p] = [0..<?q] @ [?q..<?p]"
      using l tot by (simp add: upt_join)
    moreover have "List.map_filter ?f [l..<256] = []" "List.map_filter ?f [?q..<?p] = []"
      using l tot tl by (intro out; auto simp: sl)+
    ultimately show ?thesis
      using bufs l(5) by (simp add: tx_in_flight_def map_filter_append)
  qed
qed


lemma clean_tx_ok:
  assumes ok: "tx_ok t fl"
  shows "\<exists>t'. cgem_clean_tx t = Some t' \<and> tx_ok t' (dropWhile (tx_done t) fl)
     \<and> m_freed t' = m_freed t @ map fbuf (takeWhile (tx_done t) fl)
     \<and> m_dropped t' = m_dropped t
     \<and> opackets t' = opackets t + length (filter (tx_good t) (takeWhile (tx_done t) fl))
     \<and> txring_hd_ptr t' = txring_hd_ptr t"
proof -
  have "length fl \<le> total fl" if "chain p fl q" for p q
    using that by (induction p fl q rule: chain.induct) auto
  then have "length fl \<le> 256"
    using ok by (fastforce simp: tx_ok_def)
  from clean_all[OF ok this] show ?thesis
    by (simp add: cgem_clean_tx_def ring_consts)
qed

definition tx_valid :: "tx_ring \<Rightarrow> bool" where
  "tx_valid t \<longleftrightarrow> (\<exists>fl. tx_ok t fl)"

definition tx_room :: "tx_ring \<Rightarrow> bool" where
  "tx_room t \<longleftrightarrow> txring_queued t < 240"

definition tx_push :: "(u32 \<times> u32) list \<times> nat \<Rightarrow> tx_ring \<Rightarrow> tx_ring" where
  "tx_push p t = tx_post (fst p) (snd p)
     (t\<lparr>txring_m_dmamap := (txring_m_dmamap t)[txring_hd_ptr t := True]\<rparr>)"

text \<open>The transmit ring meets the contract of a descriptor ring, with the
  driver's posting and reclaiming code as its operations.\<close>

interpretation txq: descriptor_ring tx_valid tx_room tx_push cgem_clean_tx tx_device
  "\<lambda>p. legal_segs (fst p)" tx_in_flight m_freed snd
proof unfold_locales
  fix t :: tx_ring and p :: "(u32 \<times> u32) list \<times> nat"
  assume v: "tx_valid t" and r: "tx_room t" and leg: "legal_segs (fst p)"
  from v obtain fl where ok: "tx_ok t fl" by (auto simp: tx_valid_def)
  from post_accept[OF ok _ leg, where c = "txdefrags t" and m = "snd p", OF _ refl] r
  have "tx_ok (tx_push p t) (fl @ [(txring_hd_ptr t, length (fst p), snd p)])
      \<and> m_freed (tx_push p t) = m_freed t"
    by (simp add: tx_push_def tx_room_def)
  then show "tx_valid (tx_push p t) \<and> tx_in_flight (tx_push p t) = tx_in_flight t @ [snd p]
      \<and> m_freed (tx_push p t) = m_freed t"
    using tx_in_flight_frames[OF ok] tx_in_flight_frames[of "tx_push p t"]
    by (auto simp: tx_valid_def)
next
  fix t assume "tx_valid t"
  then obtain fl where ok: "tx_ok t fl" by (auto simp: tx_valid_def)
  from clean_tx_ok[OF ok] obtain t' where t': "cgem_clean_tx t = Some t'"
    "tx_ok t' (dropWhile (tx_done t) fl)" "m_freed t' = m_freed t @ map fbuf (takeWhile (tx_done t) fl)"
    by blast
  let ?n = "length (takeWhile (tx_done t) fl)"
  have "map fbuf (dropWhile (tx_done t) fl) = drop ?n (map fbuf fl)"
    by (subst dropWhile_eq_drop) (rule drop_map[symmetric])
  moreover have "map fbuf (takeWhile (tx_done t) fl) = take ?n (map fbuf fl)"
    by (subst takeWhile_eq_take) (rule take_map[symmetric])
  ultimately show "\<exists>s' n. cgem_clean_tx t = Some s' \<and> tx_valid s' \<and>
      tx_in_flight s' = drop n (tx_in_flight t) \<and> m_freed s' = m_freed t @ take n (tx_in_flight t)"
    using t' tx_in_flight_frames[OF ok] tx_in_flight_frames[OF t'(2)] unfolding tx_valid_def
    by (intro exI[of _ t'] exI[of _ ?n]) auto
next
  fix t h assume "tx_valid t"
  then obtain fl where "tx_ok t fl" by (auto simp: tx_valid_def)
  from device_ok[OF this, of h] show "tx_valid (tx_device h t) \<and> tx_in_flight (tx_device h t) = tx_in_flight t \<and>
      m_freed (tx_device h t) = m_freed t"
    by (auto simp: tx_valid_def tx_in_flight_def)
qed

section \<open>The transmit loop\<close>

lemma make_room_ok:
  assumes ok: "tx_ok t fl"
  shows "\<exists>room t' k. tx_make_room t = Some (room, t') \<and> tx_ok t' (drop k fl)
    \<and> m_freed t' = m_freed t @ map fbuf (take k fl) \<and> m_dropped t' = m_dropped t
    \<and> (room \<longrightarrow> txring_queued t' < 240) \<and> (\<not> room \<longrightarrow> oactive t' \<and> 240 \<le> txring_queued t')"
proof (cases "txring_queued t < 240")
  case True
  then show ?thesis
    using ok by (intro exI[of _ True] exI[of _ t] exI[of _ 0])
      (simp add: tx_make_room_def ring_consts)
next
  case False
  from clean_tx_ok[OF ok] obtain t' where t': "cgem_clean_tx t = Some t'"
    "tx_ok t' (dropWhile (tx_done t) fl)" "m_freed t' = m_freed t @ map fbuf (takeWhile (tx_done t) fl)"
    "m_dropped t' = m_dropped t" by blast
  let ?k = "length (takeWhile (tx_done t) fl)"
  have k: "dropWhile (tx_done t) fl = drop ?k fl" "takeWhile (tx_done t) fl = take ?k fl"
    by (rule dropWhile_eq_drop, rule takeWhile_eq_take)
  let ?f = "t'\<lparr>oactive := True, txfull := txfull t' + 1\<rparr>"
  have "tx_ok ?f (drop ?k fl)"
    using t'(2) k(1) by (subst tx_ok_cong[of _ t']) simp_all
  then show ?thesis
    using False t' k
    by (intro exI[of _ "txring_queued t' < 240"] exI[of _ "if txring_queued t' < 240 then t' else ?f"]
        exI[of _ ?k]) (simp add: tx_make_room_def ring_consts)
qed

definition tx_history :: "tx_ring \<Rightarrow> nat list" where
  "tx_history t = m_freed t @ tx_in_flight t"

lemma start_loop_ok:
  assumes leg: "legal_dma d"
  shows "tx_ok t fl \<Longrightarrow> \<exists>t' mac' tk rest fl'. start_loop d shadow q (t, mac) = Some (t', mac', rest)
     \<and> q = tk @ rest \<and> tx_ok t' fl'
     \<and> tx_history t' = tx_history t @ map (dma_buf d) (filter (dma_accepts d) tk)
     \<and> m_dropped t' = m_dropped t @ map (dma_buf d) (filter (\<lambda>m. \<not> dma_accepts d m) tk)
     \<and> (rest \<noteq> [] \<longrightarrow> oactive t' \<and> 240 \<le> txring_queued t')"
proof (induction q arbitrary: t fl mac)
  case Nil
  from make_room_ok[OF Nil] obtain room t' k where r: "tx_make_room t = Some (room, t')"
    "tx_ok t' (drop k fl)" "m_freed t' = m_freed t @ map fbuf (take k fl)" "m_dropped t' = m_dropped t"
    by blast
  have "tx_history t' = tx_history t"
    using tx_in_flight_frames[OF Nil] tx_in_flight_frames[OF r(2)] r(3)
    by (simp add: tx_history_def flip: map_append)
  then show ?case
    using r by (intro exI[of _ t'] exI[of _ mac] exI[of _ "[]"] exI[of _ "drop k fl"]) simp
next
  case (Cons m q)
  from make_room_ok[OF Cons.prems] obtain room t1 k where r: "tx_make_room t = Some (room, t1)"
    "tx_ok t1 (drop k fl)" "m_freed t1 = m_freed t @ map fbuf (take k fl)" "m_dropped t1 = m_dropped t"
    "room \<longrightarrow> txring_queued t1 < 240" "\<not> room \<longrightarrow> oactive t1 \<and> 240 \<le> txring_queued t1"
    by blast
  have h1: "tx_history t1 = tx_history t"
    using tx_in_flight_frames[OF Cons.prems] tx_in_flight_frames[OF r(2)] r(3)
    by (simp add: tx_history_def flip: map_append)
  show ?case
  proof (cases room)
    case False
    then show ?thesis
      using r h1 by (intro exI[of _ t1] exI[of _ mac] exI[of _ "[]"] exI[of _ "m # q"] exI[of _ "drop k fl"]) simp
  next
    case True
    then have q1: "txring_queued t1 < 240" using r(5) by simp
    obtain posted t2 fl2 where e: "tx_enqueue d m t1 = (posted, t2)" "tx_ok t2 fl2"
      "tx_history t2 = tx_history t1 @ (if dma_accepts d m then [dma_buf d m] else [])"
      "m_dropped t2 = m_dropped t1 @ (if dma_accepts d m then [] else [dma_buf d m])"
    proof (cases "dma_accepts d m")
      case True
      from enqueue_accept[OF r(2) q1 leg True] obtain t' n where
        e: "tx_enqueue d m t1 = (True, t')" "tx_ok t' (drop k fl @ [(txring_hd_ptr t1, n, dma_buf d m)])"
        "m_freed t' = m_freed t1" "m_dropped t' = m_dropped t1" by blast
      show ?thesis
        using True e tx_in_flight_frames[OF e(2)] tx_in_flight_frames[OF r(2)]
        by (intro that[OF e(1,2)]) (simp_all add: tx_history_def)
    next
      case False
      from enqueue_reject[OF r(2) q1 False] obtain t' where
        e: "tx_enqueue d m t1 = (False, t')" "tx_ok t' (drop k fl)"
        "m_freed t' = m_freed t1" "m_dropped t' = m_dropped t1 @ [dma_buf d m]" by blast
      show ?thesis
        using False e tx_in_flight_frames[OF e(2)] tx_in_flight_frames[OF r(2)]
        by (intro that[OF e(1,2)]) (simp_all add: tx_history_def)
    qed
    from Cons.IH[OF e(2), of "if posted then tx_kick shadow mac else mac"]
    obtain t' mac' tk rest fl' where i: "start_loop d shadow q (t2, if posted then tx_kick shadow mac else mac) = Some (t', mac', rest)"
      "q = tk @ rest" "tx_ok t' fl'"
      "tx_history t' = tx_history t2 @ map (dma_buf d) (filter (dma_accepts d) tk)"
      "m_dropped t' = m_dropped t2 @ map (dma_buf d) (filter (\<lambda>m. \<not> dma_accepts d m) tk)"
      "rest \<noteq> [] \<longrightarrow> oactive t' \<and> 240 \<le> txring_queued t'" by blast
    then show ?thesis
      using True r e h1
      by (intro exI[of _ t'] exI[of _ mac'] exI[of _ "m # tk"] exI[of _ rest] exI[of _ fl']) auto
  qed
qed


section \<open>Properties\<close>

definition sample_dma :: dma where
  "sample_dma = \<lparr>dma_create = (\<lambda>m. m \<noteq> 3), dma_load = (\<lambda>m. if m = 2 then EFBIG
     else Segs [(0x1000, 64), (0x2000, 1500)]), dma_defrag = (\<lambda>m. Some (m + 10))\<rparr>"

definition empty_ring :: tx_ring where
  "empty_ring = tx_ring_init \<lparr>txring = [], txring_m = [], txring_m_dmamap = [], txring_hd_ptr = 0,
     txring_tl_ptr = 0, txring_queued = 0, txfull = 0, txdefrags = 0, txdefragfails = 0,
     txdmamapfails = 0, oactive = False, opackets = 0, oerrors = 0, m_freed = [], m_dropped = []\<rparr>"

lemma ring_init_ok: "tx_ok (tx_ring_init t) []"
  by (auto simp: tx_ok_def tx_ring_init_def nth_list_update bit_or_iff)

lemma sample_dma_legal: "legal_dma sample_dma"
  by (auto simp: legal_dma_def sample_dma_def legal_segs_def split: if_splits)

text \<open>The freshly set up ring, and the ring the stop handler leaves, are
  well formed and empty with every descriptor owned by the driver.\<close>

theorem tx_init_valid:
  "tx_ok (tx_ring_init t) [] \<and> tx_in_flight (tx_ring_init t) = []
     \<and> (\<forall>i < 256. bit (td_ctl (txring (tx_ring_init t) ! i)) 31)"
  using ring_init_ok[of t] tx_in_flight_frames[OF ring_init_ok[of t]] by (simp add: tx_ok_def)

theorem tx_init_valid_witness: "tx_ok empty_ring []"
  using tx_init_valid by (simp add: empty_ring_def)



text \<open>C5: Reclaiming. cgem_clean_tx, with the fuel of one ring size, always
  ends inside the ring; it frees exactly the finished frames at the tail, in
  the order they were queued and stopping at the first unfinished one, counts
  a packet for each of them without an error bit, and leaves every descriptor
  outside the frames still in flight marked used, so the device stops at the
  driver's head.\<close>

theorem clean_tx_reclaims:
  assumes "tx_ok t fl"
  shows "\<exists>t'. cgem_clean_tx t = Some t' \<and> tx_ok t' (dropWhile (tx_done t) fl)
     \<and> m_freed t' = m_freed t @ map fbuf (takeWhile (tx_done t) fl)
     \<and> opackets t' = opackets t + length (filter (tx_good t) (takeWhile (tx_done t) fl))
     \<and> (\<forall>i < 256. i \<notin> slots (dropWhile (tx_done t) fl) \<longrightarrow> bit (td_ctl (txring t' ! i)) 31)"
  using clean_tx_ok[OF assms] by (auto simp: tx_ok_def)

theorem clean_tx_reclaims_witness:
  "\<exists>t'. cgem_clean_tx empty_ring = Some t' \<and> m_freed t' = m_freed empty_ring @ []"
  using clean_tx_reclaims[of empty_ring "[]"] ring_init_ok unfolding empty_ring_def by auto



end
