(* ===== verification/EthRx.thy ===== *)
theory EthRx
  imports Prelude
begin

text \<open>
  The receive side of the GEM Ethernet driver (rp1_eth.c): the descriptor ring,
  cgem_fill_rqueue and cgem_recv. With at most 256 buffers configured the ring
  meets the contract of a descriptor ring; a larger setting, which the sysctl
  accepts, makes the fill loop overwrite buffers the device still owns.
\<close>

section \<open>State\<close>

record rx_desc =
  rd_addr :: u32
  rd_ctl :: u32

record rx_ring =
  rxring :: "rx_desc list"
  rxring_m :: "nat option list"
  rxring_m_dmamap :: "bool list"
  rxring_hd_ptr :: nat
  rxring_tl_ptr :: nat
  rxring_queued :: nat
  rxbufs :: int
  rxdmamapfails :: nat

definition RP1ETH_NUM_RX_DESCS :: nat where "RP1ETH_NUM_RX_DESCS = 256"
definition RP1ETH_DEFAULT_RXBUFS :: int where "RP1ETH_DEFAULT_RXBUFS = 128"
definition CGEM_RXDESC_OWN :: u32 where "CGEM_RXDESC_OWN = push_bit 0 1"
definition CGEM_RXDESC_WRAP :: u32 where "CGEM_RXDESC_WRAP = push_bit 1 1"
definition CGEM_RXDESC_BAD_FCS :: u32 where "CGEM_RXDESC_BAD_FCS = push_bit 13 1"
definition CGEM_RXDESC_SOF :: u32 where "CGEM_RXDESC_SOF = push_bit 14 1"
definition CGEM_RXDESC_EOF :: u32 where "CGEM_RXDESC_EOF = push_bit 15 1"
definition CGEM_RXDESC_LENGTH_MASK :: u32 where "CGEM_RXDESC_LENGTH_MASK = 0x1fff"
definition CGEM_RXDESC_CKSUM_STAT_MASK :: u32 where "CGEM_RXDESC_CKSUM_STAT_MASK = push_bit 22 3"

text \<open>What the allocator and the busdma calls answer on one pass of the fill
  loop.\<close>

datatype rx_supply = NoMbuf | CreateFail | LoadFail | Buf nat u32

text \<open>A frame handed to the stack: its buffer, the offset of its data, its
  length, and what the hardware checked.\<close>

datatype csum = NoCsum | IpCsum | L4Csum

record rx_frame =
  rf_m :: nat
  rf_off :: nat
  rf_len :: nat
  rf_csum :: csum

section \<open>Operations\<close>

definition rx_ring_init :: "rx_ring \<Rightarrow> rx_ring" where
  "rx_ring_init r =
     r\<lparr>rxring := (replicate 256 \<lparr>rd_addr = CGEM_RXDESC_OWN, rd_ctl = 0\<rparr>)
         [255 := \<lparr>rd_addr = CGEM_RXDESC_OWN OR CGEM_RXDESC_WRAP, rd_ctl = 0\<rparr>],
       rxring_m := replicate 256 None, rxring_m_dmamap := replicate 256 False,
       rxring_hd_ptr := 0, rxring_tl_ptr := 0, rxring_queued := 0\<rparr>"

definition rx_post :: "nat \<Rightarrow> u32 \<Rightarrow> rx_ring \<Rightarrow> rx_ring" where
  "rx_post m addr r =
     (let hp = rxring_hd_ptr r in
      r\<lparr>rxring_m := (rxring_m r)[hp := Some m],
        rxring_m_dmamap := (rxring_m_dmamap r)[hp := True],
        rxring := (rxring r)[hp := \<lparr>rd_addr = (if hp = RP1ETH_NUM_RX_DESCS - 1
            then addr OR CGEM_RXDESC_WRAP else addr), rd_ctl = 0\<rparr>],
        rxring_hd_ptr := (if hp = RP1ETH_NUM_RX_DESCS - 1 then 0 else hp + 1),
        rxring_queued := rxring_queued r + 1\<rparr>)"

fun cgem_fill_rqueue :: "rx_supply list \<Rightarrow> rx_ring \<Rightarrow> rx_ring \<times> rx_supply list" where
  "cgem_fill_rqueue [] r = (r, [])"
| "cgem_fill_rqueue (x # xs) r =
     (if \<not> int (rxring_queued r) < rxbufs r then (r, x # xs)
      else case x of
        NoMbuf \<Rightarrow> (r, xs)
      | CreateFail \<Rightarrow> (r\<lparr>rxdmamapfails := rxdmamapfails r + 1\<rparr>, xs)
      | LoadFail \<Rightarrow> (r\<lparr>rxdmamapfails := rxdmamapfails r + 1,
                       rxring_m_dmamap := (rxring_m_dmamap r)[rxring_hd_ptr r := False]\<rparr>, xs)
      | Buf m addr \<Rightarrow> cgem_fill_rqueue xs (rx_post m addr r))"

definition rx_own :: "rx_ring \<Rightarrow> bool" where
  "rx_own r \<longleftrightarrow> rd_addr (rxring r ! rxring_tl_ptr r) AND CGEM_RXDESC_OWN \<noteq> 0"

text \<open>The descriptor loop of the receive path: the buffer and the control word
  of each finished descriptor, with the fuel of the queue length.\<close>

definition rx_take :: "rx_ring \<Rightarrow> rx_ring" where
  "rx_take r =
     (let tl = rxring_tl_ptr r in
      r\<lparr>rxring_m := (rxring_m r)[tl := None], rxring_m_dmamap := (rxring_m_dmamap r)[tl := False],
        rxring_tl_ptr := (if tl + 1 = RP1ETH_NUM_RX_DESCS then 0 else tl + 1),
        rxring_queued := rxring_queued r - 1\<rparr>)"

fun recv_loop :: "nat \<Rightarrow> rx_ring \<Rightarrow> rx_ring \<times> (nat option \<times> u32) list" where
  "recv_loop 0 r = (r, [])"
| "recv_loop (Suc k) r =
     (if 0 < rxring_queued r \<and> rx_own r
      then let tl = rxring_tl_ptr r;
               (r', out) = recv_loop k (rx_take r)
           in (r', (rxring_m r ! tl, rd_ctl (rxring r ! tl)) # out)
      else (r, []))"

text \<open>The verdict on one finished descriptor: None is an input error and the
  buffer is freed.\<close>

definition rx_csum :: "bool \<Rightarrow> u32 \<Rightarrow> csum" where
  "rx_csum rxcsum ctl =
     (if \<not> rxcsum then NoCsum
      else let st = ctl AND CGEM_RXDESC_CKSUM_STAT_MASK in
        if st = push_bit 22 2 \<or> st = push_bit 22 3 then L4Csum
        else if st = push_bit 22 1 then IpCsum else NoCsum)"

definition rx_frame_of :: "bool \<Rightarrow> nat option \<times> u32 \<Rightarrow> rx_frame option" where
  "rx_frame_of rxcsum d =
     (let ctl = snd d in
      if ctl AND CGEM_RXDESC_BAD_FCS \<noteq> 0
         \<or> ctl AND (CGEM_RXDESC_SOF OR CGEM_RXDESC_EOF) \<noteq> CGEM_RXDESC_SOF OR CGEM_RXDESC_EOF
      then None
      else Some \<lparr>rf_m = the (fst d), rf_off = 2, rf_len = unat (ctl AND CGEM_RXDESC_LENGTH_MASK),
                 rf_csum = rx_csum rxcsum ctl\<rparr>)"

text \<open>The whole receive: the ring after refilling, the frames given to the
  stack in order, the number of input errors, and the supply left.\<close>

definition cgem_recv :: "bool \<Rightarrow> rx_supply list \<Rightarrow> rx_ring
    \<Rightarrow> rx_ring \<times> rx_frame list \<times> nat \<times> rx_supply list" where
  "cgem_recv rxcsum supply r =
     (let (r1, out) = recv_loop (rxring_queued r) r;
          (r2, rest) = cgem_fill_rqueue supply r1
      in (r2, List.map_filter (rx_frame_of rxcsum) out,
          length (filter (\<lambda>d. rx_frame_of rxcsum d = None) out), rest))"

section \<open>The ring invariant\<close>

abbreviation slot :: "rx_ring \<Rightarrow> nat \<Rightarrow> nat" where
  "slot r i \<equiv> (rxring_tl_ptr r + i) mod 256"

definition rx_ok :: "rx_ring \<Rightarrow> nat list \<Rightarrow> bool" where
  "rx_ok r bs \<longleftrightarrow>
     length (rxring r) = 256 \<and> length (rxring_m r) = 256 \<and> length (rxring_m_dmamap r) = 256
   \<and> rxring_tl_ptr r < 256 \<and> rxring_queued r = length bs \<and> length bs \<le> 256
   \<and> rxring_hd_ptr r = slot r (length bs)
   \<and> (\<forall>i < length bs. rxring_m r ! slot r i = Some (bs ! i) \<and> rxring_m_dmamap r ! slot r i)
   \<and> (\<forall>i. length bs \<le> i \<and> i < 256 \<longrightarrow> rxring_m r ! slot r i = None
        \<and> \<not> rxring_m_dmamap r ! slot r i \<and> bit (rd_addr (rxring r ! slot r i)) 0)
   \<and> (\<forall>i < 256. bit (rd_addr (rxring r ! i)) 1 \<longleftrightarrow> i = 255)"

lemma slot_value:
  "p < 256 \<Longrightarrow> i < 256 \<Longrightarrow> (p + i) mod 256 = (if p + i < 256 then p + i else p + i - 256 :: nat)"
  by (simp add: mod_if)

lemma slot_inj:
  "p < 256 \<Longrightarrow> i < 256 \<Longrightarrow> j < 256 \<Longrightarrow> (p + i) mod 256 = (p + j) mod (256 :: nat) \<Longrightarrow> i = j"
  by (simp add: slot_value split: if_splits)

lemma slot_next: "(if p = 255 then 0 else p + 1) = (p + 1) mod (256 :: nat)" if "p < 256"
  using that by (cases "p = 255") simp_all

lemma slot_shift: "((p + 1) mod 256 + i) mod (256 :: nat) = (p + Suc i) mod 256"
  by (simp add: mod_simps)

lemma rx_flags [simp]:
  "x AND CGEM_RXDESC_OWN = 0 \<longleftrightarrow> \<not> bit x 0"
  "bit CGEM_RXDESC_OWN k \<longleftrightarrow> k = 0" "bit CGEM_RXDESC_WRAP k \<longleftrightarrow> k = 1"
  by (rule and_flag; simp add: CGEM_RXDESC_OWN_def)
     (simp_all add: flag_bit[OF CGEM_RXDESC_OWN_def] flag_bit[OF CGEM_RXDESC_WRAP_def])

lemma rx_init_ok: "rx_ok (rx_ring_init r) []"
  by (auto simp: rx_ok_def rx_ring_init_def nth_list_update bit_or_iff)

text \<open>A buffer address that keeps the two flag bits of its word clear.\<close>

definition addr_ok :: "u32 \<Rightarrow> bool" where
  "addr_ok a \<longleftrightarrow> \<not> bit a 0 \<and> \<not> bit a 1"

lemma rx_post_ok:
  assumes ok: "rx_ok r bs" and room: "length bs < 256" and a: "addr_ok a"
  shows "rx_ok (rx_post m a r) (bs @ [m])"
proof -
  let ?n = "length bs"
  have hp: "rxring_hd_ptr r = slot r ?n" "slot r ?n < 256"
    using ok by (simp_all add: rx_ok_def)
  have nxt: "(if slot r ?n = 255 then 0 else slot r ?n + 1) = slot r (Suc ?n)"
    using slot_next[OF hp(2)] by (simp add: mod_simps)
  have other: "slot r i \<noteq> slot r ?n" if "i < 256" "i \<noteq> ?n" for i
    using slot_inj[OF _ that(1) room] that(2) ok unfolding rx_ok_def by blast
  have m: "rxring_m (rx_post m a r) ! slot r i = (if i = ?n then Some m else rxring_m r ! slot r i)"
    "rxring_m_dmamap (rx_post m a r) ! slot r i = (if i = ?n then True else rxring_m_dmamap r ! slot r i)"
    "i \<noteq> ?n \<Longrightarrow> rxring (rx_post m a r) ! slot r i = rxring r ! slot r i"
    if "i < 256" for i
    using ok other[OF that] hp by (auto simp: rx_post_def Let_def rx_ok_def nth_list_update)
  have w: "bit (rd_addr (rxring (rx_post m a r) ! i)) 1 \<longleftrightarrow> i = 255" if "i < 256" for i
    using ok a that hp by (cases "i = slot r ?n")
      (auto simp: rx_post_def Let_def rx_ok_def RP1ETH_NUM_RX_DESCS_def addr_ok_def bit_or_iff)
  have sel: "rxring_tl_ptr (rx_post m a r) = rxring_tl_ptr r"
    "rxring_queued (rx_post m a r) = rxring_queued r + 1"
    "rxring_hd_ptr (rx_post m a r) = slot r (Suc ?n)"
    "length (rxring (rx_post m a r)) = length (rxring r)"
    "length (rxring_m (rx_post m a r)) = length (rxring_m r)"
    "length (rxring_m_dmamap (rx_post m a r)) = length (rxring_m_dmamap r)"
    using hp nxt by (simp_all add: rx_post_def Let_def RP1ETH_NUM_RX_DESCS_def)
  show ?thesis
    using ok room m w unfolding rx_ok_def sel by (auto simp: nth_append less_Suc_eq)
qed


lemma rx_take_ok:
  assumes ok: "rx_ok r (b # bs)" and own: "rx_own r"
  shows "rx_ok (rx_take r) bs" "rxring_m r ! rxring_tl_ptr r = Some b"
proof -
  let ?t = "rx_take r" and ?p = "rxring_tl_ptr r"
  have p: "?p < 256" and n: "length bs < 256"
    using ok by (simp_all add: rx_ok_def)
  have head: "rxring_m r ! slot r 0 = Some b" and len: "length (rxring_m r) = 256"
    "length (rxring_m_dmamap r) = 256"
    using ok by (auto simp: rx_ok_def)
  then show "rxring_m r ! ?p = Some b" using p by simp
  have tl: "rxring_tl_ptr ?t = (?p + 1) mod 256"
    using slot_next[OF p] by (simp add: rx_take_def Let_def RP1ETH_NUM_RX_DESCS_def)
  have sl: "slot ?t i = slot r (Suc i)" for i
    unfolding tl by (rule slot_shift)
  have last: "slot r 256 = ?p" using p by simp
  have ne: "slot r (Suc i) \<noteq> ?p" if "Suc i < 256" for i
    using slot_inj[OF p that, of 0] p by auto
  have lt: "slot r i < 256" for i by simp
  have m: "rxring_m ?t ! slot r (Suc i) = (if Suc i = 256 then None else rxring_m r ! slot r (Suc i))"
    "rxring_m_dmamap ?t ! slot r (Suc i) = (if Suc i = 256 then False else rxring_m_dmamap r ! slot r (Suc i))"
    if "Suc i \<le> 256" for i
    using ne[of i] that last p len by (auto simp: rx_take_def Let_def)
  have o: "bit (rd_addr (rxring r ! ?p)) 0"
    using own by (simp add: rx_own_def)
  have sel: "rxring ?t = rxring r" "rxring_queued ?t = rxring_queued r - 1"
    "rxring_hd_ptr ?t = rxring_hd_ptr r" "length (rxring_m ?t) = length (rxring_m r)"
    "length (rxring_m_dmamap ?t) = length (rxring_m_dmamap r)"
    by (simp_all add: rx_take_def Let_def)
  have full: "rxring_m ?t ! slot ?t i = Some (bs ! i) \<and> rxring_m_dmamap ?t ! slot ?t i"
    if i: "i < length bs" for i
  proof -
    have "\<forall>j < length (b # bs). rxring_m r ! slot r j = Some ((b # bs) ! j) \<and> rxring_m_dmamap r ! slot r j"
      using ok unfolding rx_ok_def by blast
    from this[rule_format, of "Suc i"] show ?thesis
      using m[of i] i n by (simp add: sl)
  qed
  have free: "rxring_m ?t ! slot ?t i = None \<and> \<not> rxring_m_dmamap ?t ! slot ?t i
      \<and> bit (rd_addr (rxring ?t ! slot ?t i)) 0" if i: "length bs \<le> i" "i < 256" for i
  proof (cases "i = 255")
    case True
    then show ?thesis using m[of 255] o last by (simp add: sl sel)
  next
    case False
    have "\<forall>j. length (b # bs) \<le> j \<and> j < 256 \<longrightarrow> rxring_m r ! slot r j = None
        \<and> \<not> rxring_m_dmamap r ! slot r j \<and> bit (rd_addr (rxring r ! slot r j)) 0"
      using ok unfolding rx_ok_def by blast
    from this[rule_format, of "Suc i"] show ?thesis
      using m[of i] i False by (simp add: sl sel)
  qed
  have "rxring_hd_ptr ?t = slot ?t (length bs)"
    using ok by (simp add: sl sel rx_ok_def)
  with full free ok tl show "rx_ok ?t bs"
    unfolding rx_ok_def[of ?t] sel by (simp add: rx_ok_def)
qed

lemma recv_loop_ok:
  "rx_ok r bs \<Longrightarrow> \<exists>r' out k. recv_loop (length bs) r = (r', out) \<and> rx_ok r' (drop k bs)
     \<and> map fst out = map Some (take k bs) \<and> k \<le> length bs
     \<and> (k < length bs \<longrightarrow> \<not> rx_own r') \<and> rxbufs r' = rxbufs r"
proof (induction bs arbitrary: r)
  case Nil
  then show ?case by auto
next
  case (Cons b bs)
  show ?case
  proof (cases "rx_own r")
    case False
    then show ?thesis
      using Cons.prems by (intro exI[of _ r] exI[of _ "[]"] exI[of _ 0]) simp
  next
    case True
    note tk = rx_take_ok[OF Cons.prems True]
    from Cons.IH[OF tk(1)] obtain r' out k where i: "recv_loop (length bs) (rx_take r) = (r', out)"
      "rx_ok r' (drop k bs)" "map fst out = map Some (take k bs)" "k \<le> length bs"
      "k < length bs \<longrightarrow> \<not> rx_own r'" "rxbufs r' = rxbufs (rx_take r)" by blast
    have "0 < rxring_queued r" using Cons.prems by (simp add: rx_ok_def)
    then show ?thesis
      using i tk(2) True
      by (intro exI[of _ r'] exI[of _ "(rxring_m r ! rxring_tl_ptr r, rd_ctl (rxring r ! rxring_tl_ptr r)) # out"]
          exI[of _ "Suc k"]) (simp add: Let_def, simp add: rx_take_def Let_def)
  qed
qed

lemma rx_ok_queued: "rx_ok r bs \<Longrightarrow> rxring_queued r = length bs"
  by (simp add: rx_ok_def)

lemma rx_head_unmapped:
  assumes "rx_ok r bs" "length bs < 256"
  shows "(rxring_m_dmamap r)[rxring_hd_ptr r := False] = rxring_m_dmamap r"
proof -
  have "\<not> rxring_m_dmamap r ! rxring_hd_ptr r"
    using assms by (simp add: rx_ok_def)
  then show ?thesis by (metis (full_types) list_update_id)
qed

lemma rx_ok_count [simp]: "rx_ok (r\<lparr>rxdmamapfails := c\<rparr>) bs = rx_ok r bs"
  by (simp add: rx_ok_def)

definition supply_ok :: "rx_supply list \<Rightarrow> bool" where
  "supply_ok xs \<longleftrightarrow> (\<forall>m a. Buf m a \<in> set xs \<longrightarrow> addr_ok a)"

lemma fill_ok:
  "rx_ok r bs \<Longrightarrow> rxbufs r \<le> 256 \<Longrightarrow> supply_ok xs \<Longrightarrow>
   \<exists>r' rest ms. cgem_fill_rqueue xs r = (r', rest) \<and> rx_ok r' (bs @ ms) \<and> rxbufs r' = rxbufs r
     \<and> (\<exists>us as. xs = us @ rest \<and> take (length ms) us = map2 Buf ms as \<and> length as = length ms)"
proof (induction xs arbitrary: r bs)
  case Nil
  then show ?case by (intro exI[of _ r] exI[of _ "[]"]) simp
next
  case (Cons x xs)
  show ?case
  proof (cases "int (rxring_queued r) < rxbufs r")
    case False
    then show ?thesis
      using Cons.prems by (intro exI[of _ r] exI[of _ "x # xs"] exI[of _ "[]"]) simp
  next
    case True
    then have room: "length bs < 256"
      using Cons.prems by (simp add: rx_ok_queued)
    show ?thesis
    proof (cases x)
      case (Buf m a)
      have a: "addr_ok a" and sx: "supply_ok xs"
        using Cons.prems(3) Buf by (auto simp: supply_ok_def)
      have rb: "rxbufs (rx_post m a r) = rxbufs r" by (simp add: rx_post_def Let_def)
      have le: "rxbufs (rx_post m a r) \<le> 256" using Cons.prems(2) rb by simp
      from Cons.IH[OF rx_post_ok[OF Cons.prems(1) room a, of m] le sx, unfolded rb]
      obtain r' rest ms us as where i: "cgem_fill_rqueue xs (rx_post m a r) = (r', rest)"
        "rx_ok r' ((bs @ [m]) @ ms)" "rxbufs r' = rxbufs r" "xs = us @ rest"
        "take (length ms) us = map2 Buf ms as" "length as = length ms" by blast
      show ?thesis
        using i Buf True
        by (intro exI[of _ r'] exI[of _ rest] exI[of _ "m # ms"] conjI exI[of _ "x # us"] exI[of _ "a # as"])
           simp_all
    qed (use True Cons.prems rx_head_unmapped[OF Cons.prems(1) room] in
      \<open>auto intro!: exI[of _ "[]"] exI[of _ "[x]"]\<close>)
  qed
qed


section \<open>The contract\<close>

text \<open>The device fills a buffer: it writes the status word and sets the owner
  bit of a posted descriptor.\<close>

definition rx_device :: "nat \<times> u32 \<Rightarrow> rx_ring \<Rightarrow> rx_ring" where
  "rx_device h r =
     (let i = fst h; e = rxring r ! i in
      if i < 256 \<and> rxring_m r ! i \<noteq> None
      then r\<lparr>rxring := (rxring r)[i := \<lparr>rd_addr = rd_addr e OR CGEM_RXDESC_OWN, rd_ctl = snd h\<rparr>]\<rparr>
      else r)"

lemma rx_device_addr:
  "length (rxring r) = 256 \<Longrightarrow> i < 256 \<Longrightarrow> k \<noteq> 0 \<Longrightarrow>
     bit (rd_addr (rxring (rx_device h r) ! i)) k = bit (rd_addr (rxring r ! i)) k"
  "length (rxring r) = 256 \<Longrightarrow> i < 256 \<Longrightarrow> bit (rd_addr (rxring r ! i)) 0 \<Longrightarrow>
     bit (rd_addr (rxring (rx_device h r) ! i)) 0"
  by (cases "i = fst h"; simp add: rx_device_def Let_def bit_or_iff)+

lemma rx_device_ok: "rx_ok r bs \<Longrightarrow> rx_ok (rx_device h r) bs"
proof -
  assume ok: "rx_ok r bs"
  have sel: "rxring_m (rx_device h r) = rxring_m r" "rxring_m_dmamap (rx_device h r) = rxring_m_dmamap r"
    "rxring_tl_ptr (rx_device h r) = rxring_tl_ptr r" "rxring_hd_ptr (rx_device h r) = rxring_hd_ptr r"
    "rxring_queued (rx_device h r) = rxring_queued r" "length (rxring (rx_device h r)) = length (rxring r)"
    by (simp_all add: rx_device_def Let_def)
  show ?thesis
    using ok rx_device_addr[of r] unfolding rx_ok_def sel by simp
qed

text \<open>The ring with the buffers that have been taken off it so far.\<close>

type_synonym rx_hist = "rx_ring \<times> nat list"

definition rx_in_flight :: "rx_hist \<Rightarrow> nat list" where
  "rx_in_flight s = map (\<lambda>i. the (rxring_m (fst s) ! slot (fst s) i)) [0..<rxring_queued (fst s)]"

definition rx_reap :: "rx_hist \<Rightarrow> rx_hist option" where
  "rx_reap s = (let (r', out) = recv_loop (rxring_queued (fst s)) (fst s)
                in Some (r', snd s @ map (\<lambda>d. the (fst d)) out))"

definition rx_push :: "nat \<times> u32 \<Rightarrow> rx_hist \<Rightarrow> rx_hist" where
  "rx_push p s = (rx_post (fst p) (snd p) (fst s), snd s)"

definition rx_valid :: "rx_hist \<Rightarrow> bool" where
  "rx_valid s \<longleftrightarrow> rxbufs (fst s) \<le> 256 \<and> (\<exists>bs. rx_ok (fst s) bs)"

definition rx_room :: "rx_hist \<Rightarrow> bool" where
  "rx_room s \<longleftrightarrow> int (rxring_queued (fst s)) < rxbufs (fst s)"

lemma rx_in_flight_ok: "rx_ok (fst s) bs \<Longrightarrow> rx_in_flight s = bs"
proof -
  assume ok: "rx_ok (fst s) bs"
  then have "\<forall>i < length bs. the (rxring_m (fst s) ! slot (fst s) i) = bs ! i" "rxring_queued (fst s) = length bs"
    by (simp_all add: rx_ok_def)
  then show ?thesis
    unfolding rx_in_flight_def by (intro nth_equalityI) simp_all
qed

interpretation rxq: descriptor_ring rx_valid rx_room rx_push rx_reap "\<lambda>h s. (rx_device h (fst s), snd s)"
  "\<lambda>p. addr_ok (snd p)" rx_in_flight snd fst
proof unfold_locales
  fix s :: rx_hist and p :: "nat \<times> u32"
  assume v: "rx_valid s" and r: "rx_room s" and a: "addr_ok (snd p)"
  from v obtain bs where ok: "rx_ok (fst s) bs" and le: "rxbufs (fst s) \<le> 256" by (auto simp: rx_valid_def)
  have "length bs < 256"
    using r le ok by (simp add: rx_room_def rx_ok_queued)
  note post = rx_post_ok[OF ok this a, where m = "fst p"]
  have "rxbufs (rx_post (fst p) (snd p) (fst s)) = rxbufs (fst s)" by (simp add: rx_post_def Let_def)
  with post le show "rx_valid (rx_push p s) \<and> rx_in_flight (rx_push p s) = rx_in_flight s @ [fst p]
      \<and> snd (rx_push p s) = snd s"
    using rx_in_flight_ok[OF ok] rx_in_flight_ok[of "rx_push p s" "bs @ [fst p]"]
    by (auto simp: rx_valid_def rx_push_def)
next
  fix s assume v: "rx_valid s"
  from v obtain bs where ok: "rx_ok (fst s) bs" and le: "rxbufs (fst s) \<le> 256" by (auto simp: rx_valid_def)
  from recv_loop_ok[OF ok] obtain r' out k where l: "recv_loop (length bs) (fst s) = (r', out)"
    "rx_ok r' (drop k bs)" "map fst out = map Some (take k bs)" "rxbufs r' = rxbufs (fst s)" by blast
  have "map (\<lambda>d. the (fst d)) out = map the (map fst out)" by simp
  also have "\<dots> = take k bs" unfolding l(3) by (simp add: comp_def)
  finally have "rx_reap s = Some (r', snd s @ take k bs)"
    using l(1) ok by (simp add: rx_reap_def rx_ok_queued)
  then show "\<exists>s' n. rx_reap s = Some s' \<and> rx_valid s' \<and> rx_in_flight s' = drop n (rx_in_flight s)
      \<and> snd s' = snd s @ take n (rx_in_flight s)"
    using l(2,4) le rx_in_flight_ok[OF ok] rx_in_flight_ok[of "(r', snd s @ take k bs)" "drop k bs"]
    by (intro exI[of _ "(r', snd s @ take k bs)"] exI[of _ k]) (auto simp: rx_valid_def)
next
  fix s h assume "rx_valid s"
  then obtain bs where ok: "rx_ok (fst s) bs" and le: "rxbufs (fst s) \<le> 256" by (auto simp: rx_valid_def)
  have "rxbufs (rx_device h (fst s)) = rxbufs (fst s)" by (simp add: rx_device_def Let_def)
  with rx_device_ok[OF ok, of h] le show "rx_valid (rx_device h (fst s), snd s)
      \<and> rx_in_flight (rx_device h (fst s), snd s) = rx_in_flight s
      \<and> snd (rx_device h (fst s), snd s) = snd s"
    using rx_in_flight_ok[OF ok] rx_in_flight_ok[of "(rx_device h (fst s), snd s)" bs]
    by (auto simp: rx_valid_def)
qed

section \<open>Properties\<close>


definition sample_rx :: rx_ring where
  "sample_rx = rx_post 7 0x1000 (rx_ring_init \<lparr>rxring = [], rxring_m = [], rxring_m_dmamap = [],
     rxring_hd_ptr = 0, rxring_tl_ptr = 0, rxring_queued = 0, rxbufs = 128, rxdmamapfails = 0\<rparr>)"

lemma addr_ok_zero: "addr_ok 0x1000"
proof -
  have "(0x1000 :: u32) = push_bit 12 1" by simp
  from flag_bit[OF this] show ?thesis by (simp add: addr_ok_def)
qed

lemma sample_rx_ok: "rx_ok sample_rx [7]"
  using rx_post_ok[OF rx_init_ok _ addr_ok_zero, where m = 7] by (simp add: sample_rx_def)


text \<open>Every history of posts, device completions and receives of a ring with
  at most 256 buffers gives each posted buffer back once, in order, or still
  holds it.\<close>

theorem rx_ring_conserves:
  assumes "rx_valid s" and "\<forall>p. Push p \<in> set ops \<longrightarrow> addr_ok (snd p)"
  shows "\<exists>s' ps. ring_run rx_room rx_push rx_reap (\<lambda>h s. (rx_device h (fst s), snd s)) ops s = Some s'
     \<and> rx_valid s' \<and> snd s' @ rx_in_flight s' = (snd s @ rx_in_flight s) @ map fst ps
     \<and> set ps \<subseteq> {p. Push p \<in> set ops}"
  using rxq.run_history[OF assms] by blast

theorem rx_ring_conserves_witness:
  "\<exists>s' (ps :: (nat \<times> u32) list). ring_run rx_room rx_push rx_reap (\<lambda>h s. (rx_device h (fst s), snd s))
       [Push (8, 0x1000), Device (0, 0), Reap] (sample_rx, []) = Some s'
     \<and> snd s' @ rx_in_flight s' = ([] @ rx_in_flight (sample_rx, [])) @ map fst ps"
proof -
  have v: "rx_valid (sample_rx, [])"
    using sample_rx_ok by (auto simp: rx_valid_def sample_rx_def rx_post_def rx_ring_init_def Let_def)
  have l: "\<forall>p. Push p \<in> set [Push (8 :: nat, 0x1000 :: u32), Device (0 :: nat, 0 :: u32), Reap] \<longrightarrow> addr_ok (snd p)"
    by (simp add: addr_ok_zero)
  show ?thesis
    using rx_ring_conserves[OF v l] by (elim conjE exE) (intro exI conjI; simp)
qed

text \<open>A configured buffer count above 256 breaks the ring. When all 256
  slots hold a buffer the fill loop still posts the next one: it replaces the
  oldest buffer, which the device still owns, in the slot array and the
  descriptor, and counts 257 queued.\<close>

theorem fill_overruns:
  assumes "rx_ok r bs" and "length bs = 256" and "256 < rxbufs r" and "m \<noteq> hd bs"
  shows "\<exists>r'. cgem_fill_rqueue [Buf m a] r = (r', [])
     \<and> rxring_m r ! rxring_hd_ptr r = Some (hd bs)
     \<and> rxring_m r' ! rxring_hd_ptr r = Some m
     \<and> rxring_queued r' = 257
     \<and> (\<nexists>bs'. rx_ok r' bs')"
proof -
  have h: "rxring_hd_ptr r = rxring_tl_ptr r" "rxring_tl_ptr r < 256" "rxring_queued r = 256"
    "length (rxring_m r) = 256"
    using assms by (simp_all add: rx_ok_def)
  have "\<forall>i < length bs. rxring_m r ! slot r i = Some (bs ! i)"
    using assms(1) unfolding rx_ok_def by blast
  from this[rule_format, of 0] have old: "rxring_m r ! rxring_hd_ptr r = Some (hd bs)"
    using assms(2) h by (simp add: hd_conv_nth[of bs] flip: length_0_conv)
  have "cgem_fill_rqueue [Buf m a] r = (rx_post m a r, [])"
    using assms(3) h(3) by simp
  moreover have "rxring_m (rx_post m a r) ! rxring_hd_ptr r = Some m"
    using h by (simp add: rx_post_def Let_def)
  moreover have q: "rxring_queued (rx_post m a r) = 257"
    using h by (simp add: rx_post_def Let_def)
  ultimately show ?thesis
    using old by (auto simp: rx_ok_def)
qed


definition full_rx :: rx_ring where
  "full_rx = (fold (\<lambda>i. rx_post i 0x1000) [0..<256] (rx_ring_init sample_rx))\<lparr>rxbufs := 300\<rparr>"

lemma fold_post_ok:
  "n \<le> 256 \<Longrightarrow> rx_ok (fold (\<lambda>i. rx_post i 0x1000) [0..<n] (rx_ring_init r)) [0..<n]"
proof (induction n)
  case 0
  then show ?case using rx_init_ok by simp
next
  case (Suc n)
  then show ?case
    using rx_post_ok[OF _ _ addr_ok_zero, of _ "[0..<n]", where m = n] by simp
qed

lemma full_rx_ok: "rx_ok full_rx [0..<256]"
  using fold_post_ok[of 256 sample_rx] unfolding full_rx_def by (simp add: rx_ok_def del: upt.simps upt_rec_numeral)

theorem fill_overruns_witness:
  "\<exists>r'. cgem_fill_rqueue [Buf 999 0x1000] full_rx = (r', []) \<and> rxring_queued r' = 257"
proof -
  have "hd [0..<256] = (0 :: nat)" by (simp add: upt_conv_Cons del: upt_rec_numeral)
  then have ne: "(999 :: nat) \<noteq> hd [0..<256]" by linarith
  have len: "length [0..<256] = 256" by (simp del: upt_rec_numeral)
  have lt: "256 < rxbufs full_rx" by (simp add: full_rx_def)
  from fill_overruns[OF full_rx_ok len lt ne, where a = "0x1000"] show ?thesis
    by (elim exE conjE) (intro exI conjI; assumption)
qed

end
