(* ===== verification/Rp1Eth.thy ===== *)
theory Rp1Eth
  imports EthTx EthRx
begin

text \<open>
  The GEM Ethernet driver around its rings (rp1_eth.c, rp1_eth_hw.h): the
  multicast filter, the management bus and speed handling, reset, configuration
  and stop, the interrupt filter with its task and fallback poll, and the
  ioctl state machine.
\<close>

section \<open>State\<close>

text \<open>The software context: the register windows of the MAC and of the clock
  block, the shadow registers, the rings, the interface's flags, capabilities
  and multicast addresses, and which callouts and tasks are scheduled. The
  statistics counters are indexed by the register they accumulate.\<close>

record eth =
  mac :: mmio
  cfgw :: mmio
  cfg_kva :: bool
  lladdr :: bytes
  phy_addr :: nat
  link_up :: bool
  tick_armed :: bool
  poll_armed :: bool
  task_queued :: bool
  intr_pending :: u32
  net_ctl_shadow :: u32
  net_cfg_shadow :: u32
  tx :: tx_ring
  rx :: rx_ring
  rxoverruns :: nat
  rxnobufs :: nat
  if_up :: bool
  if_promisc :: bool
  if_broadcast :: bool
  if_allmulti :: bool
  old_promisc :: bool
  old_allmulti :: bool
  drv_running :: bool
  cap_rxcsum :: bool
  cap_txcsum :: bool
  cap_vlan_hwcsum :: bool
  maddrs :: "bytes list"
  sendq :: "nat list"
  input :: "rx_frame list"
  ierrors :: nat
  stats32 :: "nat \<Rightarrow> u32"
  tx_bytes :: u64
  rx_bytes :: u64
  collisions :: nat

definition RD4 :: "eth \<Rightarrow> nat \<Rightarrow> u32" where "RD4 e r = rd (mac e) r"
definition WR4 :: "nat \<Rightarrow> u32 \<Rightarrow> eth \<Rightarrow> eth" where "WR4 r v e = e\<lparr>mac := wr (mac e) r v\<rparr>"

definition CGEM_NET_CFG :: nat where "CGEM_NET_CFG = 0x004"
definition CGEM_DMA_CFG :: nat where "CGEM_DMA_CFG = 0x010"
definition CGEM_TX_STAT :: nat where "CGEM_TX_STAT = 0x014"
definition CGEM_RX_QBAR :: nat where "CGEM_RX_QBAR = 0x018"
definition CGEM_TX_QBAR :: nat where "CGEM_TX_QBAR = 0x01C"
definition CGEM_RX_STAT :: nat where "CGEM_RX_STAT = 0x020"
definition CGEM_INTR_STAT :: nat where "CGEM_INTR_STAT = 0x024"
definition CGEM_INTR_EN :: nat where "CGEM_INTR_EN = 0x028"
definition CGEM_INTR_DIS :: nat where "CGEM_INTR_DIS = 0x02C"
definition CGEM_PHY_MAINT :: nat where "CGEM_PHY_MAINT = 0x034"
definition CGEM_HASH_BOT :: nat where "CGEM_HASH_BOT = 0x080"
definition CGEM_HASH_TOP :: nat where "CGEM_HASH_TOP = 0x084"
definition CGEM_SPEC_ADDR_LOW0 :: nat where "CGEM_SPEC_ADDR_LOW0 = 0x088"
definition CGEM_SPEC_ADDR_HI0 :: nat where "CGEM_SPEC_ADDR_HI0 = 0x08C"
definition CGEM_DESIGN_CFG1 :: nat where "CGEM_DESIGN_CFG1 = 0x280"
definition CGEM_DESIGN_CFG6 :: nat where "CGEM_DESIGN_CFG6 = 0x294"
definition ETH_CFG_CLKGEN :: nat where "ETH_CFG_CLKGEN = 0x14"

lemmas gem_regs = CGEM_NET_CFG_def CGEM_DMA_CFG_def CGEM_TX_STAT_def CGEM_RX_QBAR_def
  CGEM_TX_QBAR_def CGEM_RX_STAT_def CGEM_INTR_STAT_def CGEM_INTR_EN_def CGEM_INTR_DIS_def
  CGEM_PHY_MAINT_def CGEM_HASH_BOT_def CGEM_HASH_TOP_def CGEM_SPEC_ADDR_LOW0_def
  CGEM_SPEC_ADDR_HI0_def CGEM_DESIGN_CFG1_def CGEM_DESIGN_CFG6_def CGEM_NET_CTRL_def CGEM_USER_IO_def

definition NET_CFG_GIGE_EN :: u32 where "NET_CFG_GIGE_EN = push_bit 10 1"
definition NET_CFG_SPEED100 :: u32 where "NET_CFG_SPEED100 = push_bit 0 1"
definition NET_CFG_COPY_ALL :: u32 where "NET_CFG_COPY_ALL = push_bit 4 1"
definition NET_CFG_NO_BCAST :: u32 where "NET_CFG_NO_BCAST = push_bit 5 1"
definition NET_CFG_MULTI_HASH_EN :: u32 where "NET_CFG_MULTI_HASH_EN = push_bit 6 1"
definition NET_CFG_RX_CHKSUM :: u32 where "NET_CFG_RX_CHKSUM = push_bit 24 1"
definition DMA_CFG_CHKSUM_GEN :: u32 where "DMA_CFG_CHKSUM_GEN = push_bit 11 1"
definition INTR_ALL :: u32 where "INTR_ALL = 0x7FFFEFF"
definition INTR_RX_COMPLETE :: u32 where "INTR_RX_COMPLETE = push_bit 1 1"
definition INTR_RX_USED_READ :: u32 where "INTR_RX_USED_READ = push_bit 2 1"
definition INTR_TX_USED_READ :: u32 where "INTR_TX_USED_READ = push_bit 3 1"
definition INTR_RX_OVERRUN :: u32 where "INTR_RX_OVERRUN = push_bit 10 1"
definition INTR_HRESP_NOT_OK :: u32 where "INTR_HRESP_NOT_OK = push_bit 11 1"

definition INTR_SOURCES :: u32 where
  "INTR_SOURCES = INTR_RX_COMPLETE OR INTR_TX_USED_READ OR INTR_HRESP_NOT_OK OR INTR_RX_USED_READ
     OR INTR_RX_OVERRUN"

section \<open>Receive filter\<close>

definition cgem_mac_hash :: "bytes \<Rightarrow> u32" where
  "cgem_mac_hash eaddr =
     fold (\<lambda>i hash. fold (\<lambda>k hash.
         let j = i + 6 * k in
         if (eaddr ! (j div 8)) AND push_bit (j mod 8) 1 \<noteq> 0 then hash XOR push_bit i 1 else hash)
       [0..<8] hash) [0..<6] 0"

text \<open>The callback over the multicast list; the pair is (hashes[0], hashes[1]).\<close>

definition cgem_hash_maddr :: "bytes \<Rightarrow> u32 \<times> u32 \<Rightarrow> u32 \<times> u32" where
  "cgem_hash_maddr a h =
     (let index = unat (cgem_mac_hash a) in
      if index > 31 then (fst h OR push_bit (index - 32) 1, snd h)
      else (fst h, snd h OR push_bit index 1))"

definition cgem_rx_filter :: "eth \<Rightarrow> eth" where
  "cgem_rx_filter e =
     (let s = net_cfg_shadow e AND NOT (NET_CFG_MULTI_HASH_EN OR NET_CFG_NO_BCAST OR NET_CFG_COPY_ALL);
          (s, hashes) =
            (if if_promisc e then (s OR NET_CFG_COPY_ALL, (0, 0))
             else let s = (if \<not> if_broadcast e then s OR NET_CFG_NO_BCAST else s);
                      hashes = (if if_allmulti e then (0xffffffff, 0xffffffff)
                                else fold cgem_hash_maddr (maddrs e) (0, 0));
                      s = (if fst hashes \<noteq> 0 \<or> snd hashes \<noteq> 0 then s OR NET_CFG_MULTI_HASH_EN else s)
                  in (s, hashes));
          e = e\<lparr>net_cfg_shadow := s\<rparr>
      in WR4 CGEM_NET_CFG s (WR4 CGEM_HASH_BOT (snd hashes) (WR4 CGEM_HASH_TOP (fst hashes) e)))"

section \<open>Management bus and speed\<close>

text \<open>The idle polling of the management bus: the status register is read at
  most 201 times; k counts the reads and stat gives what each of them shows.\<close>

fun mdio_idle :: "nat \<Rightarrow> (nat \<Rightarrow> u32) \<Rightarrow> nat \<Rightarrow> bool" where
  "mdio_idle 0 stat k = False"
| "mdio_idle (Suc n) stat k = (if stat k AND push_bit 2 1 \<noteq> 0 then True else mdio_idle n stat (k + 1))"

definition mdio_frame :: "nat \<Rightarrow> nat \<Rightarrow> u32" where
  "mdio_frame phy reg = push_bit 30 1 OR push_bit 16 2 OR push_bit 28 2
     OR push_bit 23 (of_nat phy) OR push_bit 18 (of_nat reg)"

text \<open>None is the error return -1.\<close>

definition rp1eth_mdio_read :: "(nat \<Rightarrow> u32) \<Rightarrow> u32 \<Rightarrow> nat \<Rightarrow> nat \<Rightarrow> eth \<Rightarrow> u32 option \<times> eth" where
  "rp1eth_mdio_read stat data phy reg e =
     (let e = WR4 CGEM_PHY_MAINT (mdio_frame phy reg) e in
      if mdio_idle 201 stat 0 then (Some (data AND 0xffff), e) else (None, e))"

definition rp1eth_update_speed :: "eth \<Rightarrow> eth" where
  "rp1eth_update_speed e =
     (if \<not> cfg_kva e then e
      else let net_cfg = RD4 e CGEM_NET_CFG;
               spd_val = (if net_cfg AND NET_CFG_GIGE_EN \<noteq> 0 then 2
                          else if net_cfg AND NET_CFG_SPEED100 \<noteq> 0 then 1 else 0);
               clkgen = rd (cfgw e) ETH_CFG_CLKGEN;
               clkgen_base = clkgen AND NOT (push_bit 7 1 OR push_bit 6 1 OR push_bit 9 1 OR push_bit 3 1 OR 3);
               clkgen_base = clkgen_base OR push_bit 3 1 OR spd_val;
               w = wr (cfgw e) ETH_CFG_CLKGEN clkgen_base;
               w = wr w ETH_CFG_CLKGEN (clkgen_base OR push_bit 7 1)
           in e\<lparr>cfgw := w\<rparr>)"

section \<open>Statistics and link tick\<close>

definition stat_regs :: "nat list" where
  "stat_regs = [0x108, 0x10C, 0x110, 0x114, 0x118, 0x11C, 0x120, 0x124, 0x128, 0x12C, 0x134,
     0x138, 0x13C, 0x140, 0x144, 0x148, 0x14C, 0x158, 0x15C, 0x160, 0x164, 0x168, 0x16C, 0x170,
     0x174, 0x178, 0x17C, 0x184, 0x188, 0x18C, 0x190, 0x194, 0x198, 0x19C, 0x1A0, 0x1A4, 0x1A8,
     0x1AC, 0x1B0]"

definition cgem_poll_hw_stats :: "eth \<Rightarrow> eth" where
  "cgem_poll_hw_stats e =
     e\<lparr>tx_bytes := tx_bytes e + ucast (RD4 e 0x100) + push_bit 32 (ucast (RD4 e 0x104)),
       rx_bytes := rx_bytes e + ucast (RD4 e 0x150) + push_bit 32 (ucast (RD4 e 0x154)),
       stats32 := (\<lambda>r. if r \<in> set stat_regs then stats32 e r + RD4 e r else stats32 e r),
       collisions := collisions e + unat (RD4 e 0x138) + unat (RD4 e 0x13C) + unat (RD4 e 0x140)
         + unat (RD4 e 0x144)\<rparr>"

text \<open>Two reads of the status register 1; link state is bit 2 of the second.\<close>

definition rp1eth_tick :: "(nat \<Rightarrow> u32) \<Rightarrow> u32 \<Rightarrow> (nat \<Rightarrow> u32) \<Rightarrow> u32 \<Rightarrow> eth \<Rightarrow> eth" where
  "rp1eth_tick stat1 data1 stat2 data2 e =
     (if \<not> drv_running e then e\<lparr>tick_armed := True\<rparr>
      else let e1 = snd (rp1eth_mdio_read stat1 data1 (phy_addr e) 1 e);
               (bmsr, e2) = rp1eth_mdio_read stat2 data2 (phy_addr e1) 1 e1;
               up = (case bmsr of None \<Rightarrow> False | Some b \<Rightarrow> b AND push_bit 2 1 \<noteq> 0);
               e3 = (if up \<noteq> link_up e2
                     then (if up then rp1eth_update_speed (e2\<lparr>link_up := up\<rparr>) else e2\<lparr>link_up := up\<rparr>)
                     else e2)
           in (cgem_poll_hw_stats e3)\<lparr>tick_armed := True\<rparr>)"

section \<open>Reset, configuration, stop\<close>

definition cgem_reset :: "eth \<Rightarrow> eth" where
  "cgem_reset e =
     (let width = RD4 e CGEM_DESIGN_CFG1 AND push_bit 25 7;
          s = (if width = push_bit 25 2 then push_bit 21 1
               else if width = push_bit 25 4 then push_bit 21 2 else 0);
          e = WR4 CGEM_NET_CTRL 0 (e\<lparr>net_cfg_shadow := s\<rparr>);
          e = WR4 CGEM_NET_CFG s e;
          e = WR4 CGEM_NET_CTRL (push_bit 5 1) e;
          e = WR4 CGEM_TX_STAT 0x1ff e;
          e = WR4 CGEM_RX_STAT 0xf e;
          e = WR4 CGEM_INTR_DIS INTR_ALL e;
          e = WR4 CGEM_HASH_BOT 0 e;
          e = WR4 CGEM_HASH_TOP 0 e;
          e = WR4 CGEM_TX_QBAR 0 e;
          e = WR4 CGEM_RX_QBAR 0 e;
          s = s OR push_bit 18 5;
          e = WR4 CGEM_NET_CFG s (e\<lparr>net_cfg_shadow := s\<rparr>);
          e = WR4 CGEM_NET_CTRL (push_bit 4 1) (e\<lparr>net_ctl_shadow := push_bit 4 1\<rparr>)
      in WR4 CGEM_USER_IO 1 e)"

text \<open>The base addresses of the rings are arguments of the configuration.\<close>

definition cgem_config :: "u32 \<Rightarrow> u32 \<Rightarrow> eth \<Rightarrow> eth" where
  "cgem_config rx_phys tx_phys e =
     (let s = net_cfg_shadow e AND (push_bit 18 7 OR push_bit 21 3);
          s = s OR (push_bit 17 1 OR push_bit 14 2 OR NET_CFG_GIGE_EN OR push_bit 8 1 OR push_bit 1 1);
          s = (if cap_rxcsum e then s OR NET_CFG_RX_CHKSUM else s);
          e = WR4 CGEM_NET_CFG s (e\<lparr>net_cfg_shadow := s\<rparr>);
          dma_cfg = push_bit 16 32 OR push_bit 8 3 OR push_bit 10 1 OR 16 OR push_bit 24 1;
          dma_cfg = (if cap_txcsum e then dma_cfg OR DMA_CFG_CHKSUM_GEN else dma_cfg);
          e = WR4 CGEM_DMA_CFG dma_cfg e;
          e = WR4 CGEM_RX_QBAR rx_phys e;
          e = WR4 CGEM_TX_QBAR tx_phys e;
          c = net_ctl_shadow e OR (push_bit 3 1 OR push_bit 2 1);
          e = WR4 CGEM_NET_CTRL c (e\<lparr>net_ctl_shadow := c\<rparr>);
          e = WR4 CGEM_USER_IO 1 e;
          a = lladdr e;
          e = WR4 CGEM_SPEC_ADDR_LOW0 (push_bit 24 (ucast (a ! 3)) OR push_bit 16 (ucast (a ! 2))
                OR push_bit 8 (ucast (a ! 1)) OR ucast (a ! 0)) e;
          e = WR4 CGEM_SPEC_ADDR_HI0 (push_bit 8 (ucast (a ! 5)) OR ucast (a ! 4)) e;
          e = WR4 CGEM_INTR_DIS INTR_ALL e
      in WR4 CGEM_INTR_EN INTR_SOURCES e)"

definition rx_fill :: "rx_supply list \<Rightarrow> eth \<Rightarrow> eth" where
  "rx_fill supply e = e\<lparr>rx := fst (cgem_fill_rqueue supply (rx e))\<rparr>"

definition cgem_init_locked :: "u32 \<Rightarrow> u32 \<Rightarrow> rx_supply list \<Rightarrow> eth \<Rightarrow> eth" where
  "cgem_init_locked rx_phys tx_phys supply e =
     (if drv_running e then e
      else let e = rx_fill supply (cgem_config rx_phys tx_phys e)
           in e\<lparr>drv_running := True, tx := (tx e)\<lparr>oactive := False\<rparr>, tick_armed := True\<rparr>)"

definition tx_stop :: "tx_ring \<Rightarrow> tx_ring" where
  "tx_stop t = (tx_ring_init t)\<lparr>m_dropped := m_dropped t @ List.map_filter id (txring_m t)\<rparr>"

definition cgem_stop :: "eth \<Rightarrow> eth" where
  "cgem_stop e =
     (let e = cgem_reset (e\<lparr>tick_armed := False, poll_armed := False\<rparr>)
      in e\<lparr>tx := tx_stop (tx e), rx := rx_ring_init (rx e)\<rparr>)"

section \<open>Interrupts\<close>

datatype filter_result = FILTER_STRAY | FILTER_HANDLED

text \<open>In the three handlers ist is what the interrupt status register shows.\<close>

definition cgem_intr_filter :: "u32 \<Rightarrow> eth \<Rightarrow> filter_result \<times> eth" where
  "cgem_intr_filter ist e =
     (if ist AND INTR_ALL = 0 then (FILTER_STRAY, e)
      else (FILTER_HANDLED, (WR4 CGEM_INTR_DIS INTR_ALL e)
              \<lparr>intr_pending := ist, task_queued := True, poll_armed := False\<rparr>))"

definition cgem_gem_poll :: "u32 \<Rightarrow> eth \<Rightarrow> eth" where
  "cgem_gem_poll ist e =
     (let e = e\<lparr>poll_armed := False\<rparr> in
      if \<not> drv_running e then e
      else let ist = ist AND INTR_SOURCES in
        if ist \<noteq> 0 then (WR4 CGEM_INTR_DIS INTR_ALL e)
            \<lparr>intr_pending := intr_pending e OR ist, task_queued := True\<rparr>
        else e\<lparr>poll_armed := True\<rparr>)"

text \<open>Starting the transmitter from the softc; None only if the ring code gets
  stuck.\<close>

definition start_tx :: "dma \<Rightarrow> eth \<Rightarrow> eth option" where
  "start_tx d e =
     map_option (\<lambda>(t, m, q). e\<lparr>tx := t, mac := m, sendq := q\<rparr>)
       (cgem_start_locked d (net_ctl_shadow e) (sendq e) (tx e, mac e))"

definition recv_rx :: "rx_supply list \<Rightarrow> eth \<Rightarrow> eth" where
  "recv_rx supply e =
     (let (r, frames, errs, rest) = cgem_recv (cap_rxcsum e) supply (rx e)
      in e\<lparr>rx := r, input := input e @ frames, ierrors := ierrors e + errs\<rparr>)"

text \<open>The status checks of the task, in their order.\<close>

definition task_errors :: "rx_supply list \<Rightarrow> u32 \<Rightarrow> eth \<Rightarrow> eth" where
  "task_errors supply ist e =
     (let e = (if ist AND INTR_HRESP_NOT_OK \<noteq> 0 then WR4 CGEM_RX_STAT (push_bit 3 1) e else e);
          e = (if ist AND INTR_RX_OVERRUN \<noteq> 0
               then (WR4 CGEM_RX_STAT (push_bit 2 1) e)\<lparr>rxoverruns := rxoverruns e + 1\<rparr> else e)
      in if ist AND INTR_RX_USED_READ \<noteq> 0
         then (rx_fill supply (WR4 CGEM_NET_CTRL (net_ctl_shadow e OR push_bit 18 1) e))
                \<lparr>rxnobufs := rxnobufs e + 1\<rparr> else e)"

definition cgem_intr_task :: "dma \<Rightarrow> rx_supply list \<Rightarrow> rx_supply list \<Rightarrow> eth \<Rightarrow> eth option" where
  "cgem_intr_task d supply1 supply2 e0 =
     (let ist = intr_pending e0;
          e = e0\<lparr>intr_pending := 0, task_queued := False\<rparr>
      in if \<not> drv_running e then Some e
         else let e = WR4 CGEM_INTR_STAT ist e;
                  e = (if ist AND INTR_RX_COMPLETE \<noteq> 0 then recv_rx supply1 e else e)
           in case cgem_clean_tx (tx e) of
                None \<Rightarrow> None
              | Some t \<Rightarrow>
                let e = task_errors supply2 ist (e\<lparr>tx := t\<rparr>)
                in (case (if sendq e \<noteq> [] then start_tx d e else Some e) of
                      None \<Rightarrow> None
                    | Some e \<Rightarrow> Some ((WR4 CGEM_INTR_EN INTR_SOURCES e)\<lparr>poll_armed := True\<rparr>)))"

section \<open>Ioctls\<close>

datatype ioctl = SIOCSIFFLAGS | SIOCADDMULTI | SIOCDELMULTI | SIOCMEDIA | SIOCSIFCAP bool bool

text \<open>SIOCSIFCAP carries the requested RX and TX checksum bits; the media
  requests go to ifmedia, which the driver's callback answers without touching
  the hardware. Other requests go to ether_ioctl.\<close>

definition ioctl_flags :: "u32 \<Rightarrow> u32 \<Rightarrow> rx_supply list \<Rightarrow> eth \<Rightarrow> eth" where
  "ioctl_flags rx_phys tx_phys supply e =
     (let e = (if if_up e
               then (if drv_running e
                     then (if if_promisc e \<noteq> old_promisc e \<or> if_allmulti e \<noteq> old_allmulti e
                           then cgem_rx_filter e else e)
                     else cgem_init_locked rx_phys tx_phys supply e)
               else if drv_running e then cgem_stop (e\<lparr>drv_running := False\<rparr>) else e)
      in e\<lparr>old_promisc := if_promisc e, old_allmulti := if_allmulti e\<rparr>)"

definition ioctl_cap :: "bool \<Rightarrow> bool \<Rightarrow> eth \<Rightarrow> eth" where
  "ioctl_cap rxc txc e =
     (let e = (if cap_txcsum e \<noteq> txc
               then let v = RD4 e CGEM_DMA_CFG in
                    WR4 CGEM_DMA_CFG (if txc then v OR DMA_CFG_CHKSUM_GEN else v AND NOT DMA_CFG_CHKSUM_GEN)
                      (e\<lparr>cap_txcsum := txc\<rparr>)
               else e);
          e = (if cap_rxcsum e \<noteq> rxc
               then let s = (if rxc then net_cfg_shadow e OR NET_CFG_RX_CHKSUM
                             else net_cfg_shadow e AND NOT NET_CFG_RX_CHKSUM)
                    in WR4 CGEM_NET_CFG s (e\<lparr>cap_rxcsum := rxc, net_cfg_shadow := s\<rparr>)
               else e)
      in e\<lparr>cap_vlan_hwcsum := cap_rxcsum e \<and> cap_txcsum e\<rparr>)"

definition cgem_ioctl :: "u32 \<Rightarrow> u32 \<Rightarrow> rx_supply list \<Rightarrow> ioctl \<Rightarrow> eth \<Rightarrow> eth" where
  "cgem_ioctl rx_phys tx_phys supply cmd e =
     (case cmd of
        SIOCSIFFLAGS \<Rightarrow> ioctl_flags rx_phys tx_phys supply e
      | SIOCADDMULTI \<Rightarrow> if drv_running e then cgem_rx_filter e else e
      | SIOCDELMULTI \<Rightarrow> if drv_running e then cgem_rx_filter e else e
      | SIOCMEDIA \<Rightarrow> e
      | SIOCSIFCAP rxc txc \<Rightarrow> ioctl_cap rxc txc e)"


section \<open>Ring setup and attach\<close>

text \<open>The null queues of the priority queues: n counts up while the low bit of
  the mask is set; the mask has at most fifteen bits.\<close>

fun null_q_regs :: "nat \<Rightarrow> nat \<Rightarrow> u32 \<Rightarrow> u32 \<Rightarrow> eth \<Rightarrow> eth" where
  "null_q_regs 0 n queue_mask phys e = e"
| "null_q_regs (Suc k) n queue_mask phys e =
     (if queue_mask AND 1 = 0 then e
      else null_q_regs k (n + 1) (drop_bit 1 queue_mask) phys
             (WR4 (0x440 + (n - 1) * 4) (phys + 8) (WR4 (0x480 + (n - 1) * 4) phys e)))"

definition cgem_null_qs :: "u32 \<Rightarrow> eth \<Rightarrow> eth" where
  "cgem_null_qs phys e =
     null_q_regs 16 1 (drop_bit 1 (RD4 e CGEM_DESIGN_CFG6 AND 0xfffe)) phys e"

text \<open>The results of the four busdma calls and the physical address of the
  rings are arguments.\<close>

definition cgem_setup_descs :: "rc \<Rightarrow> rc \<Rightarrow> rc \<Rightarrow> rc \<Rightarrow> nat \<Rightarrow> eth \<Rightarrow> rc \<times> eth" where
  "cgem_setup_descs tag1 tag2 alloc load phys e =
     (if tag1 \<noteq> ok then (tag1, e) else if tag2 \<noteq> ok then (tag2, e)
      else if alloc \<noteq> ok then (alloc, e) else if load \<noteq> ok then (load, e)
      else if phys > 0xffffffff then (fail ENOMEM, e)
      else (ok, cgem_null_qs (of_nat (phys + 256 * 8 + 256 * 8))
              (e\<lparr>rx := rx_ring_init (rx e), tx := tx_ring_init (tx e)\<rparr>)))"

definition rp1eth_attach :: "rc \<Rightarrow> rc \<Rightarrow> rc \<Rightarrow> rc \<Rightarrow> nat \<Rightarrow> bytes \<Rightarrow> eth \<Rightarrow> rc \<times> eth" where
  "rp1eth_attach tag1 tag2 alloc load phys macaddr e =
     (let e = e\<lparr>rx := (rx e)\<lparr>rxbufs := RP1ETH_DEFAULT_RXBUFS\<rparr>, lladdr := macaddr\<rparr>;
          (err, e) = cgem_setup_descs tag1 tag2 alloc load phys (cgem_reset e)
      in if err \<noteq> ok then (err, e)
         else (ok, e\<lparr>if_broadcast := True, old_promisc := if_promisc e,
                      old_allmulti := if_allmulti e\<rparr>))"

section \<open>The hash filter\<close>

lemma hash_inner:
  "i < 64 \<Longrightarrow> bit (fold (\<lambda>k hash :: u32. if P k then hash XOR push_bit i 1 else hash) ks h) n
     = (if n = i \<and> i < 32 then bit h n \<noteq> odd (length (filter P ks)) else bit h n)"
  by (induction ks arbitrary: h) (auto simp: bit_xor_iff bit_exp_iff dest: bit_imp_le_length)

text \<open>Bit i of the hash is the parity of the address bits i, i + 6, ..., i + 42.\<close>

definition addr_bit :: "bytes \<Rightarrow> nat \<Rightarrow> bool" where
  "addr_bit a j = bit (a ! (j div 8)) (j mod 8)"

definition hash_parity :: "bytes \<Rightarrow> nat \<Rightarrow> bool" where
  "hash_parity a i = odd (length (filter (\<lambda>k. addr_bit a (i + 6 * k)) [0..<8]))"

lemma addr_test: "(x :: u8) AND push_bit (j mod 8) 1 \<noteq> 0 \<longleftrightarrow> bit x (j mod 8)"
  using and_flag[OF refl, of "j mod 8" x] by simp

lemma hash_outer:
  "(\<forall>i \<in> set is. i < 32) \<Longrightarrow> distinct is \<Longrightarrow>
   bit (fold (\<lambda>i hash. fold (\<lambda>k hash :: u32. if Q i k then hash XOR push_bit i 1 else hash) [0..<8] hash) is h) n
     = (if n \<in> set is then bit h n \<noteq> odd (length (filter (Q n) [0..<8])) else bit h n)"
proof (induction "is" arbitrary: h)
  case Nil
  then show ?case by simp
next
  case (Cons i "is")
  show ?case
    using Cons.prems by (simp only: fold_simps list.set) (subst Cons.IH, simp_all add: hash_inner del: upt_rec_numeral)
qed

lemma mac_hash_bits: "bit (cgem_mac_hash a) n \<longleftrightarrow> n < 6 \<and> hash_parity a n"
proof -
  have "bit (cgem_mac_hash a) n = (if n \<in> set [0..<6] then bit (0 :: u32) n \<noteq>
      odd (length (filter (\<lambda>k. addr_bit a (n + 6 * k)) [0..<8])) else bit (0 :: u32) n)"
    unfolding cgem_mac_hash_def Let_def addr_test addr_bit_def by (rule hash_outer) auto
  then show ?thesis by (auto simp: hash_parity_def)
qed

lemma mac_hash_bound: "unat (cgem_mac_hash a) < 64"
proof -
  have "cgem_mac_hash a = take_bit 6 (cgem_mac_hash a)"
    by (rule bit_word_eqI) (auto simp: bit_take_bit_iff mac_hash_bits)
  then have "unat (cgem_mac_hash a) = take_bit 6 (unat (cgem_mac_hash a))"
    by (metis unsigned_take_bit_eq)
  then show ?thesis
    using take_bit_nat_less_exp[of 6 "unat (cgem_mac_hash a)"] by simp
qed

text \<open>What the hardware accepts with a given pair of hash registers: the bit of
  the hash of the address is set.\<close>

definition hash_accepts :: "u32 \<times> u32 \<Rightarrow> bytes \<Rightarrow> bool" where
  "hash_accepts h a = (let i = unat (cgem_mac_hash a) in
     if i > 31 then bit (fst h) (i - 32) else bit (snd h) i)"

lemma hash_maddr_mono: "hash_accepts h a \<Longrightarrow> hash_accepts (cgem_hash_maddr b h) a"
  by (auto simp: hash_accepts_def cgem_hash_maddr_def Let_def bit_or_iff)

lemma hash_maddr_self: "hash_accepts (cgem_hash_maddr a h) a"
  using mac_hash_bound[of a]
  by (auto simp: hash_accepts_def cgem_hash_maddr_def Let_def bit_or_iff bit_exp_iff)

lemma hash_fold_accepts: "a \<in> set as \<or> hash_accepts h a \<Longrightarrow> hash_accepts (fold cgem_hash_maddr as h) a"
proof (induction as arbitrary: h)
  case Nil
  then show ?case by simp
next
  case (Cons b as)
  have "a \<in> set as \<or> hash_accepts (cgem_hash_maddr b h) a"
    using Cons.prems hash_maddr_self[of b h] hash_maddr_mono[of h a b] by auto
  from Cons.IH[OF this] show ?case by simp
qed

lemma hash_all: "hash_accepts (0xffffffff, 0xffffffff) a"
proof -
  have "(0xffffffff :: u32) = mask 32" by (simp add: mask_eq_exp_minus_1)
  then have b: "bit (0xffffffff :: u32) n \<longleftrightarrow> n < 32" for n
    by (simp only: bit_mask_iff) simp
  show ?thesis
    unfolding hash_accepts_def Let_def fst_conv snd_conv b using mac_hash_bound[of a] by auto
qed

lemma hash_accepts_nonzero: "hash_accepts h a \<Longrightarrow> fst h \<noteq> 0 \<or> snd h \<noteq> 0"
  by (auto simp: hash_accepts_def Let_def split: if_splits)

lemma net_cfg_bits [simp]:
  "bit NET_CFG_GIGE_EN k \<longleftrightarrow> k = 10" "bit NET_CFG_SPEED100 k \<longleftrightarrow> k = 0"
  "bit NET_CFG_COPY_ALL k \<longleftrightarrow> k = 4" "bit NET_CFG_NO_BCAST k \<longleftrightarrow> k = 5"
  "bit NET_CFG_MULTI_HASH_EN k \<longleftrightarrow> k = 6" "bit NET_CFG_RX_CHKSUM k \<longleftrightarrow> k = 24"
  by (simp_all add: flag_bit[OF NET_CFG_GIGE_EN_def] flag_bit[OF NET_CFG_SPEED100_def]
      flag_bit[OF NET_CFG_COPY_ALL_def] flag_bit[OF NET_CFG_NO_BCAST_def]
      flag_bit[OF NET_CFG_MULTI_HASH_EN_def] flag_bit[OF NET_CFG_RX_CHKSUM_def])

lemma RD4_WR4 [simp]: "RD4 (WR4 r v e) r' = (if r' = r then v else RD4 e r')"
  by (simp add: RD4_def WR4_def)


lemma RD4_shadow [simp]:
  "RD4 (e\<lparr>net_ctl_shadow := c\<rparr>) r = RD4 e r" "RD4 (e\<lparr>net_cfg_shadow := s\<rparr>) r = RD4 e r"
  by (simp_all add: RD4_def)

section \<open>Frames of the register operations\<close>

text \<open>The interrupt mask the writes so far have set up: enables set bits,
  disables clear them.\<close>

definition irq_mask :: "mmio \<Rightarrow> u32" where
  "irq_mask m = fold (\<lambda>(r, v) k. if r = CGEM_INTR_EN then k OR v
     else if r = CGEM_INTR_DIS then k AND NOT v else k) (reg_log m) 0"

lemma irq_mask_wr:
  "irq_mask (wr m r v) = (if r = CGEM_INTR_EN then irq_mask m OR v
     else if r = CGEM_INTR_DIS then irq_mask m AND NOT v else irq_mask m)"
  by (simp add: irq_mask_def)

definition irq_on :: "eth \<Rightarrow> bool" where
  "irq_on e \<longleftrightarrow> irq_mask (mac e) AND INTR_SOURCES = INTR_SOURCES"

lemma irq_on_enable [simp]: "irq_on (WR4 CGEM_INTR_EN INTR_SOURCES e)"
proof -
  have "(x OR INTR_SOURCES) AND INTR_SOURCES = INTR_SOURCES" for x
    by (rule bit_word_eqI) (auto simp: bit_simps)
  then show ?thesis by (simp add: irq_on_def WR4_def irq_mask_wr)
qed

lemma WR4_sel [simp]:
  "tx (WR4 r v e) = tx e" "rx (WR4 r v e) = rx e" "drv_running (WR4 r v e) = drv_running e"
  "task_queued (WR4 r v e) = task_queued e" "sendq (WR4 r v e) = sendq e"
  "net_cfg_shadow (WR4 r v e) = net_cfg_shadow e" "net_ctl_shadow (WR4 r v e) = net_ctl_shadow e"
  "cap_rxcsum (WR4 r v e) = cap_rxcsum e" "cap_txcsum (WR4 r v e) = cap_txcsum e"
  "cfgw (WR4 r v e) = cfgw e" "cfg_kva (WR4 r v e) = cfg_kva e" "link_up (WR4 r v e) = link_up e"
  "lladdr (WR4 r v e) = lladdr e" "if_promisc (WR4 r v e) = if_promisc e"
  "tick_armed (WR4 r v e) = tick_armed e" "poll_armed (WR4 r v e) = poll_armed e"
  by (simp_all add: WR4_def)

lemma irq_on_wr_other: "r \<noteq> CGEM_INTR_EN \<Longrightarrow> r \<noteq> CGEM_INTR_DIS \<Longrightarrow> irq_on (WR4 r v e) = irq_on e"
  by (simp add: irq_on_def WR4_def irq_mask_wr)

lemma irq_on_cong: "mac e' = mac e \<Longrightarrow> irq_on e' = irq_on e"
  by (simp add: irq_on_def)

section \<open>The driver invariant\<close>

definition eth_inv :: "eth \<Rightarrow> bool" where
  "eth_inv e \<longleftrightarrow> tx_valid (tx e) \<and> (\<exists>bs. rx_ok (rx e) bs) \<and> rxbufs (rx e) \<le> 256
     \<and> (drv_running e \<longrightarrow> task_queued e \<or> irq_on e)"

lemma eth_invI:
  "tx_valid (tx e) \<Longrightarrow> rx_ok (rx e) bs \<Longrightarrow> rxbufs (rx e) \<le> 256 \<Longrightarrow>
   (drv_running e \<Longrightarrow> task_queued e \<or> irq_on e) \<Longrightarrow> eth_inv e"
  by (auto simp: eth_inv_def)

text \<open>An operation that leaves the rings and the running state alone and writes
  no interrupt mask register keeps the invariant.\<close>

lemma eth_inv_frame:
  "eth_inv e \<Longrightarrow> tx e' = tx e \<Longrightarrow> rx e' = rx e \<Longrightarrow> drv_running e' = drv_running e \<Longrightarrow>
   task_queued e' = task_queued e \<Longrightarrow> irq_on e' = irq_on e \<Longrightarrow> eth_inv e'"
  by (simp add: eth_inv_def)

lemma tx_valid_cong:
  "txring t' = txring t \<Longrightarrow> txring_m t' = txring_m t \<Longrightarrow> txring_m_dmamap t' = txring_m_dmamap t \<Longrightarrow>
   txring_hd_ptr t' = txring_hd_ptr t \<Longrightarrow> txring_tl_ptr t' = txring_tl_ptr t \<Longrightarrow>
   txring_queued t' = txring_queued t \<Longrightarrow> tx_valid t' = tx_valid t"
  by (simp add: tx_valid_def tx_ok_cong[of t' t])

lemma tx_stop_valid: "tx_valid (tx_stop t)"
proof -
  have "tx_valid (tx_ring_init t)" using ring_init_ok by (auto simp: tx_valid_def)
  then show ?thesis by (subst tx_valid_cong[of _ "tx_ring_init t"]) (simp_all add: tx_stop_def)
qed

lemma rx_init_rxbufs [simp]: "rxbufs (rx_ring_init r) = rxbufs r"
  by (simp add: rx_ring_init_def)

lemma filter_frame:
  "tx (cgem_rx_filter e) = tx e" "rx (cgem_rx_filter e) = rx e"
  "drv_running (cgem_rx_filter e) = drv_running e" "task_queued (cgem_rx_filter e) = task_queued e"
  "irq_on (cgem_rx_filter e) = irq_on e"
  by (simp_all add: cgem_rx_filter_def Let_def irq_on_wr_other gem_regs split: prod.splits)
     (simp_all add: irq_on_def)

lemma config_frame:
  "tx (cgem_config a b e) = tx e" "rx (cgem_config a b e) = rx e"
  "drv_running (cgem_config a b e) = drv_running e" "irq_on (cgem_config a b e)"
  by (simp_all add: cgem_config_def Let_def)

lemma reset_frame:
  "tx (cgem_reset e) = tx e" "rx (cgem_reset e) = rx e" "drv_running (cgem_reset e) = drv_running e"
  by (simp_all add: cgem_reset_def Let_def)

lemma fill_rx_ok:
  assumes "rx_ok r bs" "rxbufs r \<le> 256" "supply_ok xs"
  shows "\<exists>bs'. rx_ok (fst (cgem_fill_rqueue xs r)) bs'" "rxbufs (fst (cgem_fill_rqueue xs r)) = rxbufs r"
  using fill_ok[OF assms] by auto

lemma recv_rx_ok:
  assumes "rx_ok r bs" "rxbufs r \<le> 256" "supply_ok xs" "cgem_recv c xs r = (r', fs, er, rest)"
  shows "\<exists>bs'. rx_ok r' bs'" "rxbufs r' = rxbufs r"
proof -
  from recv_loop_ok[OF assms(1)] obtain r1 out k where l: "recv_loop (length bs) r = (r1, out)"
    "rx_ok r1 (drop k bs)" "rxbufs r1 = rxbufs r" by blast
  with fill_rx_ok[OF l(2) _ assms(3)] assms rx_ok_queued[OF assms(1)]
  show "\<exists>bs'. rx_ok r' bs'" "rxbufs r' = rxbufs r"
    by (auto simp: cgem_recv_def split: prod.splits)
qed

lemma init_locked_inv:
  assumes inv: "eth_inv e" and sup: "supply_ok supply"
  shows "eth_inv (cgem_init_locked a b supply e)"
proof (cases "drv_running e")
  case True
  then show ?thesis using inv by (simp add: cgem_init_locked_def)
next
  case False
  let ?e = "cgem_init_locked a b supply e"
  obtain bs where rx: "rx_ok (rx e) bs" "rxbufs (rx e) \<le> 256" and t: "tx_valid (tx e)"
    using inv by (auto simp: eth_inv_def)
  have "tx ?e = (tx e)\<lparr>oactive := False\<rparr>" "rx ?e = fst (cgem_fill_rqueue supply (rx e))"
    using False by (simp_all add: cgem_init_locked_def rx_fill_def config_frame Let_def)
  moreover have "irq_on ?e"
    using False config_frame(4)[of a b e] by (simp add: cgem_init_locked_def rx_fill_def irq_on_def Let_def)
  ultimately show ?thesis
    using fill_rx_ok[OF rx sup] rx t tx_valid_cong[of "(tx e)\<lparr>oactive := False\<rparr>" "tx e"]
    by (auto simp: eth_inv_def)
qed

lemma stop_inv: "eth_inv e \<Longrightarrow> \<not> drv_running e \<Longrightarrow> eth_inv (cgem_stop e)"
  using rx_init_ok tx_stop_valid
  by (auto simp: eth_inv_def cgem_stop_def Let_def reset_frame)

lemma ioctl_cap_inv: "eth_inv e \<Longrightarrow> eth_inv (ioctl_cap r t e)"
  by (erule eth_inv_frame)
     (simp_all add: ioctl_cap_def Let_def irq_on_wr_other gem_regs irq_on_def WR4_def irq_mask_wr)

lemma ioctl_flags_inv:
  assumes inv: "eth_inv e" and sup: "supply_ok supply"
  shows "eth_inv (ioctl_flags a b supply e)"
proof -
  have fl: "eth_inv (e'\<lparr>old_promisc := p, old_allmulti := m\<rparr>) = eth_inv e'" for e' p m
    by (simp add: eth_inv_def irq_on_def)
  have "eth_inv (cgem_rx_filter e)"
    using inv by (rule eth_inv_frame) (simp_all add: filter_frame)
  moreover have "eth_inv (e\<lparr>drv_running := False\<rparr>)"
    using inv by (simp add: eth_inv_def)
  ultimately show ?thesis
    using inv init_locked_inv[OF inv sup] stop_inv[of "e\<lparr>drv_running := False\<rparr>"]
    by (simp add: ioctl_flags_def Let_def fl)
qed

lemma ioctl_inv:
  assumes "eth_inv e" "supply_ok supply"
  shows "eth_inv (cgem_ioctl a b supply cmd e)"
proof -
  have "eth_inv (cgem_rx_filter e)"
    using assms(1) by (rule eth_inv_frame) (simp_all add: filter_frame)
  then show ?thesis
    using assms ioctl_flags_inv[OF assms] ioctl_cap_inv by (cases cmd) (simp_all add: cgem_ioctl_def)
qed

lemma start_tx_inv:
  assumes inv: "eth_inv e" and leg: "legal_dma d"
  shows "\<exists>e'. start_tx d e = Some e' \<and> tx_valid (tx e') \<and> rx e' = rx e \<and> drv_running e' = drv_running e
     \<and> task_queued e' = task_queued e"
proof -
  have "tx_valid (tx e)" using inv by (simp add: eth_inv_def)
  then obtain fl where ok: "tx_ok (tx e) fl" by (auto simp: tx_valid_def)
  from start_loop_ok[OF leg ok, of "net_ctl_shadow e" "sendq e" "mac e"] show ?thesis
    using \<open>tx_valid (tx e)\<close> by (auto simp: start_tx_def cgem_start_locked_def tx_valid_def)
qed


lemma recv_inv:
  assumes inv: "eth_inv e" and sup: "supply_ok supply"
  shows "tx (recv_rx supply e) = tx e" "drv_running (recv_rx supply e) = drv_running e"
    "sendq (recv_rx supply e) = sendq e" "net_ctl_shadow (recv_rx supply e) = net_ctl_shadow e"
    "\<exists>bs. rx_ok (rx (recv_rx supply e)) bs" "rxbufs (rx (recv_rx supply e)) \<le> 256"
proof -
  obtain bs where rx: "rx_ok (rx e) bs" "rxbufs (rx e) \<le> 256"
    using inv by (auto simp: eth_inv_def)
  obtain r fs er rest where c: "cgem_recv (cap_rxcsum e) supply (rx e) = (r, fs, er, rest)"
    by (metis prod_cases4)
  show "tx (recv_rx supply e) = tx e" "drv_running (recv_rx supply e) = drv_running e"
    "sendq (recv_rx supply e) = sendq e" "net_ctl_shadow (recv_rx supply e) = net_ctl_shadow e"
    "\<exists>bs. rx_ok (rx (recv_rx supply e)) bs" "rxbufs (rx (recv_rx supply e)) \<le> 256"
    using recv_rx_ok[OF rx sup c] rx(2) by (simp_all add: recv_rx_def c)
qed

text \<open>The rings of the driver, without its interrupt state.\<close>

definition rings_ok :: "eth \<Rightarrow> bool" where
  "rings_ok e \<longleftrightarrow> tx_valid (tx e) \<and> (\<exists>bs. rx_ok (rx e) bs) \<and> rxbufs (rx e) \<le> 256"

lemma eth_inv_rings: "eth_inv e \<longleftrightarrow> rings_ok e \<and> (drv_running e \<longrightarrow> task_queued e \<or> irq_on e)"
  by (auto simp: eth_inv_def rings_ok_def)

lemma rings_WR4 [simp]: "rings_ok (WR4 r v e) = rings_ok e"
  by (simp add: rings_ok_def)

lemma rings_fill: "rings_ok e \<Longrightarrow> supply_ok supply \<Longrightarrow> rings_ok (rx_fill supply e)"
  using fill_rx_ok[of "rx e"] by (auto simp: rings_ok_def rx_fill_def)

lemma rings_recv: "rings_ok e \<Longrightarrow> supply_ok supply \<Longrightarrow> rings_ok (recv_rx supply e)"
proof -
  assume r: "rings_ok e" and sup: "supply_ok supply"
  then have "eth_inv (e\<lparr>drv_running := False\<rparr>)"
    by (simp add: eth_inv_def rings_ok_def)
  from recv_inv[OF this sup] r show ?thesis
    by (auto simp: rings_ok_def recv_rx_def split: prod.splits)
qed

lemma rings_start:
  assumes "rings_ok e" "legal_dma d"
  shows "\<exists>e'. start_tx d e = Some e' \<and> rings_ok e'"
proof -
  have "eth_inv (e\<lparr>drv_running := False\<rparr>)"
    using assms by (simp add: eth_inv_def rings_ok_def)
  from start_tx_inv[OF this assms(2)] assms(1) show ?thesis
    by (auto simp: rings_ok_def start_tx_def split: option.splits)
qed

lemma rings_counts [simp]:
  "rings_ok (e\<lparr>rxoverruns := n\<rparr>) = rings_ok e" "rings_ok (e\<lparr>rxnobufs := n\<rparr>) = rings_ok e"
  by (simp_all add: rings_ok_def)

lemma task_errors_rings: "rings_ok e \<Longrightarrow> supply_ok supply \<Longrightarrow> rings_ok (task_errors supply ist e)"
  by (simp add: task_errors_def Let_def rings_fill)

text \<open>The task never gets stuck in the rings, and leaves the sources enabled
  whenever the interface is running.\<close>

lemma intr_task_inv:
  assumes inv: "rings_ok e" and leg: "legal_dma d" and s1: "supply_ok supply1" and s2: "supply_ok supply2"
  shows "\<exists>e'. cgem_intr_task d supply1 supply2 e = Some e' \<and> rings_ok e'
     \<and> (drv_running e \<longrightarrow> irq_on e' \<and> poll_armed e') \<and> (\<not> drv_running e \<longrightarrow> drv_running e' = False)"
proof (cases "drv_running e")
  case False
  then show ?thesis
    using inv by (simp add: cgem_intr_task_def rings_ok_def)
next
  case True
  define e1 where "e1 = WR4 CGEM_INTR_STAT (intr_pending e) (e\<lparr>intr_pending := 0, task_queued := False\<rparr>)"
  define e2 where "e2 = (if intr_pending e AND INTR_RX_COMPLETE \<noteq> 0 then recv_rx supply1 e1 else e1)"
  have "rings_ok e1"
    using inv by (simp add: e1_def rings_ok_def)
  then have r2: "rings_ok e2"
    using rings_recv s1 by (simp add: e2_def)
  then obtain fl where "tx_ok (tx e2) fl" by (auto simp: rings_ok_def tx_valid_def)
  from clean_tx_ok[OF this] obtain t where t: "cgem_clean_tx (tx e2) = Some t" "tx_valid t"
    by (auto simp: tx_valid_def)
  define e6 where "e6 = task_errors supply2 (intr_pending e) (e2\<lparr>tx := t\<rparr>)"
  have "rings_ok (e2\<lparr>tx := t\<rparr>)" using r2 t by (simp add: rings_ok_def)
  then have r6: "rings_ok e6" unfolding e6_def using s2 by (rule task_errors_rings)
  obtain e7 where e7: "(if sendq e6 \<noteq> [] then start_tx d e6 else Some e6) = Some e7" "rings_ok e7"
    using rings_start[OF r6 leg] r6 by (cases "sendq e6 = []") auto
  have "cgem_intr_task d supply1 supply2 e = Some ((WR4 CGEM_INTR_EN INTR_SOURCES e7)\<lparr>poll_armed := True\<rparr>)"
    unfolding cgem_intr_task_def Let_def
    using True e7(1) t(1) unfolding e2_def e6_def e1_def by simp
  moreover have "irq_on ((WR4 CGEM_INTR_EN INTR_SOURCES e7)\<lparr>poll_armed := True\<rparr>)"
    using irq_on_enable[of e7] by (simp add: irq_on_def)
  moreover have "rings_ok ((WR4 CGEM_INTR_EN INTR_SOURCES e7)\<lparr>poll_armed := True\<rparr>)"
    using e7(2) rings_WR4[of CGEM_INTR_EN INTR_SOURCES e7] by (simp add: rings_ok_def)
  ultimately show ?thesis
    using True by simp
qed


section \<open>Reachable states\<close>

text \<open>The driver, the stack and the device taking turns. The receive buffers are
  configured at most 256; the setting is not changed.\<close>

inductive eth_step :: "eth \<Rightarrow> eth \<Rightarrow> bool" where
  es_ioctl: "supply_ok supply \<Longrightarrow> eth_step e (cgem_ioctl a b supply cmd e)"
| es_ifflags: "eth_step e (e\<lparr>if_up := u, if_promisc := p, if_broadcast := bc, if_allmulti := m, maddrs := ms\<rparr>)"
| es_filter: "eth_step e (snd (cgem_intr_filter ist e))"
| es_poll: "poll_armed e \<Longrightarrow> eth_step e (cgem_gem_poll ist e)"
| es_task: "task_queued e \<Longrightarrow> legal_dma d \<Longrightarrow> supply_ok s1 \<Longrightarrow> supply_ok s2 \<Longrightarrow>
     cgem_intr_task d s1 s2 e = Some e' \<Longrightarrow> eth_step e e'"
| es_tick: "tick_armed e \<Longrightarrow> eth_step e (rp1eth_tick st1 d1 st2 d2 e)"
| es_send: "legal_dma d \<Longrightarrow> start_tx d (e\<lparr>sendq := sendq e @ q\<rparr>) = Some e' \<Longrightarrow> eth_step e e'"
| es_txdev: "eth_step e (e\<lparr>tx := tx_device h (tx e)\<rparr>)"
| es_rxdev: "eth_step e (e\<lparr>rx := rx_device h (rx e)\<rparr>)"
| es_hw: "eth_step e (e\<lparr>mac := (mac e)\<lparr>reg_val := f\<rparr>, cfgw := c\<rparr>)"

inductive eth_reachable :: "eth \<Rightarrow> bool" where
  er_attach: "rp1eth_attach ok ok ok ok phys addr e = (ok, e') \<Longrightarrow> \<not> drv_running e \<Longrightarrow> eth_reachable e'"
| er_step: "eth_reachable e \<Longrightarrow> eth_step e e' \<Longrightarrow> eth_reachable e'"

lemma tick_frame:
  "tx (rp1eth_tick st1 d1 st2 d2 e) = tx e" "rx (rp1eth_tick st1 d1 st2 d2 e) = rx e"
  "drv_running (rp1eth_tick st1 d1 st2 d2 e) = drv_running e"
  "task_queued (rp1eth_tick st1 d1 st2 d2 e) = task_queued e"
  "irq_on (rp1eth_tick st1 d1 st2 d2 e) = irq_on e"
  by (simp_all add: rp1eth_tick_def rp1eth_mdio_read_def rp1eth_update_speed_def cgem_poll_hw_stats_def
      irq_on_def WR4_def irq_mask_wr gem_regs Let_def)

lemma null_q_frame:
  "tx (null_q_regs k n q phys e) = tx e \<and> rx (null_q_regs k n q phys e) = rx e
   \<and> drv_running (null_q_regs k n q phys e) = drv_running e"
  by (induction k n q phys e rule: null_q_regs.induct) simp_all

lemma attach_inv:
  assumes "rp1eth_attach ok ok ok ok phys addr e = (ok, e')" "\<not> drv_running e"
  shows "eth_inv e'"
proof -
  have "tx_valid (tx_ring_init t)" for t using ring_init_ok by (auto simp: tx_valid_def)
  moreover have "\<exists>bs. rx_ok (rx_ring_init r) bs" for r using rx_init_ok by blast
  ultimately show ?thesis
    using assms null_q_frame
    by (auto simp: rp1eth_attach_def cgem_setup_descs_def Let_def cgem_null_qs_def reset_frame
        RP1ETH_DEFAULT_RXBUFS_def eth_inv_def split: if_splits)
qed

lemma filter_step_inv: "eth_inv e \<Longrightarrow> eth_inv (snd (cgem_intr_filter ist e))"
  by (simp add: cgem_intr_filter_def eth_inv_def)

lemma poll_step_inv: "eth_inv e \<Longrightarrow> eth_inv (cgem_gem_poll ist e)"
  by (auto simp: cgem_gem_poll_def Let_def eth_inv_def irq_on_def)

lemma send_step_inv:
  assumes inv: "eth_inv e" and leg: "legal_dma d" and st: "start_tx d (e\<lparr>sendq := sendq e @ q\<rparr>) = Some e'"
  shows "eth_inv e'"
proof -
  have "eth_inv (e\<lparr>sendq := sendq e @ q\<rparr>)" using inv by (simp add: eth_inv_def irq_on_def)
  from start_tx_inv[OF this leg] st have f: "tx_valid (tx e')" "rx e' = rx e"
    "drv_running e' = drv_running e" "task_queued e' = task_queued e" by auto
  have loop: "irq_mask m' = irq_mask m" if "start_loop d s q' (t, m) = Some (t', m', r)" for s q' t m t' m' r
    using that
    by (induction q' arbitrary: t m)
       (auto simp: tx_kick_def irq_mask_wr gem_regs split: option.splits prod.splits if_splits)
  have "irq_mask (mac e') = irq_mask (mac e)"
    using st loop by (auto simp: start_tx_def cgem_start_locked_def split: if_splits)
  with f inv show ?thesis by (simp add: eth_inv_def irq_on_def)
qed

lemma eth_step_inv:
  assumes "eth_step e e'" and inv: "eth_inv e"
  shows "eth_inv e'"
  using assms(1)
proof (cases rule: eth_step.cases)
  case (es_ioctl sp a b cmd)
  then show ?thesis using inv by (simp add: ioctl_inv)
next
  case (es_ifflags u p bc m ms)
  then show ?thesis using inv by (simp add: eth_inv_def irq_on_def)
next
  case (es_filter ist)
  then show ?thesis using inv by (simp add: filter_step_inv)
next
  case (es_poll ist)
  then show ?thesis using inv by (simp add: poll_step_inv)
next
  case (es_task d s1 s2)
  have "rings_ok e" using inv by (simp add: eth_inv_rings)
  from intr_task_inv[OF this es_task(2-4)] es_task(5) show ?thesis
    by (auto simp: eth_inv_rings)
next
  case (es_tick st1 d1 st2 d2)
  show ?thesis
    unfolding es_tick(1) using inv by (rule eth_inv_frame) (simp_all add: tick_frame)
next
  case (es_send d q)
  then show ?thesis using send_step_inv[OF inv] by blast
next
  case (es_txdev h)
  have "tx_valid (tx_device h (tx e))"
    using inv device_ok[of "tx e" _ h] unfolding eth_inv_def tx_valid_def by blast
  with es_txdev inv show ?thesis by (simp add: eth_inv_def irq_on_def)
next
  case (es_rxdev h)
  have "rxbufs (rx_device h (rx e)) = rxbufs (rx e)" by (simp add: rx_device_def Let_def)
  moreover have "\<exists>bs. rx_ok (rx_device h (rx e)) bs"
    using inv rx_device_ok[of "rx e" _ h] unfolding eth_inv_def by blast
  ultimately show ?thesis using es_rxdev inv by (simp add: eth_inv_def irq_on_def)
next
  case (es_hw f c)
  then show ?thesis using inv by (simp add: eth_inv_def irq_on_def irq_mask_def)
qed

lemma eth_reachable_inv: "eth_reachable e \<Longrightarrow> eth_inv e"
  by (induction rule: eth_reachable.induct) (blast intro: attach_inv eth_step_inv)+


section \<open>Properties\<close>

definition zero_mmio :: mmio where "zero_mmio = \<lparr>reg_val = \<lambda>r. 0, reg_log = []\<rparr>"

definition sample_eth :: eth where
  "sample_eth = \<lparr>mac = zero_mmio, cfgw = zero_mmio, cfg_kva = True, lladdr = replicate 6 0, phy_addr = 1,
     link_up = False, tick_armed = False, poll_armed = False, task_queued = False, intr_pending = 0,
     net_ctl_shadow = 0, net_cfg_shadow = 0, tx = empty_ring, rx = sample_rx, rxoverruns = 0, rxnobufs = 0,
     if_up = False, if_promisc = False, if_broadcast = True, if_allmulti = False, old_promisc = False,
     old_allmulti = False, drv_running = False, cap_rxcsum = False, cap_txcsum = False,
     cap_vlan_hwcsum = False, maddrs = [[1, 0, 0x5e, 0, 0, 1], [0x33, 0x33, 0, 0, 0, 1]],
     sendq = [], input = [], ierrors = 0, stats32 = (\<lambda>r. 0), tx_bytes = 0, rx_bytes = 0, collisions = 0\<rparr>"

text \<open>C7: The driver invariant. In every reachable state both rings are well
  formed, the interrupt task runs to its end, and a running interface always
  has a way to be served: its task is queued or its interrupt sources are
  enabled. No interleaving of the filter, the fallback poll, the task, the
  tick and the ioctls loses the interrupt.\<close>

theorem eth_reachable_served:
  assumes "eth_reachable e"
  shows "rings_ok e \<and> (drv_running e \<longrightarrow> task_queued e \<or> irq_on e)
    \<and> (\<forall>d s1 s2. legal_dma d \<and> supply_ok s1 \<and> supply_ok s2 \<longrightarrow>
         (\<exists>e'. cgem_intr_task d s1 s2 e = Some e' \<and> (drv_running e \<longrightarrow> irq_on e' \<and> poll_armed e')))"
proof -
  have inv: "eth_inv e" by (rule eth_reachable_inv) (rule assms)
  then have r: "rings_ok e" by (simp add: eth_inv_rings)
  then show ?thesis
    using inv intr_task_inv[OF r] by (simp add: eth_inv_rings) blast
qed

theorem eth_reachable_served_witness:
  "rings_ok (cgem_ioctl 0 0 [] SIOCSIFFLAGS ((snd (rp1eth_attach ok ok ok ok 0 (replicate 6 2) sample_eth))
      \<lparr>if_up := True, if_promisc := False, if_broadcast := True, if_allmulti := False, maddrs := []\<rparr>))"
proof -
  let ?a = "snd (rp1eth_attach ok ok ok ok 0 (replicate 6 2) sample_eth)"
  have "rp1eth_attach ok ok ok ok 0 (replicate 6 2) sample_eth = (ok, ?a)"
    by (simp add: rp1eth_attach_def cgem_setup_descs_def Let_def)
  then have "eth_reachable ?a"
    by (rule er_attach) (simp add: sample_eth_def)
  then have "eth_reachable (?a\<lparr>if_up := True, if_promisc := False, if_broadcast := True, if_allmulti := False, maddrs := []\<rparr>)"
    by (rule er_step) (rule es_ifflags)
  then have "eth_reachable (cgem_ioctl 0 0 [] SIOCSIFFLAGS
      (?a\<lparr>if_up := True, if_promisc := False, if_broadcast := True, if_allmulti := False, maddrs := []\<rparr>))"
    by (rule er_step) (rule es_ioctl, simp add: supply_ok_def)
  from eth_reachable_served[OF this] show ?thesis by blast
qed

text \<open>The receive filter. It never rejects an address the interface has
  joined: unless promiscuous, the hash registers it writes accept every address
  on the multicast list, and every address at all with ALLMULTI set; hashing is
  enabled exactly when there is something to accept, and the promiscuous and
  no-broadcast bits are those of the interface.\<close>

theorem rx_filter_accepts:
  "let e' = cgem_rx_filter e; h = (RD4 e' CGEM_HASH_TOP, RD4 e' CGEM_HASH_BOT); c = RD4 e' CGEM_NET_CFG in
   (bit c 4 \<longleftrightarrow> if_promisc e) \<and> (bit c 5 \<longleftrightarrow> \<not> if_promisc e \<and> \<not> if_broadcast e)
   \<and> (\<not> if_promisc e \<and> (if_allmulti e \<or> a \<in> set (maddrs e)) \<longrightarrow> bit c 6 \<and> hash_accepts h a)
   \<and> (bit c 6 \<longleftrightarrow> h \<noteq> (0, 0)) \<and> c = net_cfg_shadow e'"
proof -
  let ?m = "NET_CFG_MULTI_HASH_EN OR NET_CFG_NO_BCAST OR NET_CFG_COPY_ALL"
  define h where "h = (if if_promisc e then (0, 0) else if if_allmulti e then (0xffffffff, 0xffffffff)
      else fold cgem_hash_maddr (maddrs e) (0, 0))"
  define s where "s = (let s = net_cfg_shadow e AND NOT ?m in
     if if_promisc e then s OR NET_CFG_COPY_ALL
     else let s = (if \<not> if_broadcast e then s OR NET_CFG_NO_BCAST else s) in
       if fst h \<noteq> 0 \<or> snd h \<noteq> 0 then s OR NET_CFG_MULTI_HASH_EN else s)"
  have e': "cgem_rx_filter e = WR4 CGEM_NET_CFG s (WR4 CGEM_HASH_BOT (snd h) (WR4 CGEM_HASH_TOP (fst h)
      (e\<lparr>net_cfg_shadow := s\<rparr>)))"
    by (simp add: cgem_rx_filter_def s_def h_def Let_def)
  have bits: "bit s 4 \<longleftrightarrow> if_promisc e" "bit s 5 \<longleftrightarrow> \<not> if_promisc e \<and> \<not> if_broadcast e"
    "bit s 6 \<longleftrightarrow> h \<noteq> (0, 0)"
    by (auto simp: s_def Let_def bit_or_iff bit_and_iff bit_not_iff h_def prod_eq_iff)
  have acc: "hash_accepts h a" if "\<not> if_promisc e" "if_allmulti e \<or> a \<in> set (maddrs e)"
    using that hash_all hash_fold_accepts[of a "maddrs e" "(0, 0)"] by (auto simp: h_def)
  have nz: "h \<noteq> (0, 0)" if "hash_accepts h a"
    using hash_accepts_nonzero[OF that] by auto
  show ?thesis
    using bits acc nz by (auto simp: e' Let_def gem_regs prod_eq_iff)
qed

theorem rx_filter_accepts_witness:
  "hash_accepts (RD4 (cgem_rx_filter sample_eth) CGEM_HASH_TOP, RD4 (cgem_rx_filter sample_eth) CGEM_HASH_BOT)
     [1, 0, 0x5e, 0, 0, 1]"
  using rx_filter_accepts[of sample_eth "[1, 0, 0x5e, 0, 0, 1]"] by (simp add: Let_def sample_eth_def)

text \<open>After the configuration the speed helper always selects 1 Gb/s,
  whatever the link partner negotiated: the configuration writes the gigabit
  bit it later reads back. The clock generator is first stopped with the
  override set, then enabled.\<close>

theorem speed_always_gigabit:
  assumes "cfg_kva e"
  shows "\<exists>base. let e' = rp1eth_update_speed (cgem_config rx_phys tx_phys e) in
    reg_log (cfgw e') = reg_log (cfgw e) @ [(ETH_CFG_CLKGEN, base), (ETH_CFG_CLKGEN, base OR push_bit 7 1)]
    \<and> base AND 3 = 2 \<and> bit base 3 \<and> \<not> bit base 7 \<and> \<not> bit base 6
    \<and> bit (RD4 (cgem_config rx_phys tx_phys e) CGEM_NET_CFG) 10"
proof -
  let ?e = "cgem_config rx_phys tx_phys e"
  let ?k = "push_bit 7 1 OR push_bit 6 1 OR push_bit 9 1 OR push_bit 3 1 OR (3 :: u32)"
  let ?b = "((rd (cfgw e) ETH_CFG_CLKGEN AND NOT ?k) OR push_bit 3 1) OR 2"
  have cfg: "cfgw ?e = cfgw e" "cfg_kva ?e"
    using assms by (simp_all add: cgem_config_def Let_def)
  have gige: "bit (RD4 ?e CGEM_NET_CFG) 10"
    by (simp add: cgem_config_def Let_def gem_regs bit_or_iff)
  have test: "RD4 ?e CGEM_NET_CFG AND NET_CFG_GIGE_EN \<noteq> 0"
    using gige and_flag[OF NET_CFG_GIGE_EN_def, of "RD4 ?e CGEM_NET_CFG"] by simp
  have b3: "bit (3 :: u32) n \<longleftrightarrow> n < 2" and b2: "bit (2 :: u32) n \<longleftrightarrow> n = 1" for n
  proof -
    have "(3 :: u32) = mask 2" "(2 :: u32) = push_bit 1 1" by (simp_all add: mask_eq_exp_minus_1)
    then show "bit (3 :: u32) n \<longleftrightarrow> n < 2" "bit (2 :: u32) n \<longleftrightarrow> n = 1"
      by (simp_all only: bit_mask_iff bit_push_bit_iff bit_1_iff) auto
  qed
  have p: "bit (push_bit m 1 :: u32) n \<longleftrightarrow> n = m \<and> m < 32" for m n
    using flag_bit[OF refl, of m n, where ?'a = 32] by simp
  have k: "bit ?k n \<longleftrightarrow> n \<in> {0, 1, 3, 6, 7, 9}" for n
    unfolding bit_or_iff p b3 by auto
  have b: "bit ?b n \<longleftrightarrow> (bit (rd (cfgw e) ETH_CFG_CLKGEN) n \<and> n \<notin> {0, 1, 3, 6, 7, 9}) \<or> n = 3 \<or> n = 1" for n
    unfolding bit_or_iff bit_and_iff bit_not_iff p b3 b2 using bit_imp_le_length[of "rd (cfgw e) ETH_CFG_CLKGEN" n] by auto
  have "?b AND 3 = 2"
    by (rule bit_word_eqI) (unfold bit_and_iff b b3 b2, auto)
  moreover have "bit ?b 3" "\<not> bit ?b 7" "\<not> bit ?b 6"
    unfolding b by simp_all
  moreover have "reg_log (cfgw (rp1eth_update_speed ?e)) = reg_log (cfgw e)
      @ [(ETH_CFG_CLKGEN, ?b), (ETH_CFG_CLKGEN, ?b OR push_bit 7 1)]"
    unfolding rp1eth_update_speed_def Let_def using test cfg by (simp add: or.assoc)
  ultimately show ?thesis
    using gige unfolding Let_def by blast
qed


theorem speed_always_gigabit_witness:
  "\<exists>base. reg_log (cfgw (rp1eth_update_speed (cgem_config 0 0 sample_eth))) =
     [(ETH_CFG_CLKGEN, base), (ETH_CFG_CLKGEN, base OR push_bit 7 1)] \<and> base AND 3 = 2"
  using speed_always_gigabit[of sample_eth 0 0] by (auto simp: sample_eth_def zero_mmio_def Let_def)

text \<open>Promiscuous mode requested while the interface is down is lost. When
  the interface comes up the flag handler initialises the hardware, whose
  configuration clears the copy-all bit, and records the flags as applied, so
  the next flag call with the same flags does not program the filter either.\<close>

theorem promisc_before_up_lost:
  assumes "\<not> drv_running e" and "if_up e" and "if_promisc e"
  shows "let e1 = cgem_ioctl a b supply SIOCSIFFLAGS e; e2 = cgem_ioctl a b supply SIOCSIFFLAGS e1 in
    drv_running e1 \<and> \<not> bit (RD4 e1 CGEM_NET_CFG) 4 \<and> \<not> bit (RD4 e2 CGEM_NET_CFG) 4"
proof -
  let ?c = "cgem_config a b e"
  have fl: "if_promisc ?c = if_promisc e" "if_allmulti ?c = if_allmulti e" "if_up ?c = if_up e"
    by (simp_all add: cgem_config_def Let_def WR4_def)
  let ?m = "push_bit 18 7 OR push_bit 21 (3 :: u32)"
  have m4: "\<not> bit ?m 4" by (simp add: bit_or_iff bit_push_bit_iff del: push_bit_numeral)
  have c4: "\<not> bit (x OR (push_bit 17 1 OR push_bit 14 2 OR NET_CFG_GIGE_EN OR push_bit 8 1 OR push_bit 1 1) :: u32) 4"
    if "\<not> bit x 4" for x
    using that by (simp only: bit_or_iff bit_push_bit_iff net_cfg_bits) simp
  have cfg4: "\<not> bit (RD4 ?c CGEM_NET_CFG) 4"
    using c4[of "net_cfg_shadow e AND ?m"] m4
    by (simp add: cgem_config_def Let_def gem_regs bit_or_iff bit_and_iff del: push_bit_numeral)
  let ?e1 = "cgem_ioctl a b supply SIOCSIFFLAGS e"
  have e1: "drv_running ?e1" "RD4 ?e1 CGEM_NET_CFG = RD4 ?c CGEM_NET_CFG" "if_up ?e1"
    "old_promisc ?e1 = if_promisc ?e1" "old_allmulti ?e1 = if_allmulti ?e1"
    using assms by (simp_all add: cgem_ioctl_def ioctl_flags_def cgem_init_locked_def rx_fill_def RD4_def Let_def fl)
  have "RD4 (cgem_ioctl a b supply SIOCSIFFLAGS ?e1) CGEM_NET_CFG = RD4 ?e1 CGEM_NET_CFG"
    using e1 by (simp add: cgem_ioctl_def[of a b "supply" SIOCSIFFLAGS "?e1"] ioctl_flags_def RD4_def Let_def)
  with e1 cfg4 show ?thesis by (simp add: Let_def)
qed

theorem promisc_before_up_lost_witness:
  "\<not> bit (RD4 (cgem_ioctl 0 0 [] SIOCSIFFLAGS (sample_eth\<lparr>if_up := True, if_promisc := True\<rparr>)) CGEM_NET_CFG) 4"
  using promisc_before_up_lost[of "sample_eth\<lparr>if_up := True, if_promisc := True\<rparr>" 0 0 "[]"]
  by (simp add: Let_def sample_eth_def)

lemma mdio_idle_iff: "mdio_idle n stat k \<longleftrightarrow> (\<exists>j < n. bit (stat (k + j)) 2)"
proof (induction n arbitrary: k)
  case 0
  then show ?case by simp
next
  case (Suc n)
  have t: "stat k AND push_bit 2 1 \<noteq> 0 \<longleftrightarrow> bit (stat k) 2"
    using and_flag[OF refl, of 2 "stat k"] by simp
  have "(\<exists>j < Suc n. bit (stat (k + j)) 2) \<longleftrightarrow> bit (stat k) 2 \<or> (\<exists>j < n. bit (stat (k + 1 + j)) 2)"
    by (auto simp: less_Suc_eq_0_disj)
  with Suc t show ?case by simp
qed

text \<open>Management reads. The answer is the 16 data bits as soon as one of at
  most 201 status reads shows the bus idle, and an error otherwise; the frame
  written carries the two addresses in their fields.\<close>

theorem mdio_read_result:
  "fst (rp1eth_mdio_read stat data phy reg e) =
     (if \<exists>j < 201. bit (stat j) 2 then Some (data AND 0xffff) else None)
   \<and> reg_log (mac (snd (rp1eth_mdio_read stat data phy reg e)))
     = reg_log (mac e) @ [(CGEM_PHY_MAINT, mdio_frame phy reg)]"
  by (simp add: rp1eth_mdio_read_def Let_def mdio_idle_iff WR4_def del: mdio_idle.simps)

theorem mdio_read_result_witness:
  "fst (rp1eth_mdio_read (\<lambda>k. if k = 200 then 4 else 0) 0x12345 1 1 sample_eth) = Some 0x2345"
proof -
  have "bit (4 :: u32) 2" using flag_bit[OF refl, of 2 2, where ?'a = 32] by simp
  then have "\<exists>j < (201 :: nat). bit ((if j = 200 then 4 else 0) :: u32) 2"
    by (intro exI[of _ 200]) simp
  then show ?thesis
    using mdio_read_result[of "\<lambda>k. if k = 200 then 4 else 0" "0x12345" 1 1 sample_eth] by simp
qed

section \<open>Callbacks and nodes\<close>

text \<open>The callback of a DMA load: the address of the only segment.\<close>

definition cgem_getaddr :: "nat list \<Rightarrow> rc \<Rightarrow> nat \<Rightarrow> nat" where
  "cgem_getaddr segs err arg = (if length segs \<noteq> 1 \<or> err \<noteq> ok then arg else segs ! 0)"

datatype ifm = IFM_ETHER | IFM_1000_T | IFM_FDX | IFM_AVALID | IFM_ACTIVE

definition rp1eth_ifmedia_upd :: "eth \<Rightarrow> rc \<times> eth" where "rp1eth_ifmedia_upd e = (ok, e)"

text \<open>Status and active medium: gigabit and full duplex whatever the PHY agreed on.\<close>

definition rp1eth_ifmedia_sts :: "eth \<Rightarrow> ifm set \<times> ifm set" where
  "rp1eth_ifmedia_sts e =
     ({IFM_AVALID} \<union> (if link_up e then {IFM_ACTIVE} else {}), {IFM_ETHER, IFM_1000_T, IFM_FDX})"

text \<open>The nodes of the driver, with those that can be written.\<close>

definition rp1eth_add_sysctls :: "(string \<times> bool) list" where
  "rp1eth_add_sysctls = [(''rxbufs'', True), (''_rxoverruns'', False), (''_rxnobufs'', False), (''_rxdmamapfails'', False),
     (''_txfull'', False), (''_txdmamapfails'', False), (''_txdefrags'', False), (''stats.tx_bytes'', False), (''stats.tx_frames'', False),
     (''stats.tx_under_runs'', False), (''stats.rx_bytes'', False), (''stats.rx_frames'', False), (''stats.rx_frames_fcs_errs'', False),
     (''stats.rx_overrun_errs'', False)]"

text \<open>The medium shown does not depend on what the link was resolved to.\<close>

lemma media_fixed: "snd (rp1eth_ifmedia_sts (rp1eth_update_speed e)) = snd (rp1eth_ifmedia_sts e)"
  by (simp add: rp1eth_ifmedia_sts_def)

end
