(* ===== verification/Rp1Gpio.thy ===== *)
theory Rp1Gpio
  imports Prelude
begin

text \<open>
  The GPIO controller of the RP1 (src/rp1_gpio.c, src/rp1_gpio_var.h): the pin
  to register arithmetic, the three register windows with the atomic aliases of
  the RIO block, the pin table with the names read from the device tree, the
  gpio interface methods, and attach and detach. The specification is a list
  of 54 pins; the methods refine it over every history.
\<close>

section \<open>Pins, banks and registers\<close>

definition RP1_NUM_GPIOS :: nat where "RP1_NUM_GPIOS = 54"

definition RP1_GPIO_BANK :: "nat \<Rightarrow> nat" where
  "RP1_GPIO_BANK pin = (if pin < 28 then 0 else if pin < 34 then 1 else 2)"

definition RP1_GPIO_PIN_IN_BANK :: "nat \<Rightarrow> nat" where
  "RP1_GPIO_PIN_IN_BANK pin = (if pin < 28 then pin else if pin < 34 then pin - 28 else pin - 34)"

definition RP1_BANK_OFFSET :: "nat \<Rightarrow> nat" where
  "RP1_BANK_OFFSET bank = bank * 0x4000"

definition RP1_IO_CTRL :: "nat \<Rightarrow> nat" where
  "RP1_IO_CTRL idx = idx * 8 + 4"

definition RP1_PAD_OFF :: "nat \<Rightarrow> nat \<Rightarrow> nat" where
  "RP1_PAD_OFF bank idx = RP1_BANK_OFFSET bank + (idx + 1) * 4"

definition RP1_RIO_OFF :: "nat \<Rightarrow> nat \<Rightarrow> nat \<Rightarrow> nat" where
  "RP1_RIO_OFF bank als reg = RP1_BANK_OFFSET bank + als + reg"

definition RP1_RIO_RW :: nat where "RP1_RIO_RW = 0"

definition RP1_RIO_XOR :: nat where "RP1_RIO_XOR = 0x1000"

definition RP1_RIO_SET :: nat where "RP1_RIO_SET = 0x2000"

definition RP1_RIO_CLR :: nat where "RP1_RIO_CLR = 0x3000"

definition RP1_RIO_OUT :: nat where "RP1_RIO_OUT = 0"

definition RP1_RIO_OE :: nat where "RP1_RIO_OE = 4"

definition RP1_RIO_IN_SYNC :: nat where "RP1_RIO_IN_SYNC = 0xc"

definition RP1_CTRL_FUNCSEL_MASK :: u32 where "RP1_CTRL_FUNCSEL_MASK = 0x1f"

definition RP1_CTRL_OUTOVER_MASK :: u32 where "RP1_CTRL_OUTOVER_MASK = push_bit 12 3"

definition RP1_CTRL_OEOVER_MASK :: u32 where "RP1_CTRL_OEOVER_MASK = push_bit 14 3"

definition RP1_FSEL_GPIO :: u32 where "RP1_FSEL_GPIO = 5"

definition RP1_PAD_IE :: u32 where "RP1_PAD_IE = push_bit 0 1"

text \<open>The flags of sys/gpio.h.\<close>

definition GPIO_PIN_INPUT :: u32 where "GPIO_PIN_INPUT = 0x1"

definition GPIO_PIN_OUTPUT :: u32 where "GPIO_PIN_OUTPUT = 0x2"

definition GPIO_PIN_PULLUP :: u32 where "GPIO_PIN_PULLUP = 0x20"

definition GPIO_PIN_PULLDOWN :: u32 where "GPIO_PIN_PULLDOWN = 0x40"

definition GPIO_PIN_INVIN :: u32 where "GPIO_PIN_INVIN = 0x80"

definition GPIO_PIN_INVOUT :: u32 where "GPIO_PIN_INVOUT = 0x100"

definition GPIOMAXNAME :: nat where "GPIOMAXNAME = 64"

lemmas gpio_consts = RP1_NUM_GPIOS_def RP1_GPIO_BANK_def RP1_GPIO_PIN_IN_BANK_def RP1_BANK_OFFSET_def

lemmas rio_aliases = RP1_RIO_RW_def RP1_RIO_XOR_def RP1_RIO_SET_def RP1_RIO_CLR_def

text \<open>The bit of a pin in the registers of its bank, 1u << RP1_GPIO_PIN_IN_BANK(pin).\<close>

definition pin_bit :: "nat \<Rightarrow> u32" where
  "pin_bit pin = push_bit (RP1_GPIO_PIN_IN_BANK pin) 1"

section \<open>State\<close>

record gpio_pin =
  gp_pin :: nat
  gp_caps :: u32
  gp_flags :: u32
  gp_name :: string

datatype gpio_region = IO_BANK | SYS_RIO | PADS_BANK

text \<open>The softc, where a mapping pointer is whether it is set, with the three
  windows behind the pointers and the windows mapped at the moment.\<close>

record gpio_softc =
  sc_busdev :: bool
  sc_mtx :: bool
  sc_io_kva :: bool
  sc_rio_kva :: bool
  sc_pad_kva :: bool
  sc_npins :: nat
  sc_pins :: "gpio_pin list"
  io_bank :: mmio
  sys_rio :: mmio
  pads_bank :: mmio
  gpio_mapped :: "gpio_region list"

section \<open>Register accessors\<close>

definition io_off :: "nat \<Rightarrow> nat" where
  "io_off pin = RP1_BANK_OFFSET (RP1_GPIO_BANK pin) + RP1_IO_CTRL (RP1_GPIO_PIN_IN_BANK pin)"

definition rp1_io_read :: "gpio_softc \<Rightarrow> nat \<Rightarrow> u32" where
  "rp1_io_read sc pin = rd (io_bank sc) (io_off pin)"

definition rp1_io_write :: "nat \<Rightarrow> u32 \<Rightarrow> gpio_softc \<Rightarrow> gpio_softc" where
  "rp1_io_write pin v sc = sc\<lparr>io_bank := wr (io_bank sc) (io_off pin) v\<rparr>"

text \<open>The RIO block as rp1_gpio_var.h documents it: a store to one of the four
  aliases of a register writes it, toggles, sets or clears its bits.\<close>

definition rio_store :: "nat \<Rightarrow> u32 \<Rightarrow> mmio \<Rightarrow> mmio" where
  "rio_store off v m =
     (let base = off div 0x4000 * 0x4000 + off mod 0x1000;
          als = off mod 0x4000 div 0x1000 * 0x1000;
          old = rd m base
      in m\<lparr>reg_val := (reg_val m)(base :=
                 if als = RP1_RIO_XOR then old XOR v
                 else if als = RP1_RIO_SET then old OR v
                 else if als = RP1_RIO_CLR then old AND NOT v
                 else v),
           reg_log := reg_log m @ [(off, v)]\<rparr>)"

definition rp1_rio_read :: "gpio_softc \<Rightarrow> nat \<Rightarrow> nat \<Rightarrow> nat \<Rightarrow> u32" where
  "rp1_rio_read sc bank als reg = rd (sys_rio sc) (RP1_RIO_OFF bank als reg)"

definition rp1_rio_write :: "nat \<Rightarrow> nat \<Rightarrow> nat \<Rightarrow> u32 \<Rightarrow> gpio_softc \<Rightarrow> gpio_softc" where
  "rp1_rio_write bank als reg v sc = sc\<lparr>sys_rio := rio_store (RP1_RIO_OFF bank als reg) v (sys_rio sc)\<rparr>"

definition pad_off :: "nat \<Rightarrow> nat" where
  "pad_off pin = RP1_PAD_OFF (RP1_GPIO_BANK pin) (RP1_GPIO_PIN_IN_BANK pin)"

definition rp1_pad_read :: "gpio_softc \<Rightarrow> nat \<Rightarrow> u32" where
  "rp1_pad_read sc pin = rd (pads_bank sc) (pad_off pin)"

definition rp1_pad_write :: "nat \<Rightarrow> u32 \<Rightarrow> gpio_softc \<Rightarrow> gpio_softc" where
  "rp1_pad_write pin v sc = sc\<lparr>pads_bank := wr (pads_bank sc) (pad_off pin) v\<rparr>"

section \<open>Pin names\<close>

text \<open>A C string at p runs to the next NUL of the memory, which starts with the
  property of slen bytes and goes on behind it.\<close>

definition cstr :: "string \<Rightarrow> nat \<Rightarrow> string" where
  "cstr mem p = takeWhile (\<lambda>c. c \<noteq> CHR 0x00) (drop p mem)"

definition strnlen :: "string \<Rightarrow> nat \<Rightarrow> nat \<Rightarrow> nat" where
  "strnlen mem p n = length (takeWhile (\<lambda>c. c \<noteq> CHR 0x00) (take n (drop p mem)))"

fun decimal :: "nat \<Rightarrow> string" where
  "decimal n = (if n < 10 then [char_of (48 + n)] else decimal (n div 10) @ [char_of (48 + n mod 10)])"

definition default_name :: "nat \<Rightarrow> string" where
  "default_name i = take (GPIOMAXNAME - 1) (''pin'' @ decimal i)"

fun pin_names_loop :: "string \<Rightarrow> nat \<Rightarrow> nat \<Rightarrow> nat \<Rightarrow> nat \<Rightarrow> string list" where
  "pin_names_loop mem slen p i 0 = []"
| "pin_names_loop mem slen p i (Suc n) =
     (if p \<ge> slen \<or> mem ! p = CHR 0x00 \<or> cstr mem p = ''-'' then default_name i
      else take (GPIOMAXNAME - 1) (cstr mem p))
     # pin_names_loop mem slen (if p < slen then p + strnlen mem p (slen - p) + 1 else p) (i + 1) n"

text \<open>line_names is the property if the node has one of positive length.\<close>

definition rp1_gpio_parse_pin_names :: "string option \<Rightarrow> string \<Rightarrow> string list" where
  "rp1_gpio_parse_pin_names line_names after =
     (case line_names of
        Some buf \<Rightarrow> pin_names_loop (buf @ after) (length buf) 0 0 RP1_NUM_GPIOS
      | None \<Rightarrow> map default_name [0..<RP1_NUM_GPIOS])"

section \<open>The gpio interface\<close>

definition rp1_gpio_get_bus :: "gpio_softc \<Rightarrow> bool" where
  "rp1_gpio_get_bus sc = sc_busdev sc"

definition rp1_gpio_pin_max :: nat where
  "rp1_gpio_pin_max = RP1_NUM_GPIOS - 1"

definition rp1_gpio_pin_getname :: "nat \<Rightarrow> gpio_softc \<Rightarrow> string result" where
  "rp1_gpio_pin_getname pin sc =
     (if pin \<ge> sc_npins sc then Inl EINVAL
      else Inr (take (GPIOMAXNAME - 1) (gp_name (sc_pins sc ! pin))))"

definition rp1_gpio_pin_getcaps :: "nat \<Rightarrow> gpio_softc \<Rightarrow> u32 result" where
  "rp1_gpio_pin_getcaps pin sc =
     (if pin \<ge> sc_npins sc then Inl EINVAL else Inr (gp_caps (sc_pins sc ! pin)))"

text \<open>What attach and getflags read off the hardware: the direction of a pin in
  software mode, 0 for a pin a peripheral owns.\<close>

definition hw_flags :: "gpio_softc \<Rightarrow> nat \<Rightarrow> u32" where
  "hw_flags sc pin =
     (if rp1_io_read sc pin AND RP1_CTRL_FUNCSEL_MASK = RP1_FSEL_GPIO then
        (if rp1_rio_read sc (RP1_GPIO_BANK pin) RP1_RIO_RW RP1_RIO_OE
             AND pin_bit pin \<noteq> 0
         then GPIO_PIN_OUTPUT else GPIO_PIN_INPUT)
      else 0)"

definition set_gp_flags :: "nat \<Rightarrow> u32 \<Rightarrow> gpio_softc \<Rightarrow> gpio_softc" where
  "set_gp_flags pin fl sc = sc\<lparr>sc_pins := (sc_pins sc)[pin := (sc_pins sc ! pin)\<lparr>gp_flags := fl\<rparr>]\<rparr>"

definition rp1_gpio_pin_getflags :: "nat \<Rightarrow> gpio_softc \<Rightarrow> u32 result \<times> gpio_softc" where
  "rp1_gpio_pin_getflags pin sc =
     (if pin \<ge> sc_npins sc then (Inl EINVAL, sc)
      else let fl = hw_flags sc pin in (Inr fl, set_gp_flags pin fl sc))"

definition rp1_gpio_pin_setflags :: "nat \<Rightarrow> u32 \<Rightarrow> gpio_softc \<Rightarrow> rc \<times> gpio_softc" where
  "rp1_gpio_pin_setflags pin fl sc =
     (if pin \<ge> sc_npins sc then (fail EINVAL, sc)
      else if fl AND (GPIO_PIN_INPUT OR GPIO_PIN_OUTPUT) = 0 then (ok, sc)
      else let bank = RP1_GPIO_BANK pin;
               b = pin_bit pin;
               ctrl = rp1_io_read sc pin;
               ctrl = ctrl AND NOT (RP1_CTRL_FUNCSEL_MASK OR RP1_CTRL_OUTOVER_MASK OR RP1_CTRL_OEOVER_MASK);
               ctrl = ctrl OR RP1_FSEL_GPIO;
               sc1 = rp1_io_write pin ctrl sc;
               sc2 = (if fl AND GPIO_PIN_OUTPUT \<noteq> 0 then rp1_rio_write bank RP1_RIO_SET RP1_RIO_OE b sc1
                      else rp1_rio_write bank RP1_RIO_CLR RP1_RIO_OE b sc1);
               sc3 = rp1_pad_write pin (rp1_pad_read sc2 pin OR RP1_PAD_IE) sc2
           in (ok, set_gp_flags pin (fl AND (GPIO_PIN_INPUT OR GPIO_PIN_OUTPUT OR GPIO_PIN_PULLUP
                     OR GPIO_PIN_PULLDOWN)) sc3))"

definition rp1_gpio_pin_get :: "nat \<Rightarrow> gpio_softc \<Rightarrow> u32 result" where
  "rp1_gpio_pin_get pin sc =
     (if pin \<ge> sc_npins sc then Inl EINVAL
      else Inr (drop_bit (RP1_GPIO_PIN_IN_BANK pin)
                  (rp1_rio_read sc (RP1_GPIO_BANK pin) RP1_RIO_RW RP1_RIO_IN_SYNC) AND 1))"

definition rp1_gpio_pin_set :: "nat \<Rightarrow> u32 \<Rightarrow> gpio_softc \<Rightarrow> rc \<times> gpio_softc" where
  "rp1_gpio_pin_set pin v sc =
     (if pin \<ge> sc_npins sc then (fail EINVAL, sc)
      else (ok, rp1_rio_write (RP1_GPIO_BANK pin) (if v \<noteq> 0 then RP1_RIO_SET else RP1_RIO_CLR)
                  RP1_RIO_OUT (pin_bit pin) sc))"

definition rp1_gpio_pin_toggle :: "nat \<Rightarrow> gpio_softc \<Rightarrow> rc \<times> gpio_softc" where
  "rp1_gpio_pin_toggle pin sc =
     (if pin \<ge> sc_npins sc then (fail EINVAL, sc)
      else (ok, rp1_rio_write (RP1_GPIO_BANK pin) RP1_RIO_XOR RP1_RIO_OUT
                  (pin_bit pin) sc))"

text \<open>Decoding a two-cell specifier, and the pinctrl method that does nothing yet.\<close>

definition rp1_gpio_map_gpios :: "u32 list \<Rightarrow> u32 \<times> u32" where
  "rp1_gpio_map_gpios cells = (cells ! 0, cells ! 1)"

definition rp1_gpio_configure_pins :: rc where
  "rp1_gpio_configure_pins = ok"

section \<open>Identify, attach and detach\<close>

text \<open>The node is looked up under the known paths; node_at answers for a path
  the compatibility of the node found there, if any.\<close>

definition rp1_gpio_fdt_paths :: "string list" where
  "rp1_gpio_fdt_paths = [''/axi/pcie@1000120000/rp1/gpio@d0000'', ''/soc/rp1/gpio@d0000'']"

definition rp1_gpio_find_node :: "(string \<Rightarrow> bool option) \<Rightarrow> string option" where
  "rp1_gpio_find_node node_at = find (\<lambda>p. node_at p = Some True) rp1_gpio_fdt_paths"

definition rp1_gpio_identify :: "(string \<Rightarrow> bool option) \<Rightarrow> bool \<Rightarrow> bool \<Rightarrow> bool" where
  "rp1_gpio_identify node_at has_child add_ok =
     (if rp1_gpio_find_node node_at = None then has_child
      else if has_child then True
      else add_ok)"

definition rp1_gpio_detach :: "gpio_softc \<Rightarrow> gpio_softc" where
  "rp1_gpio_detach sc0 =
     (let sc1 = sc0\<lparr>sc_busdev := False, sc_mtx := False\<rparr>;
          sc2 = (if sc_pad_kva sc1 then sc1\<lparr>gpio_mapped := remove1 PADS_BANK (gpio_mapped sc1), sc_pad_kva := False\<rparr> else sc1);
          sc3 = (if sc_rio_kva sc2 then sc2\<lparr>gpio_mapped := remove1 SYS_RIO (gpio_mapped sc2), sc_rio_kva := False\<rparr> else sc2)
      in (if sc_io_kva sc3 then sc3\<lparr>gpio_mapped := remove1 IO_BANK (gpio_mapped sc3), sc_io_kva := False\<rparr> else sc3))"

definition gpio_caps :: u32 where
  "gpio_caps = GPIO_PIN_INPUT OR GPIO_PIN_OUTPUT OR GPIO_PIN_PULLUP OR GPIO_PIN_PULLDOWN
     OR GPIO_PIN_INVIN OR GPIO_PIN_INVOUT"

definition pin_table :: "string list \<Rightarrow> gpio_softc \<Rightarrow> gpio_pin list" where
  "pin_table names sc =
     map (\<lambda>i. \<lparr>gp_pin = i, gp_caps = gpio_caps, gp_flags = hw_flags sc i, gp_name = names ! i\<rparr>)
       [0..<RP1_NUM_GPIOS]"

text \<open>maps_ok are the outcomes of the three pmap_mapdev_attr calls, bus_ok that of
  gpiobus_add_bus.\<close>

definition rp1_gpio_attach ::
  "(string \<Rightarrow> bool option) \<Rightarrow> bool \<times> bool \<times> bool \<Rightarrow> string option \<Rightarrow> string \<Rightarrow> bool
     \<Rightarrow> gpio_softc \<Rightarrow> rc \<times> gpio_softc" where
  "rp1_gpio_attach node_at maps_ok line_names after bus_ok sc =
     (let sc = sc\<lparr>sc_npins := RP1_NUM_GPIOS\<rparr>; (io_ok, rio_ok, pad_ok) = maps_ok in
      if rp1_gpio_find_node node_at = None then (fail ENXIO, sc)
      else if \<not> io_ok then (fail ENOMEM, sc\<lparr>sc_io_kva := False\<rparr>)
      else let sc = sc\<lparr>sc_io_kva := True, gpio_mapped := IO_BANK # gpio_mapped sc\<rparr> in
      if \<not> rio_ok then
        (fail ENOMEM, sc\<lparr>sc_rio_kva := False, gpio_mapped := remove1 IO_BANK (gpio_mapped sc)\<rparr>)
      else let sc = sc\<lparr>sc_rio_kva := True, gpio_mapped := SYS_RIO # gpio_mapped sc\<rparr> in
      if \<not> pad_ok then
        (fail ENOMEM, sc\<lparr>sc_pad_kva := False,
           gpio_mapped := remove1 IO_BANK (remove1 SYS_RIO (gpio_mapped sc))\<rparr>)
      else let sc = sc\<lparr>sc_pad_kva := True, gpio_mapped := PADS_BANK # gpio_mapped sc, sc_mtx := True\<rparr>;
               sc = sc\<lparr>sc_pins := pin_table (rp1_gpio_parse_pin_names line_names after) sc\<rparr>;
               sc = sc\<lparr>sc_busdev := bus_ok\<rparr>
           in if \<not> bus_ok then (fail ENXIO, rp1_gpio_detach sc) else (ok, sc))"

section \<open>Lemmas on the register arithmetic\<close>

lemma pin_coordinates_inject:
  "RP1_GPIO_BANK p = RP1_GPIO_BANK q \<Longrightarrow> RP1_GPIO_PIN_IN_BANK p = RP1_GPIO_PIN_IN_BANK q \<Longrightarrow> p = q"
  by (auto simp: RP1_GPIO_BANK_def RP1_GPIO_PIN_IN_BANK_def split: if_splits)

lemma pin_in_bank_less: "p < RP1_NUM_GPIOS \<Longrightarrow> RP1_GPIO_PIN_IN_BANK p < 28"
  by (auto simp: RP1_NUM_GPIOS_def RP1_GPIO_PIN_IN_BANK_def)

lemma io_off_inject:
  assumes "p < RP1_NUM_GPIOS" "q < RP1_NUM_GPIOS"
  shows "io_off p = io_off q \<longleftrightarrow> p = q"
  using assms by (auto simp: io_off_def gpio_consts RP1_IO_CTRL_def split: if_splits)

lemma pad_off_inject:
  assumes "p < RP1_NUM_GPIOS" "q < RP1_NUM_GPIOS"
  shows "pad_off p = pad_off q \<longleftrightarrow> p = q"
  using assms by (auto simp: pad_off_def RP1_PAD_OFF_def gpio_consts split: if_splits)

lemma rio_decode:
  assumes "r < 0x1000" "a < 4"
  shows "RP1_RIO_OFF b (a * 0x1000) r div 0x4000 = b"
    "RP1_RIO_OFF b (a * 0x1000) r mod 0x1000 = r"
    "RP1_RIO_OFF b (a * 0x1000) r mod 0x4000 div 0x1000 = a"
proof -
  have x: "a * 0x1000 + r < 0x4000" using assms by linarith
  have off: "RP1_RIO_OFF b (a * 0x1000) r = (a * 0x1000 + r) + b * 0x4000"
    by (simp add: RP1_RIO_OFF_def RP1_BANK_OFFSET_def)
  have off': "RP1_RIO_OFF b (a * 0x1000) r = r + (a + b * 4) * 0x1000"
    by (simp add: off algebra_simps)
  show "RP1_RIO_OFF b (a * 0x1000) r div 0x4000 = b"
    unfolding off using x by simp
  show "RP1_RIO_OFF b (a * 0x1000) r mod 0x1000 = r"
    unfolding off' using assms(1) by (simp only: mod_mult_self1 mod_less)
  have "RP1_RIO_OFF b (a * 0x1000) r mod 0x4000 = r + a * 0x1000"
    unfolding off using x by (simp only: mod_mult_self1 mod_less)
  then show "RP1_RIO_OFF b (a * 0x1000) r mod 0x4000 div 0x1000 = a"
    using assms(1) by simp
qed

lemma rio_off_inject:
  assumes "r < 0x1000" "r' < 0x1000"
  shows "RP1_RIO_OFF b 0 r = RP1_RIO_OFF b' 0 r' \<longleftrightarrow> b = b' \<and> r = r'"
  using rio_decode(1,2)[of r 0 b] rio_decode(1,2)[of r' 0 b'] assms by fastforce

lemma rio_store_aliases:
  assumes "r < 0x1000" "r' < 0x1000"
  shows "rd (rio_store (RP1_RIO_OFF b RP1_RIO_SET r) v m) (RP1_RIO_OFF b' RP1_RIO_RW r')
      = (if b' = b \<and> r' = r then rd m (RP1_RIO_OFF b RP1_RIO_RW r) OR v else rd m (RP1_RIO_OFF b' RP1_RIO_RW r'))"
    and "rd (rio_store (RP1_RIO_OFF b RP1_RIO_CLR r) v m) (RP1_RIO_OFF b' RP1_RIO_RW r')
      = (if b' = b \<and> r' = r then rd m (RP1_RIO_OFF b RP1_RIO_RW r) AND NOT v else rd m (RP1_RIO_OFF b' RP1_RIO_RW r'))"
    and "rd (rio_store (RP1_RIO_OFF b RP1_RIO_XOR r) v m) (RP1_RIO_OFF b' RP1_RIO_RW r')
      = (if b' = b \<and> r' = r then rd m (RP1_RIO_OFF b RP1_RIO_RW r) XOR v else rd m (RP1_RIO_OFF b' RP1_RIO_RW r'))"
proof -
  have base: "b * 0x4000 + r = RP1_RIO_OFF b 0 r" by (simp add: RP1_RIO_OFF_def RP1_BANK_OFFSET_def)
  note dec = rio_decode[OF assms(1), of 1 b] rio_decode[OF assms(1), of 2 b] rio_decode[OF assms(1), of 3 b]
  show "rd (rio_store (RP1_RIO_OFF b RP1_RIO_SET r) v m) (RP1_RIO_OFF b' RP1_RIO_RW r')
      = (if b' = b \<and> r' = r then rd m (RP1_RIO_OFF b RP1_RIO_RW r) OR v else rd m (RP1_RIO_OFF b' RP1_RIO_RW r'))"
    using dec rio_off_inject[OF assms(2,1), of b' b]
    by (auto simp: rio_store_def Let_def rio_aliases rd_def base)
  show "rd (rio_store (RP1_RIO_OFF b RP1_RIO_CLR r) v m) (RP1_RIO_OFF b' RP1_RIO_RW r')
      = (if b' = b \<and> r' = r then rd m (RP1_RIO_OFF b RP1_RIO_RW r) AND NOT v else rd m (RP1_RIO_OFF b' RP1_RIO_RW r'))"
    using dec rio_off_inject[OF assms(2,1), of b' b]
    by (auto simp: rio_store_def Let_def rio_aliases rd_def base)
  show "rd (rio_store (RP1_RIO_OFF b RP1_RIO_XOR r) v m) (RP1_RIO_OFF b' RP1_RIO_RW r')
      = (if b' = b \<and> r' = r then rd m (RP1_RIO_OFF b RP1_RIO_RW r) XOR v else rd m (RP1_RIO_OFF b' RP1_RIO_RW r'))"
    using dec rio_off_inject[OF assms(2,1), of b' b]
    by (auto simp: rio_store_def Let_def rio_aliases rd_def base)
qed

section \<open>The controller as 54 independent pins\<close>

text \<open>What a client may rely on of one pin: whether software owns it, whether its
  control register overrides the output or its enable, whether it drives the
  pad, the level it would drive and whether the input buffer is on.\<close>

record pin_view =
  software :: bool
  overridden :: bool
  drives :: bool
  level :: bool
  senses :: bool

definition pin_view_of :: "gpio_softc \<Rightarrow> nat \<Rightarrow> pin_view" where
  "pin_view_of sc p =
     \<lparr>software = (rp1_io_read sc p AND RP1_CTRL_FUNCSEL_MASK = RP1_FSEL_GPIO),
      overridden = (rp1_io_read sc p AND (RP1_CTRL_OUTOVER_MASK OR RP1_CTRL_OEOVER_MASK) \<noteq> 0),
      drives = bit (rp1_rio_read sc (RP1_GPIO_BANK p) RP1_RIO_RW RP1_RIO_OE) (RP1_GPIO_PIN_IN_BANK p),
      level = bit (rp1_rio_read sc (RP1_GPIO_BANK p) RP1_RIO_RW RP1_RIO_OUT) (RP1_GPIO_PIN_IN_BANK p),
      senses = bit (rp1_pad_read sc p) 0\<rparr>"

definition gpio_abs :: "gpio_softc \<Rightarrow> pin_view list" where
  "gpio_abs sc = map (pin_view_of sc) [0..<RP1_NUM_GPIOS]"

datatype gpio_op = PinSet nat u32 | PinToggle nat | PinSetFlags nat u32 | PinGetFlags nat

definition gpio_step :: "gpio_op \<Rightarrow> gpio_softc \<Rightarrow> gpio_softc" where
  "gpio_step x sc = (case x of
     PinSet p v \<Rightarrow> snd (rp1_gpio_pin_set p v sc)
   | PinToggle p \<Rightarrow> snd (rp1_gpio_pin_toggle p sc)
   | PinSetFlags p fl \<Rightarrow> snd (rp1_gpio_pin_setflags p fl sc)
   | PinGetFlags p \<Rightarrow> snd (rp1_gpio_pin_getflags p sc))"

definition gpio_spec :: "gpio_op \<Rightarrow> pin_view list \<Rightarrow> pin_view list" where
  "gpio_spec x ps = (case x of
     PinSet p v \<Rightarrow> ps[p := (ps ! p)\<lparr>level := v \<noteq> 0\<rparr>]
   | PinToggle p \<Rightarrow> ps[p := (ps ! p)\<lparr>level := \<not> level (ps ! p)\<rparr>]
   | PinSetFlags p fl \<Rightarrow>
       (if \<not> bit fl 0 \<and> \<not> bit fl 1 then ps
        else ps[p := (ps ! p)\<lparr>software := True, overridden := False, drives := bit fl 1, senses := True\<rparr>])
   | PinGetFlags p \<Rightarrow> ps)"

definition gpio_ok :: "gpio_softc \<Rightarrow> bool" where
  "gpio_ok sc \<longleftrightarrow> sc_npins sc = RP1_NUM_GPIOS \<and> length (sc_pins sc) = RP1_NUM_GPIOS"

lemma length_gpio_abs [simp]: "length (gpio_abs sc) = RP1_NUM_GPIOS"
  by (simp add: gpio_abs_def)

lemma gpio_abs_nth [simp]: "p < RP1_NUM_GPIOS \<Longrightarrow> gpio_abs sc ! p = pin_view_of sc p"
  by (simp add: gpio_abs_def)

lemma gpio_abs_update:
  assumes "p < RP1_NUM_GPIOS" "pin_view_of sc' p = v"
    and "\<And>q. q < RP1_NUM_GPIOS \<Longrightarrow> q \<noteq> p \<Longrightarrow> pin_view_of sc' q = pin_view_of sc q"
  shows "gpio_abs sc' = (gpio_abs sc)[p := v]"
  by (rule nth_equalityI) (auto simp: nth_list_update assms)

lemma bit_pin:
  "p < RP1_NUM_GPIOS \<Longrightarrow> bit (pin_bit p) k \<longleftrightarrow> k = RP1_GPIO_PIN_IN_BANK p"
  using pin_in_bank_less[of p] unfolding pin_bit_def by (subst flag_bit[OF refl]) auto

lemmas gpio_access = rp1_io_read_def rp1_io_write_def rp1_rio_read_def rp1_rio_write_def
  rp1_pad_read_def rp1_pad_write_def

lemma cleared_field:
  fixes c a b d f :: "'a::len word"
  shows "((c AND NOT (a OR b OR d)) OR f) AND a = f AND a"
    and "((c AND NOT (a OR b OR d)) OR f) AND (b OR d) = f AND (b OR d)"
  by (rule bit_word_eqI, auto simp: bit_simps)+

lemma ctrl_fields:
  "((c AND NOT (RP1_CTRL_FUNCSEL_MASK OR RP1_CTRL_OUTOVER_MASK OR RP1_CTRL_OEOVER_MASK)) OR RP1_FSEL_GPIO)
     AND RP1_CTRL_FUNCSEL_MASK = RP1_FSEL_GPIO"
  "((c AND NOT (RP1_CTRL_FUNCSEL_MASK OR RP1_CTRL_OUTOVER_MASK OR RP1_CTRL_OEOVER_MASK)) OR RP1_FSEL_GPIO)
     AND (RP1_CTRL_OUTOVER_MASK OR RP1_CTRL_OEOVER_MASK) = 0"
  unfolding cleared_field
  by (simp_all add: RP1_CTRL_FUNCSEL_MASK_def RP1_CTRL_OUTOVER_MASK_def RP1_CTRL_OEOVER_MASK_def RP1_FSEL_GPIO_def)

lemma direction_flags:
  "fl AND (GPIO_PIN_INPUT OR GPIO_PIN_OUTPUT) = 0 \<longleftrightarrow> \<not> bit fl 0 \<and> \<not> bit fl 1"
  "fl AND GPIO_PIN_OUTPUT = 0 \<longleftrightarrow> \<not> bit fl 1"
proof -
  have i: "fl AND GPIO_PIN_INPUT = 0 \<longleftrightarrow> \<not> bit fl 0"
    by (rule and_flag) (simp_all add: GPIO_PIN_INPUT_def)
  show o: "fl AND GPIO_PIN_OUTPUT = 0 \<longleftrightarrow> \<not> bit fl 1"
    by (rule and_flag) (simp_all add: GPIO_PIN_OUTPUT_def)
  have "fl AND (GPIO_PIN_INPUT OR GPIO_PIN_OUTPUT) = 0
     \<longleftrightarrow> fl AND GPIO_PIN_INPUT = 0 \<and> fl AND GPIO_PIN_OUTPUT = 0"
    by (simp add: bit.conj_disj_distrib or_eq_0_iff)
  then show "fl AND (GPIO_PIN_INPUT OR GPIO_PIN_OUTPUT) = 0 \<longleftrightarrow> \<not> bit fl 0 \<and> \<not> bit fl 1"
    by (simp add: i o)
qed

lemma rio_regs_small: "RP1_RIO_OUT < 0x1000" "RP1_RIO_OE < 0x1000" "RP1_RIO_OUT \<noteq> RP1_RIO_OE" "RP1_RIO_OE \<noteq> RP1_RIO_OUT"
  by (simp_all add: RP1_RIO_OUT_def RP1_RIO_OE_def)

lemma other_pin_bit:
  assumes "p < RP1_NUM_GPIOS" "q < RP1_NUM_GPIOS" "q \<noteq> p" "RP1_GPIO_BANK q = RP1_GPIO_BANK p"
  shows "\<not> bit (pin_bit p) (RP1_GPIO_PIN_IN_BANK q)"
  using assms pin_coordinates_inject[of q p] by (auto simp: bit_pin)

lemma bit_not_u32: "bit (NOT (x::u32)) n \<longleftrightarrow> n < 32 \<and> \<not> bit x n"
  by (simp add: bit_not_iff)

text \<open>A store to an alias touches one bit of one register.\<close>

lemma rio_write_bit:
  assumes "p < RP1_NUM_GPIOS" "q < RP1_NUM_GPIOS" "r < 0x1000" "r' < 0x1000"
  shows "bit (rp1_rio_read (rp1_rio_write (RP1_GPIO_BANK p) RP1_RIO_SET r (pin_bit p) sc)
          (RP1_GPIO_BANK q) RP1_RIO_RW r') (RP1_GPIO_PIN_IN_BANK q)
      = (if q = p \<and> r' = r then True else bit (rp1_rio_read sc (RP1_GPIO_BANK q) RP1_RIO_RW r') (RP1_GPIO_PIN_IN_BANK q))"
    and "bit (rp1_rio_read (rp1_rio_write (RP1_GPIO_BANK p) RP1_RIO_CLR r (pin_bit p) sc)
          (RP1_GPIO_BANK q) RP1_RIO_RW r') (RP1_GPIO_PIN_IN_BANK q)
      = (if q = p \<and> r' = r then False else bit (rp1_rio_read sc (RP1_GPIO_BANK q) RP1_RIO_RW r') (RP1_GPIO_PIN_IN_BANK q))"
    and "bit (rp1_rio_read (rp1_rio_write (RP1_GPIO_BANK p) RP1_RIO_XOR r (pin_bit p) sc)
          (RP1_GPIO_BANK q) RP1_RIO_RW r') (RP1_GPIO_PIN_IN_BANK q)
      = (bit (rp1_rio_read sc (RP1_GPIO_BANK q) RP1_RIO_RW r') (RP1_GPIO_PIN_IN_BANK q) \<noteq> (q = p \<and> r' = r))"
  using pin_in_bank_less[OF assms(2)] other_pin_bit[OF assms(1,2)] assms(1,2)
  by (auto simp: rp1_rio_read_def rp1_rio_write_def rio_store_aliases assms(3,4)
      bit_or_iff bit_and_iff bit_not_u32 bit_xor_iff bit_pin dest: other_pin_bit)

lemma view_set:
  assumes "sc_npins sc = RP1_NUM_GPIOS" "p < RP1_NUM_GPIOS" "q < RP1_NUM_GPIOS"
  shows "pin_view_of (snd (rp1_gpio_pin_set p v sc)) q
     = (if q = p then (pin_view_of sc p)\<lparr>level := v \<noteq> 0\<rparr> else pin_view_of sc q)"
  using assms rio_regs_small
  by (auto simp: pin_view_of_def rp1_gpio_pin_set_def rio_write_bit)
    (simp_all add: gpio_access)

lemma view_toggle:
  assumes "sc_npins sc = RP1_NUM_GPIOS" "p < RP1_NUM_GPIOS" "q < RP1_NUM_GPIOS"
  shows "pin_view_of (snd (rp1_gpio_pin_toggle p sc)) q
     = (if q = p then (pin_view_of sc p)\<lparr>level := \<not> level (pin_view_of sc p)\<rparr> else pin_view_of sc q)"
  using assms rio_regs_small
  by (auto simp: pin_view_of_def rp1_gpio_pin_toggle_def rio_write_bit)
    (simp_all add: gpio_access)

lemma io_read_writes [simp]:
  "rp1_io_read (rp1_rio_write b a r v sc) q = rp1_io_read sc q"
  "rp1_io_read (rp1_pad_write p v sc) q = rp1_io_read sc q"
  "rp1_io_read (set_gp_flags p v sc) q = rp1_io_read sc q"
  "p < RP1_NUM_GPIOS \<Longrightarrow> q < RP1_NUM_GPIOS \<Longrightarrow>
    rp1_io_read (rp1_io_write p v sc) q = (if q = p then v else rp1_io_read sc q)"
  by (simp_all add: gpio_access set_gp_flags_def io_off_inject)

lemma rio_read_writes [simp]:
  "rp1_rio_read (rp1_io_write p v sc) b a r = rp1_rio_read sc b a r"
  "rp1_rio_read (rp1_pad_write p v sc) b a r = rp1_rio_read sc b a r"
  "rp1_rio_read (set_gp_flags p v sc) b a r = rp1_rio_read sc b a r"
  by (simp_all add: gpio_access set_gp_flags_def)

lemma pad_read_writes [simp]:
  "rp1_pad_read (rp1_io_write p v sc) q = rp1_pad_read sc q"
  "rp1_pad_read (rp1_rio_write b a r v sc) q = rp1_pad_read sc q"
  "rp1_pad_read (set_gp_flags p v sc) q = rp1_pad_read sc q"
  "p < RP1_NUM_GPIOS \<Longrightarrow> q < RP1_NUM_GPIOS \<Longrightarrow>
    rp1_pad_read (rp1_pad_write p v sc) q = (if q = p then v else rp1_pad_read sc q)"
  by (simp_all add: gpio_access set_gp_flags_def pad_off_inject)

lemma pad_ie_bit: "bit (x OR RP1_PAD_IE) 0"
  by (simp add: RP1_PAD_IE_def bit_or_iff)

lemma rio_write_bit_through:
  assumes "p < RP1_NUM_GPIOS" "q < RP1_NUM_GPIOS" "r < 0x1000" "r' < 0x1000"
  shows "bit (rp1_rio_read (rp1_rio_write (RP1_GPIO_BANK p) RP1_RIO_SET r (pin_bit p) (rp1_io_write i v sc))
          (RP1_GPIO_BANK q) RP1_RIO_RW r') (RP1_GPIO_PIN_IN_BANK q)
      = (if q = p \<and> r' = r then True else bit (rp1_rio_read sc (RP1_GPIO_BANK q) RP1_RIO_RW r') (RP1_GPIO_PIN_IN_BANK q))"
    and "bit (rp1_rio_read (rp1_rio_write (RP1_GPIO_BANK p) RP1_RIO_CLR r (pin_bit p) (rp1_io_write i v sc))
          (RP1_GPIO_BANK q) RP1_RIO_RW r') (RP1_GPIO_PIN_IN_BANK q)
      = (if q = p \<and> r' = r then False else bit (rp1_rio_read sc (RP1_GPIO_BANK q) RP1_RIO_RW r') (RP1_GPIO_PIN_IN_BANK q))"
  using assms by (simp_all add: rio_write_bit)

lemma view_setflags:
  assumes "sc_npins sc = RP1_NUM_GPIOS" "p < RP1_NUM_GPIOS" "q < RP1_NUM_GPIOS" "bit fl 0 \<or> bit fl 1"
  shows "pin_view_of (snd (rp1_gpio_pin_setflags p fl sc)) q
     = (if q = p then (pin_view_of sc p)\<lparr>software := True, overridden := False, drives := bit fl 1, senses := True\<rparr>
        else pin_view_of sc q)"
  using assms rio_regs_small
  by (auto simp: pin_view_of_def rp1_gpio_pin_setflags_def direction_flags ctrl_fields rio_write_bit_through
      pad_ie_bit Let_def simp del: bit.de_Morgan_disj)

lemma view_set_gp_flags: "pin_view_of (set_gp_flags p fl sc) q = pin_view_of sc q"
  by (simp add: pin_view_of_def)

lemma gpio_step_ok: "gpio_ok sc \<Longrightarrow> gpio_ok (gpio_step x sc)"
  by (cases x) (auto simp: gpio_step_def gpio_ok_def rp1_gpio_pin_set_def rp1_gpio_pin_toggle_def
      rp1_gpio_pin_setflags_def rp1_gpio_pin_getflags_def Let_def set_gp_flags_def gpio_access)

lemma out_of_range:
  assumes "gpio_ok sc" "p \<ge> RP1_NUM_GPIOS"
  shows "rp1_gpio_pin_set p v sc = (fail EINVAL, sc)" "rp1_gpio_pin_toggle p sc = (fail EINVAL, sc)"
    "rp1_gpio_pin_setflags p fl sc = (fail EINVAL, sc)" "rp1_gpio_pin_getflags p sc = (Inl EINVAL, sc)"
  using assms by (simp_all add: gpio_ok_def rp1_gpio_pin_set_def rp1_gpio_pin_toggle_def
      rp1_gpio_pin_setflags_def rp1_gpio_pin_getflags_def)

lemma gpio_step_abs:
  assumes "gpio_ok sc"
  shows "gpio_abs (gpio_step x sc) = gpio_spec x (gpio_abs sc)"
proof -
  have np: "sc_npins sc = RP1_NUM_GPIOS" using assms by (simp add: gpio_ok_def)
  show ?thesis
  proof (cases x)
    case (PinSet p v)
    then show ?thesis using assms np
      by (cases "p < RP1_NUM_GPIOS", force simp: gpio_step_def gpio_spec_def view_set intro!: gpio_abs_update)
        (simp add: gpio_step_def gpio_spec_def out_of_range not_less list_update_beyond)
  next
    case (PinToggle p)
    then show ?thesis using assms np
      by (cases "p < RP1_NUM_GPIOS", force simp: gpio_step_def gpio_spec_def view_toggle intro!: gpio_abs_update)
        (simp add: gpio_step_def gpio_spec_def out_of_range not_less list_update_beyond)
  next
    case (PinSetFlags p fl)
    show ?thesis
    proof (cases "p < RP1_NUM_GPIOS \<and> (bit fl 0 \<or> bit fl 1)")
      case True
      then show ?thesis using PinSetFlags np
        by (auto simp: gpio_step_def gpio_spec_def view_setflags intro!: gpio_abs_update)
    next
      case False
      then show ?thesis using PinSetFlags assms np
        by (cases "p < RP1_NUM_GPIOS")
          (auto simp: gpio_step_def gpio_spec_def out_of_range rp1_gpio_pin_setflags_def direction_flags not_less list_update_beyond)
    qed
  next
    case (PinGetFlags p)
    then show ?thesis
      by (auto simp: gpio_step_def gpio_spec_def rp1_gpio_pin_getflags_def Let_def gpio_abs_def view_set_gp_flags)
  qed
qed

interpretation gpio: simulation gpio_ok gpio_step gpio_spec gpio_abs
  by unfold_locales (simp_all add: gpio_step_ok gpio_step_abs)

section \<open>Properties\<close>

text \<open>C8: Over every history of set, toggle, setflags and getflags calls the
  controller behaves as 54 independent pins: a call on one pin changes the
  level, direction and ownership of that pin as specified and nothing of any
  other, although pins share the words of the RIO block, and calls on a pin
  number from 54 on change nothing.\<close>

theorem gpio_refines:
  assumes "gpio_ok sc"
  shows "gpio_ok (fold gpio_step ops sc)
    \<and> gpio_abs (fold gpio_step ops sc) = fold gpio_spec ops (gpio_abs sc)"
  using assms by (rule gpio.run_simulates)

definition blank_window :: mmio where
  "blank_window = \<lparr>reg_val = (\<lambda>_. 0), reg_log = []\<rparr>"

definition blank_gpio :: gpio_softc where
  "blank_gpio = \<lparr>sc_busdev = False, sc_mtx = False, sc_io_kva = False, sc_rio_kva = False,
     sc_pad_kva = False, sc_npins = RP1_NUM_GPIOS,
     sc_pins = replicate RP1_NUM_GPIOS \<lparr>gp_pin = 0, gp_caps = 0, gp_flags = 0, gp_name = []\<rparr>,
     io_bank = blank_window, sys_rio = blank_window, pads_bank = blank_window, gpio_mapped = []\<rparr>"

lemma gpio_ok_blank: "gpio_ok blank_gpio"
  by (simp add: gpio_ok_def blank_gpio_def)

theorem gpio_refines_witness:
  "gpio_abs (fold gpio_step [PinSetFlags 29 2, PinSet 29 1, PinToggle 28] blank_gpio)
     = fold gpio_spec [PinSetFlags 29 2, PinSet 29 1, PinToggle 28] (gpio_abs blank_gpio)"
  using gpio_refines[OF gpio_ok_blank] by blast

lemma hw_flags_after_setflags:
  assumes "gpio_ok sc" "p < RP1_NUM_GPIOS" "bit fl 0 \<or> bit fl 1"
  shows "hw_flags (snd (rp1_gpio_pin_setflags p fl sc)) p
      = (if bit fl 1 then GPIO_PIN_OUTPUT else GPIO_PIN_INPUT)"
proof -
  have np: "sc_npins sc = RP1_NUM_GPIOS" using assms(1) by (simp add: gpio_ok_def)
  have view: "pin_view_of (snd (rp1_gpio_pin_setflags p fl sc)) p
    = (pin_view_of sc p)\<lparr>software := True, overridden := False, drives := bit fl 1, senses := True\<rparr>"
    using view_setflags[OF np assms(2,2,3)] by simp
  show ?thesis
    using arg_cong[OF view, of software] arg_cong[OF view, of drives] pin_in_bank_less[OF assms(2)]
    by (simp add: hw_flags_def pin_view_of_def pin_bit_def and_flag[OF refl] del: push_bit_of_1)
qed

lemma pin_get_bit:
  "gpio_ok sc \<Longrightarrow> p < RP1_NUM_GPIOS \<Longrightarrow> rp1_gpio_pin_get p sc
    = Inr (of_bool (bit (rp1_rio_read sc (RP1_GPIO_BANK p) RP1_RIO_RW RP1_RIO_IN_SYNC) (RP1_GPIO_PIN_IN_BANK p)))"
  by (simp add: rp1_gpio_pin_get_def gpio_ok_def and_one_eq odd_iff_mod_2_eq_one bit_iff_odd_drop_bit)

text \<open>The answers of the methods. A method called with a pin number q from 54 on
  answers EINVAL. On a pin p, getflags after a setflags that names a direction
  answers that direction, output when both were named; pin_get answers the
  synchronised input bit as 0 or 1; and of the pull-up and pull-down flags that
  setflags accepts and records, nothing reaches the pad register and nothing is
  left in the pin table after the next getflags.\<close>

theorem gpio_answers:
  assumes ok: "gpio_ok sc" and q: "q \<ge> RP1_NUM_GPIOS"
    and p: "p < RP1_NUM_GPIOS" and dir: "bit fl 0 \<or> bit fl 1"
    and set: "rp1_gpio_pin_setflags p fl sc = (r, sc1)"
    and get: "rp1_gpio_pin_getflags p sc1 = (ans, sc2)"
  shows "rp1_gpio_pin_setflags q fl sc = (fail EINVAL, sc) \<and> rp1_gpio_pin_getflags q sc = (Inl EINVAL, sc)
    \<and> rp1_gpio_pin_set q v sc = (fail EINVAL, sc) \<and> rp1_gpio_pin_toggle q sc = (fail EINVAL, sc)
    \<and> rp1_gpio_pin_get q sc = Inl EINVAL
    \<and> r = ok \<and> ans = Inr (if bit fl 1 then GPIO_PIN_OUTPUT else GPIO_PIN_INPUT)
    \<and> rp1_gpio_pin_get p sc1 = Inr (of_bool (bit (rp1_rio_read sc1 (RP1_GPIO_BANK p) RP1_RIO_RW RP1_RIO_IN_SYNC)
                                                 (RP1_GPIO_PIN_IN_BANK p)))
    \<and> rp1_pad_read sc1 p = rp1_pad_read sc p OR RP1_PAD_IE
    \<and> gp_flags (sc_pins sc1 ! p)
        = fl AND (GPIO_PIN_INPUT OR GPIO_PIN_OUTPUT OR GPIO_PIN_PULLUP OR GPIO_PIN_PULLDOWN)
    \<and> gp_flags (sc_pins sc2 ! p) = (if bit fl 1 then GPIO_PIN_OUTPUT else GPIO_PIN_INPUT)"
proof -
  have np: "sc_npins sc = RP1_NUM_GPIOS" "length (sc_pins sc) = RP1_NUM_GPIOS"
    using ok by (simp_all add: gpio_ok_def)
  have sc1: "sc1 = snd (rp1_gpio_pin_setflags p fl sc)" using set by simp
  have ok1: "gpio_ok sc1" using gpio_step_ok[OF ok, of "PinSetFlags p fl"] by (simp add: gpio_step_def set)
  have hw: "hw_flags sc1 p = (if bit fl 1 then GPIO_PIN_OUTPUT else GPIO_PIN_INPUT)"
    unfolding sc1 by (rule hw_flags_after_setflags[OF ok p dir])
  have e: "rp1_gpio_pin_get q sc = Inl EINVAL" using q np by (simp add: rp1_gpio_pin_get_def)
  have r: "r = ok" using arg_cong[OF set, of fst] p np(1) dir
    by (auto simp: rp1_gpio_pin_setflags_def direction_flags Let_def)
  have pad: "rp1_pad_read sc1 p = rp1_pad_read sc p OR RP1_PAD_IE"
    unfolding sc1 using p dir by (auto simp: rp1_gpio_pin_setflags_def np(1) direction_flags Let_def)
  have fl1: "gp_flags (sc_pins sc1 ! p)
        = fl AND (GPIO_PIN_INPUT OR GPIO_PIN_OUTPUT OR GPIO_PIN_PULLUP OR GPIO_PIN_PULLDOWN)"
    unfolding sc1 using p dir
    by (auto simp: rp1_gpio_pin_setflags_def np direction_flags Let_def set_gp_flags_def gpio_access)
  have ans: "ans = Inr (if bit fl 1 then GPIO_PIN_OUTPUT else GPIO_PIN_INPUT)"
    and fl2: "gp_flags (sc_pins sc2 ! p) = (if bit fl 1 then GPIO_PIN_OUTPUT else GPIO_PIN_INPUT)"
    using get ok1 p by (auto simp: rp1_gpio_pin_getflags_def gpio_ok_def Let_def hw set_gp_flags_def)
  show ?thesis
    by (intro conjI out_of_range[OF ok q] e r ans pin_get_bit[OF ok1 p] pad fl1 fl2)
qed

theorem gpio_answers_witness:
  "\<exists>sc1 sc2 r ans. rp1_gpio_pin_setflags 29 0x22 blank_gpio = (r, sc1)
     \<and> rp1_gpio_pin_getflags 29 sc1 = (ans, sc2)
     \<and> rp1_gpio_pin_toggle 54 blank_gpio = (fail EINVAL, blank_gpio) \<and> ans = Inr GPIO_PIN_OUTPUT"
proof -
  obtain r sc1 where 1: "rp1_gpio_pin_setflags 29 0x22 blank_gpio = (r, sc1)" by fastforce
  obtain ans sc2 where 2: "rp1_gpio_pin_getflags 29 sc1 = (ans, sc2)" by fastforce
  have "bit (0x22::u32) 0 \<or> bit (0x22::u32) 1" by simp
  from gpio_answers[OF gpio_ok_blank, of 54 29 "0x22", OF _ _ this 1 2]
  have "rp1_gpio_pin_toggle 54 blank_gpio = (fail EINVAL, blank_gpio) \<and> ans = Inr GPIO_PIN_OUTPUT"
    by (simp add: RP1_NUM_GPIOS_def)
  then show ?thesis using 1 2 by blast
qed

text \<open>Attach and detach own exactly the three windows. An attach that fails, for
  lack of the node, of any window or of the gpiobus, answers an error and
  leaves the mappings it found; one that succeeds leaves the three windows
  mapped and a pin table of 54 entries whose directions are the ones the
  hardware shows, and a later detach gives the three windows back.\<close>

theorem gpio_attach_detach:
  assumes "rp1_gpio_attach node_at (io_ok, rio_ok, pad_ok) line_names after bus_ok sc = (r, sc')"
  shows "(r = ok \<longleftrightarrow> rp1_gpio_find_node node_at \<noteq> None \<and> io_ok \<and> rio_ok \<and> pad_ok \<and> bus_ok)
    \<and> (if r = ok
       then gpio_ok sc' \<and> gpio_mapped sc' = [PADS_BANK, SYS_RIO, IO_BANK] @ gpio_mapped sc
          \<and> map gp_flags (sc_pins sc') = map (hw_flags sc) [0..<RP1_NUM_GPIOS]
          \<and> gpio_mapped (rp1_gpio_detach sc') = gpio_mapped sc
          \<and> \<not> sc_io_kva (rp1_gpio_detach sc') \<and> \<not> sc_rio_kva (rp1_gpio_detach sc')
          \<and> \<not> sc_pad_kva (rp1_gpio_detach sc')
       else gpio_mapped sc' = gpio_mapped sc)"
  using assms
  by (auto simp: rp1_gpio_attach_def rp1_gpio_detach_def Let_def gpio_ok_def pin_table_def hw_flags_def gpio_access
      split: if_splits prod.splits)

theorem gpio_attach_detach_witness:
  "fst (rp1_gpio_attach (\<lambda>_. Some True) (True, True, True) None [] True blank_gpio) = ok
   \<and> fst (rp1_gpio_attach (\<lambda>_. Some True) (True, True, False) None [] True blank_gpio) \<noteq> ok"
  using gpio_attach_detach[OF surjective_pairing, of "\<lambda>_. Some True" True True True None "[]" True blank_gpio]
    gpio_attach_detach[OF surjective_pairing, of "\<lambda>_. Some True" True True False None "[]" True blank_gpio]
  by (simp add: rp1_gpio_find_node_def rp1_gpio_fdt_paths_def)

section \<open>The line names of the device tree\<close>

text \<open>A gpio-line-names property is the names, each with its NUL.\<close>

definition encode_names :: "string list \<Rightarrow> string" where
  "encode_names ns = concat (map (\<lambda>s. s @ [CHR 0x00]) ns)"

definition shown_name :: "string list \<Rightarrow> nat \<Rightarrow> nat \<Rightarrow> string" where
  "shown_name ns i k =
     (if k < length ns \<and> ns ! k \<noteq> [] \<and> ns ! k \<noteq> ''-'' then take (GPIOMAXNAME - 1) (ns ! k)
      else default_name (i + k))"

lemma encode_names_Cons: "encode_names (n # ns) = n @ CHR 0x00 # encode_names ns"
  by (simp add: encode_names_def)

lemma cstr_name:
  assumes "CHR 0x00 \<notin> set n"
  shows "cstr (pre @ n @ CHR 0x00 # rest) (length pre) = n"
proof -
  have "takeWhile (\<lambda>c. c \<noteq> CHR 0x00) (n @ CHR 0x00 # rest) = n"
    using assms by (subst takeWhile_append2) auto
  then show ?thesis by (simp add: cstr_def)
qed

lemma strnlen_name:
  assumes "CHR 0x00 \<notin> set n"
  shows "strnlen (pre @ n @ CHR 0x00 # rest) (length pre) (Suc (length n + k)) = length n"
proof -
  have "takeWhile (\<lambda>c. c \<noteq> CHR 0x00) (n @ CHR 0x00 # take k rest) = n"
    using assms by (subst takeWhile_append2) auto
  then show ?thesis by (simp add: strnlen_def)
qed

lemma name_test:
  assumes "CHR 0x00 \<notin> set n"
  shows "(pre @ n @ CHR 0x00 # rest) ! length pre = CHR 0x00 \<longleftrightarrow> n = []"
  using assms by (cases n) (auto simp: nth_append)

lemma pin_names_loop_exhausted:
  "slen \<le> p \<Longrightarrow> pin_names_loop mem slen p i n = map (\<lambda>k. default_name (i + k)) [0..<n]"
proof (induction n arbitrary: i)
  case (Suc n)
  have "map (\<lambda>k. default_name (Suc i + k)) [0..<n] = map (\<lambda>k. default_name (i + k)) (map Suc [0..<n])"
    by simp
  then show ?case using Suc by (simp add: upt_conv_Cons map_Suc_upt del: upt_Suc)
qed simp

lemma pin_names_loop_names:
  assumes "\<forall>s\<in>set ns. CHR 0x00 \<notin> set s"
  shows "pin_names_loop (pre @ encode_names ns @ after) (length pre + length (encode_names ns)) (length pre) i n
     = map (shown_name ns i) [0..<n]"
  using assms
proof (induction n arbitrary: pre ns i)
  case (Suc n)
  show ?case
  proof (cases ns)
    case Nil
    have "shown_name ns i = (\<lambda>k. default_name (i + k))" by (auto simp: shown_name_def Nil)
    then show ?thesis by (subst pin_names_loop_exhausted) (simp_all add: Nil encode_names_def)
  next
    case (Cons s rest)
    let ?mem = "pre @ encode_names ns @ after"
    let ?tl = "encode_names rest @ after"
    have s: "CHR 0x00 \<notin> set s" using Suc.prems Cons by simp
    have mem: "?mem = pre @ s @ CHR 0x00 # ?tl" by (simp add: Cons encode_names_Cons)
    have len: "length (encode_names ns) = Suc (length s + length (encode_names rest))"
      by (simp add: Cons encode_names_Cons)
    have next_pos: "length pre + strnlen ?mem (length pre) (length (encode_names ns)) + 1 = length (pre @ s @ [CHR 0x00])"
      unfolding mem len strnlen_name[OF s] by simp
    have mem': "?mem = (pre @ s @ [CHR 0x00]) @ encode_names rest @ after" by (simp add: mem)
    have len': "length pre + length (encode_names ns) = length (pre @ s @ [CHR 0x00]) + length (encode_names rest)"
      by (simp add: len)
    have IH: "pin_names_loop ?mem (length pre + length (encode_names ns)) (length (pre @ s @ [CHR 0x00])) (i + 1) n
        = map (shown_name rest (i + 1)) [0..<n]"
      unfolding mem' len' by (rule Suc.IH) (use Suc.prems Cons in simp)
    have shift: "map (shown_name ns i) [0..<Suc n] = shown_name ns i 0 # map (shown_name rest (i + 1)) [0..<n]"
      by (simp add: upt_conv_Cons map_Suc_upt[symmetric] shown_name_def Cons del: upt_Suc)
    have first: "(if ?mem ! length pre = CHR 0x00 \<or> cstr ?mem (length pre) = ''-'' then default_name i
          else take (GPIOMAXNAME - 1) (cstr ?mem (length pre))) = shown_name ns i 0"
      unfolding mem cstr_name[OF s] name_test[OF s] by (auto simp: shown_name_def Cons)
    have pos: "\<not> length pre + length (encode_names ns) \<le> length pre" by (simp add: len)
    show ?thesis
      unfolding pin_names_loop.simps shift
      using pos first IH next_pos by (simp del: length_append)
  qed
qed simp

text \<open>Reading back the line names: for a property that is a list of names, each
  with its NUL, pin i shows the i-th name, cut to 63 characters, and its
  default name pin followed by its number when the name is missing, empty or a
  dash, whatever memory follows the property.\<close>

theorem gpio_names_roundtrip:
  assumes "\<forall>s\<in>set ns. CHR 0x00 \<notin> set s"
  shows "rp1_gpio_parse_pin_names (Some (encode_names ns)) after
     = map (\<lambda>i. if i < length ns \<and> ns ! i \<noteq> [] \<and> ns ! i \<noteq> ''-'' then take 63 (ns ! i) else default_name i)
         [0..<54]"
  using pin_names_loop_names[OF assms, of "[]" after 0 RP1_NUM_GPIOS]
  by (simp add: rp1_gpio_parse_pin_names_def shown_name_def[abs_def] RP1_NUM_GPIOS_def GPIOMAXNAME_def)

theorem gpio_names_roundtrip_witness:
  "rp1_gpio_parse_pin_names (Some (encode_names [''ID_SDA'', [], ''-'', ''GPIO3''])) ''junk'' ! 2 = default_name 2
   \<and> rp1_gpio_parse_pin_names (Some (encode_names [''ID_SDA'', [], ''-'', ''GPIO3''])) ''junk'' ! 3 = ''GPIO3''"
proof -
  have "\<forall>s\<in>set [''ID_SDA'', [], ''-'', ''GPIO3'']. CHR 0x00 \<notin> set s" by simp
  from gpio_names_roundtrip[OF this, of "''junk''"] show ?thesis
    by (simp add: nth_map numeral_2_eq_2 del: upt_Suc upt_rec_numeral)
qed

end
