(* ===== verification/Rp1Pwm.thy ===== *)
theory Rp1Pwm
  imports Prelude
begin

text \<open>
  The pwmbus driver of the RP1 PWM block (src/rp1_pwm_driver.c): the search for
  a clock divider, the programming of a channel, the pwmbus methods, attach and
  detach. The specification says what a configuration leaves in the registers
  and what the driver's record of a channel promises about them.
\<close>

section \<open>Registers and state\<close>

definition rp1_pwm_base :: "nat \<Rightarrow> nat" where
  "rp1_pwm_base ch = 0xe0000 + 0x2800 * ch"

definition RP1_PWM_CSR :: "nat \<Rightarrow> nat" where "RP1_PWM_CSR ch = rp1_pwm_base ch"

definition RP1_PWM_DIV :: "nat \<Rightarrow> nat" where "RP1_PWM_DIV ch = rp1_pwm_base ch + 4"

definition RP1_PWM_TOP :: "nat \<Rightarrow> nat" where "RP1_PWM_TOP ch = rp1_pwm_base ch + 8"

definition RP1_PWM_CTRA :: "nat \<Rightarrow> nat" where "RP1_PWM_CTRA ch = rp1_pwm_base ch + 0x10"

definition RP1_PWM_CTRB :: "nat \<Rightarrow> nat" where "RP1_PWM_CTRB ch = rp1_pwm_base ch + 0x14"

definition RP1_PWM_CSR_EN :: u32 where "RP1_PWM_CSR_EN = push_bit 0 1"

definition RP1_PWM_CSR_NOINVERT_A :: u32 where "RP1_PWM_CSR_NOINVERT_A = push_bit 1 1"

definition RP1_PWM_CSR_NOINVERT_B :: u32 where "RP1_PWM_CSR_NOINVERT_B = push_bit 2 1"

text \<open>PWM_POLARITY_INVERTED of dev/pwm/pwmbus.h.\<close>

definition PWM_POLARITY_INVERTED :: u32 where "PWM_POLARITY_INVERTED = push_bit 0 1"

lemmas rp1_pwm_regs = RP1_PWM_CSR_def RP1_PWM_DIV_def RP1_PWM_TOP_def RP1_PWM_CTRA_def RP1_PWM_CTRB_def
  rp1_pwm_base_def

record rp1_pwm_channel =
  period :: u32
  duty_a :: u32
  duty_b :: u32
  ch_flags :: u32
  enabled :: bool

text \<open>The softc: whether the memory resource is held and the provider registered,
  the registers behind the resource, the channels, and the thermal fields.\<close>

record rp1_pwm_softc =
  pwm_mem :: bool
  pwm_registered :: bool
  pwm_mtx :: bool
  pwm_regs :: mmio
  pwm_channels :: "rp1_pwm_channel list"
  cpu_temp :: u32
  fan_state :: u32
  fan_prev_state :: u32

definition rp1_pwm_read :: "rp1_pwm_softc \<Rightarrow> nat \<Rightarrow> u32" where
  "rp1_pwm_read sc off = rd (pwm_regs sc) off"

definition rp1_pwm_write :: "nat \<Rightarrow> u32 \<Rightarrow> rp1_pwm_softc \<Rightarrow> rp1_pwm_softc" where
  "rp1_pwm_write off v sc = sc\<lparr>pwm_regs := wr (pwm_regs sc) off v\<rparr>"

section \<open>Programming a channel\<close>

text \<open>The count for one divider. The product of the two 32-bit operands is a
  32-bit product; only the division by the 64-bit constant is wider.\<close>

definition pwm_top :: "u32 \<Rightarrow> nat \<Rightarrow> u32" where
  "pwm_top per dv = ucast ((ucast ((125000000 div of_nat dv) * per) :: u64) div 1000000000)"

text \<open>The loop over the dividers 1 to 256, with the divider and the count it
  leaves; 257 when it ran out.\<close>

function div_loop :: "u32 \<Rightarrow> nat \<Rightarrow> nat \<times> u32" where
  "div_loop per dv =
     (if dv \<le> 256 then
        (let tp = pwm_top per dv in
         if 0 < tp \<and> tp \<le> 0xFFFF then (dv, tp)
         else if dv = 256 then (257, tp) else div_loop per (dv + 1))
      else (dv, 0))"
  by pat_completeness auto
termination by (relation "measure (\<lambda>(_, dv). 257 - dv)") auto

declare div_loop.simps [simp del]

definition chan_program :: "nat \<Rightarrow> u32 \<Rightarrow> u32 \<Rightarrow> u32 \<Rightarrow> rp1_pwm_softc \<Rightarrow> rp1_pwm_softc" where
  "chan_program channel tp cc dv sc =
     (let csr = rp1_pwm_read sc (RP1_PWM_CSR channel) AND NOT RP1_PWM_CSR_EN;
          sc = rp1_pwm_write (RP1_PWM_CSR channel) csr sc;
          sc = rp1_pwm_write (RP1_PWM_TOP channel) tp sc;
          sc = rp1_pwm_write (RP1_PWM_CTRA channel) cc sc;
          sc = rp1_pwm_write (RP1_PWM_CTRB channel) cc sc;
          sc = rp1_pwm_write (RP1_PWM_DIV channel) dv sc;
          csr = (if enabled (pwm_channels sc ! channel) then csr OR RP1_PWM_CSR_EN else csr)
      in rp1_pwm_write (RP1_PWM_CSR channel) csr sc)"

definition rp1_pwm_hw_config :: "nat \<Rightarrow> u32 \<Rightarrow> u32 \<Rightarrow> rp1_pwm_softc \<Rightarrow> rc \<times> rp1_pwm_softc" where
  "rp1_pwm_hw_config channel per duty sc =
     (if channel \<ge> 4 then (fail EINVAL, sc)
      else if per = 0 \<or> duty > per then (fail EINVAL, sc)
      else let (dv, tp) = div_loop per 1 in
        if tp > 0xFFFF \<or> tp = 0 then (fail EINVAL, sc)
        else let cc = (duty * (tp + 1)) div per;
                 cc = (if cc > tp then tp else cc);
                 sc = chan_program channel tp cc (of_nat dv) sc;
                 ch = pwm_channels sc ! channel
             in (ok, sc\<lparr>pwm_channels := (pwm_channels sc)[channel := ch\<lparr>period := per, duty_a := cc\<rparr>]\<rparr>))"

section \<open>The pwmbus methods\<close>

definition rp1_pwm_channel_count :: nat where "rp1_pwm_channel_count = 4"

definition rp1_pwm_channel_config :: "nat \<Rightarrow> u32 \<Rightarrow> u32 \<Rightarrow> rp1_pwm_softc \<Rightarrow> rc \<times> rp1_pwm_softc" where
  "rp1_pwm_channel_config channel per duty sc = rp1_pwm_hw_config channel per duty sc"

definition rp1_pwm_channel_get_config :: "nat \<Rightarrow> rp1_pwm_softc \<Rightarrow> (u32 \<times> u32) result" where
  "rp1_pwm_channel_get_config channel sc =
     (if channel \<ge> 4 then Inl EINVAL
      else Inr (period (pwm_channels sc ! channel), duty_a (pwm_channels sc ! channel)))"

definition rp1_pwm_channel_enable :: "nat \<Rightarrow> bool \<Rightarrow> rp1_pwm_softc \<Rightarrow> rc \<times> rp1_pwm_softc" where
  "rp1_pwm_channel_enable channel enable sc =
     (if channel \<ge> 4 then (fail EINVAL, sc)
      else let csr = rp1_pwm_read sc (RP1_PWM_CSR channel);
               csr = (if enable then csr OR RP1_PWM_CSR_EN else csr AND NOT RP1_PWM_CSR_EN);
               sc = rp1_pwm_write (RP1_PWM_CSR channel) csr sc
           in (ok, sc\<lparr>pwm_channels := (pwm_channels sc)
                        [channel := (pwm_channels sc ! channel)\<lparr>enabled := enable\<rparr>]\<rparr>))"

definition rp1_pwm_channel_is_enabled :: "nat \<Rightarrow> rp1_pwm_softc \<Rightarrow> bool result" where
  "rp1_pwm_channel_is_enabled channel sc =
     (if channel \<ge> 4 then Inl EINVAL else Inr (enabled (pwm_channels sc ! channel)))"

definition rp1_pwm_channel_set_flags :: "nat \<Rightarrow> u32 \<Rightarrow> rp1_pwm_softc \<Rightarrow> rc \<times> rp1_pwm_softc" where
  "rp1_pwm_channel_set_flags channel fl sc =
     (if channel \<ge> 4 then (fail EINVAL, sc)
      else let csr = rp1_pwm_read sc (RP1_PWM_CSR channel);
               csr = (if fl AND PWM_POLARITY_INVERTED \<noteq> 0 then
                        (if channel = 0 \<or> channel = 1 then csr AND NOT RP1_PWM_CSR_NOINVERT_A
                         else csr AND NOT RP1_PWM_CSR_NOINVERT_B)
                      else
                        (if channel = 0 \<or> channel = 1 then csr OR RP1_PWM_CSR_NOINVERT_A
                         else csr OR RP1_PWM_CSR_NOINVERT_B));
               sc = rp1_pwm_write (RP1_PWM_CSR channel) csr sc
           in (ok, sc\<lparr>pwm_channels := (pwm_channels sc)
                        [channel := (pwm_channels sc ! channel)\<lparr>ch_flags := fl\<rparr>]\<rparr>))"

definition rp1_pwm_channel_get_flags :: "nat \<Rightarrow> rp1_pwm_softc \<Rightarrow> u32 result" where
  "rp1_pwm_channel_get_flags channel sc =
     (if channel \<ge> 4 then Inl EINVAL else Inr (ch_flags (pwm_channels sc ! channel)))"

section \<open>Attach and detach\<close>

text \<open>The outcome of the resource allocation and the result of
  pwmbus_register_provider are arguments; duty_b is left as it was.\<close>

definition attach_channel :: "rp1_pwm_channel \<Rightarrow> rp1_pwm_channel" where
  "attach_channel ch = ch\<lparr>period := 41566, duty_a := 0, ch_flags := 0, enabled := False\<rparr>"

definition rp1_pwm_probe :: "bool \<Rightarrow> rc" where
  "rp1_pwm_probe compatible = (if compatible then ok else fail ENXIO)"

definition rp1_pwm_attach :: "bool \<Rightarrow> rc \<Rightarrow> rp1_pwm_softc \<Rightarrow> rc \<times> rp1_pwm_softc" where
  "rp1_pwm_attach mem_ok register sc =
     (if \<not> mem_ok then (fail ENXIO, sc\<lparr>pwm_mtx := False, pwm_mem := False\<rparr>)
      else let sc = sc\<lparr>pwm_mtx := True, pwm_mem := True,
                       pwm_channels := map attach_channel (pwm_channels sc),
                       cpu_temp := 50000, fan_state := 0, fan_prev_state := 0\<rparr>
           in case register of
                Some e \<Rightarrow> (fail e, sc\<lparr>pwm_mem := False, pwm_mtx := False\<rparr>)
              | None \<Rightarrow> (ok, sc\<lparr>pwm_registered := True\<rparr>))"

definition rp1_pwm_detach :: "rp1_pwm_softc \<Rightarrow> rp1_pwm_softc" where
  "rp1_pwm_detach sc = sc\<lparr>pwm_registered := False, pwm_mem := False, pwm_mtx := False\<rparr>"

section \<open>The divider search\<close>

lemma pwm_top_le: "pwm_top per dv \<le> 4"
proof -
  let ?x = "(125000000 div of_nat dv) * per"
  have "unat ?x < 2 ^ 32" using unsigned_less[of ?x] by simp
  then have b: "unat ?x div 1000000000 \<le> 4" and u64: "unat ?x < 2 ^ 64" by simp_all
  have "unat ((ucast ?x :: u64) div 1000000000) = unat ?x div 1000000000"
    using u64 by (simp add: unat_div_distrib unsigned_ucast_eq take_bit_nat_eq_self)
  then have "unat (pwm_top per dv) = unat ?x div 1000000000"
    using b by (simp add: pwm_top_def unsigned_ucast_eq take_bit_nat_eq_self)
  then show ?thesis using b by (simp add: word_le_nat_alt)
qed

lemma pwm_top_fits: "pwm_top per dv \<le> 0xFFFF" "\<not> 0xFFFF < pwm_top per dv"
proof -
  have "(4::u32) \<le> 0xFFFF" by simp
  then show "pwm_top per dv \<le> 0xFFFF" using pwm_top_le order_trans by blast
  then show "\<not> 0xFFFF < pwm_top per dv" by simp
qed

text \<open>The loop finds the least divider with a positive count.\<close>

lemma div_loop_result:
  assumes "dv \<le> 256" "div_loop per dv = (d, t)"
  shows "dv \<le> d \<and> (\<forall>e. dv \<le> e \<and> e < d \<and> e \<le> 256 \<longrightarrow> pwm_top per e = 0)
     \<and> (if t = 0 then d = 257 else d \<le> 256 \<and> t = pwm_top per d)"
  using assms
proof (induction per dv rule: div_loop.induct)
  case (1 per dv)
  show ?case
  proof (cases "pwm_top per dv = 0")
    case False
    then have "div_loop per dv = (dv, pwm_top per dv)"
      using 1(2) by (subst div_loop.simps) (simp add: Let_def pwm_top_fits word_gt_0)
    then show ?thesis using 1(2,3) False by auto
  next
    case zero: True
    show ?thesis
    proof (cases "dv = 256")
      case True
      then have "div_loop per dv = (257, 0)"
        using zero by (subst div_loop.simps) (simp add: Let_def)
      then show ?thesis using 1(3) zero True by (auto simp: less_Suc_eq le_less)
    next
      case False
      then have step: "div_loop per dv = div_loop per (dv + 1)"
        using 1(2) zero by (subst div_loop.simps) (simp add: Let_def)
      have le: "dv + 1 \<le> 256" using False 1(2) by simp
      have "dv + 1 \<le> d \<and> (\<forall>e. dv + 1 \<le> e \<and> e < d \<and> e \<le> 256 \<longrightarrow> pwm_top per e = 0)
         \<and> (if t = 0 then d = 257 else d \<le> 256 \<and> t = pwm_top per d)"
        by (rule 1(1)[OF 1(2) refl _ False le]) (use zero step 1(3) in auto)
      then show ?thesis using zero
        by (metis Suc_eq_plus1 Suc_leD Suc_leI le_neq_implies_less)
    qed
  qed
qed

lemma div_loop_cases:
  obtains d where "1 \<le> d" "d \<le> 256" "div_loop per 1 = (d, pwm_top per d)" "0 < pwm_top per d"
      "\<forall>e. 1 \<le> e \<and> e < d \<longrightarrow> pwm_top per e = 0"
  | "div_loop per 1 = (257, 0)" "\<forall>e. 1 \<le> e \<and> e \<le> 256 \<longrightarrow> pwm_top per e = 0"
proof (cases "div_loop per 1")
  case (Pair d t)
  from div_loop_result[OF _ Pair] have *: "1 \<le> d \<and> (\<forall>e. 1 \<le> e \<and> e < d \<and> e \<le> 256 \<longrightarrow> pwm_top per e = 0)
     \<and> (if t = 0 then d = 257 else d \<le> 256 \<and> t = pwm_top per d)" by simp
  show thesis
  proof (cases "t = 0")
    case True
    then show thesis using * Pair that(2) by auto
  next
    case False
    then show thesis using * Pair that(1)[of d] by (auto simp: word_gt_0)
  qed
qed

section \<open>A channel and its registers\<close>

lemma pwm_offsets_inject:
  assumes "a < 4" "b < 4"
  shows "RP1_PWM_CSR a = RP1_PWM_CSR b \<longleftrightarrow> a = b" "RP1_PWM_DIV a = RP1_PWM_DIV b \<longleftrightarrow> a = b"
    "RP1_PWM_TOP a = RP1_PWM_TOP b \<longleftrightarrow> a = b" "RP1_PWM_CTRA a = RP1_PWM_CTRA b \<longleftrightarrow> a = b"
    "RP1_PWM_CTRB a = RP1_PWM_CTRB b \<longleftrightarrow> a = b"
  by (auto simp: rp1_pwm_regs)

lemma pwm_offsets_distinct:
  assumes "a < 4" "b < 4"
  shows "RP1_PWM_CSR a \<noteq> RP1_PWM_DIV b" "RP1_PWM_CSR a \<noteq> RP1_PWM_TOP b" "RP1_PWM_CSR a \<noteq> RP1_PWM_CTRA b"
    "RP1_PWM_CSR a \<noteq> RP1_PWM_CTRB b" "RP1_PWM_DIV a \<noteq> RP1_PWM_TOP b" "RP1_PWM_DIV a \<noteq> RP1_PWM_CTRA b"
    "RP1_PWM_DIV a \<noteq> RP1_PWM_CTRB b" "RP1_PWM_TOP a \<noteq> RP1_PWM_CTRA b" "RP1_PWM_TOP a \<noteq> RP1_PWM_CTRB b"
    "RP1_PWM_CTRA a \<noteq> RP1_PWM_CTRB b"
proof -
  have "a \<in> {0, 1, 2, 3}" "b \<in> {0, 1, 2, 3}" using assms by auto
  then show "RP1_PWM_CSR a \<noteq> RP1_PWM_DIV b" "RP1_PWM_CSR a \<noteq> RP1_PWM_TOP b" "RP1_PWM_CSR a \<noteq> RP1_PWM_CTRA b"
    "RP1_PWM_CSR a \<noteq> RP1_PWM_CTRB b" "RP1_PWM_DIV a \<noteq> RP1_PWM_TOP b" "RP1_PWM_DIV a \<noteq> RP1_PWM_CTRA b"
    "RP1_PWM_DIV a \<noteq> RP1_PWM_CTRB b" "RP1_PWM_TOP a \<noteq> RP1_PWM_CTRA b" "RP1_PWM_TOP a \<noteq> RP1_PWM_CTRB b"
    "RP1_PWM_CTRA a \<noteq> RP1_PWM_CTRB b"
    by (auto simp: rp1_pwm_regs)
qed

lemmas pwm_offsets = pwm_offsets_inject pwm_offsets_distinct pwm_offsets_distinct[symmetric]

lemma pwm_read_write [simp]:
  "rp1_pwm_read (rp1_pwm_write r v sc) r' = (if r' = r then v else rp1_pwm_read sc r')"
  by (simp add: rp1_pwm_read_def rp1_pwm_write_def)

lemma pwm_write_channels [simp]: "pwm_channels (rp1_pwm_write r v sc) = pwm_channels sc"
  by (simp add: rp1_pwm_write_def)

lemma pwm_read_channels [simp]: "rp1_pwm_read (sc\<lparr>pwm_channels := x\<rparr>) r = rp1_pwm_read sc r"
  by (simp add: rp1_pwm_read_def)

lemma chan_program_channels [simp]: "pwm_channels (chan_program c tp cc dv sc) = pwm_channels sc"
  by (simp add: chan_program_def Let_def)

lemma chan_program_regs:
  assumes "c < 4" "x < 4"
  shows "rp1_pwm_read (chan_program c tp cc dv sc) (RP1_PWM_TOP x)
      = (if x = c then tp else rp1_pwm_read sc (RP1_PWM_TOP x))"
    "rp1_pwm_read (chan_program c tp cc dv sc) (RP1_PWM_DIV x)
      = (if x = c then dv else rp1_pwm_read sc (RP1_PWM_DIV x))"
    "rp1_pwm_read (chan_program c tp cc dv sc) (RP1_PWM_CTRA x)
      = (if x = c then cc else rp1_pwm_read sc (RP1_PWM_CTRA x))"
    "rp1_pwm_read (chan_program c tp cc dv sc) (RP1_PWM_CTRB x)
      = (if x = c then cc else rp1_pwm_read sc (RP1_PWM_CTRB x))"
    "rp1_pwm_read (chan_program c tp cc dv sc) (RP1_PWM_CSR x)
      = (if x = c then (if enabled (pwm_channels sc ! c)
            then (rp1_pwm_read sc (RP1_PWM_CSR c) AND NOT RP1_PWM_CSR_EN) OR RP1_PWM_CSR_EN
            else rp1_pwm_read sc (RP1_PWM_CSR c) AND NOT RP1_PWM_CSR_EN)
         else rp1_pwm_read sc (RP1_PWM_CSR x))"
  unfolding chan_program_def Let_def
  by (simp_all add: pwm_offsets[OF assms] pwm_offsets[OF assms(2,1)] pwm_offsets[OF assms(1,1)])

lemma csr_en_bits:
  "bit RP1_PWM_CSR_EN n \<longleftrightarrow> n = 0" "bit RP1_PWM_CSR_NOINVERT_A n \<longleftrightarrow> n = 1" "bit RP1_PWM_CSR_NOINVERT_B n \<longleftrightarrow> n = 2"
  by (simp_all only: flag_bit[OF RP1_PWM_CSR_EN_def] flag_bit[OF RP1_PWM_CSR_NOINVERT_A_def]
      flag_bit[OF RP1_PWM_CSR_NOINVERT_B_def]) simp_all

section \<open>What a configuration does\<close>

text \<open>What every register of every channel shows after a configuration of
  channel c with divider d, count tp and compare value cc.\<close>

definition configured :: "nat \<Rightarrow> nat \<Rightarrow> u32 \<Rightarrow> u32 \<Rightarrow> rp1_pwm_softc \<Rightarrow> rp1_pwm_softc \<Rightarrow> bool" where
  "configured c d tp cc sc sc' \<longleftrightarrow>
     rp1_pwm_read sc' (RP1_PWM_DIV c) = of_nat d \<and> rp1_pwm_read sc' (RP1_PWM_TOP c) = tp
     \<and> rp1_pwm_read sc' (RP1_PWM_CTRA c) = cc \<and> rp1_pwm_read sc' (RP1_PWM_CTRB c) = cc
     \<and> bit (rp1_pwm_read sc' (RP1_PWM_CSR c)) 0 = enabled (pwm_channels sc ! c)
     \<and> (\<forall>x\<in>{0, 1, 2, 3} - {c}. pwm_channels sc' ! x = pwm_channels sc ! x
          \<and> (\<forall>r\<in>{RP1_PWM_CSR x, RP1_PWM_DIV x, RP1_PWM_TOP x, RP1_PWM_CTRA x, RP1_PWM_CTRB x}.
               rp1_pwm_read sc' r = rp1_pwm_read sc r))"

lemma configured_program:
  assumes "c < 4" "length (pwm_channels sc) = 4"
  shows "configured c d tp cc sc ((chan_program c tp cc (of_nat d) sc)
     \<lparr>pwm_channels := (pwm_channels sc)[c := ch]\<rparr>)"
proof -
  have b: "bit ((v AND NOT RP1_PWM_CSR_EN) OR RP1_PWM_CSR_EN) 0" "\<not> bit (v AND NOT RP1_PWM_CSR_EN) 0" for v
    by (simp_all only: bit_or_iff bit_and_iff bit_not_iff csr_en_bits) simp_all
  have x: "x < 4" if "x \<in> {0, 1, 2, 3} - {c}" for x :: nat using that by auto
  show ?thesis
    unfolding configured_def
    by (intro conjI ballI) (insert assms x, force simp: chan_program_regs b)+
qed

text \<open>A configuration succeeds exactly when the channel exists, the period is
  positive, the duty is at most the period and some divider from 1 to 256 gives
  a positive count; otherwise it answers EINVAL and changes nothing. When it
  succeeds the registers of the channel hold the least such divider, its count
  and the compare value, the channel runs if and only if it was enabled before,
  and nothing of the other channels changes. But the count is the quotient of a
  product that was cut to 32 bits: it is never above 4, so that the hardware
  period is at most 10240 ns (8 ns per clock) and the duty has at most five
  steps, whatever period was asked for; and the duty that get_config answers
  afterwards is that compare value and not the nanoseconds configured.\<close>

theorem rp1_pwm_config_spec:
  assumes len: "length (pwm_channels sc) = 4"
    and run: "rp1_pwm_channel_config c per duty sc = (r, sc')"
  shows "(r = ok \<longleftrightarrow> c < 4 \<and> per \<noteq> 0 \<and> duty \<le> per \<and> (\<exists>d\<in>{1..256}. pwm_top per d \<noteq> 0))
    \<and> (if r = ok then \<exists>d tp cc. configured c d tp cc sc sc' \<and> tp = pwm_top per d
         \<and> (\<forall>e\<in>{1..<d}. pwm_top per e = 0)
         \<and> 1 \<le> d \<and> d \<le> 256 \<and> 1 \<le> tp \<and> tp \<le> 4 \<and> cc \<le> tp \<and> 8 * d * (unat tp + 1) \<le> 10240
         \<and> rp1_pwm_channel_get_config c sc' = Inr (per, cc)
       else r = fail EINVAL \<and> sc' = sc)"
proof (cases "c < 4 \<and> per \<noteq> 0 \<and> duty \<le> per")
  case False
  then have "4 \<le> c \<or> per = 0 \<or> per < duty" by auto
  then have "rp1_pwm_channel_config c per duty sc = (fail EINVAL, sc)"
    by (elim disjE) (simp_all add: rp1_pwm_channel_config_def rp1_pwm_hw_config_def)
  then show ?thesis using run False by auto
next
  case args: True
  show ?thesis
  proof (cases rule: div_loop_cases[of per])
    case (1 d)
    have nz: "pwm_top per d \<noteq> 0" using 1(4) by auto
    define cc0 where "cc0 = duty * (pwm_top per d + 1) div per"
    define cc where "cc = (if cc0 > pwm_top per d then pwm_top per d else cc0)"
    have r: "r = ok" "sc' = (chan_program c (pwm_top per d) cc (of_nat d) sc)
       \<lparr>pwm_channels := (pwm_channels sc)[c := (pwm_channels sc ! c)\<lparr>period := per, duty_a := cc\<rparr>]\<rparr>"
      using run args 1(3) nz pwm_top_fits
      by (auto simp: rp1_pwm_channel_config_def rp1_pwm_hw_config_def cc_def cc0_def Let_def not_less[symmetric])
    have "unat (pwm_top per d) \<le> 4" using pwm_top_le[of per d] by (simp add: word_le_nat_alt)
    then have "d * (unat (pwm_top per d) + 1) \<le> 256 * 5" using 1(2) by (intro mult_le_mono) simp_all
    moreover have "1 \<le> pwm_top per d" using 1(4) by (simp add: word_le_nat_alt word_less_nat_alt)
    moreover have "rp1_pwm_channel_get_config c sc' = Inr (per, cc)"
      using args len by (simp add: r rp1_pwm_channel_get_config_def)
    moreover have "configured c d (pwm_top per d) cc sc sc'"
      unfolding r using args len by (intro configured_program) simp_all
    moreover have "cc \<le> pwm_top per d" by (auto simp: cc_def not_less)
    ultimately have "\<exists>d tp cc. configured c d tp cc sc sc' \<and> tp = pwm_top per d
         \<and> (\<forall>e\<in>{1..<d}. pwm_top per e = 0)
         \<and> 1 \<le> d \<and> d \<le> 256 \<and> 1 \<le> tp \<and> tp \<le> 4 \<and> cc \<le> tp \<and> 8 * d * (unat tp + 1) \<le> 10240
         \<and> rp1_pwm_channel_get_config c sc' = Inr (per, cc)"
      using 1 pwm_top_le[of per d] by (intro exI[of _ d] exI[of _ "pwm_top per d"] exI[of _ cc]) auto
    then show ?thesis using r args 1 by auto
  next
    case 2
    then have "rp1_pwm_channel_config c per duty sc = (fail EINVAL, sc)" using args
      by (simp add: rp1_pwm_channel_config_def rp1_pwm_hw_config_def)
    then have "r = fail EINVAL \<and> sc' = sc" using run by simp
    then show ?thesis using 2 by auto
  qed
qed

text \<open>The default period of the fan, 41566 ns, is programmed as a period of 32 ns.\<close>

definition blank_pwm :: rp1_pwm_softc where
  "blank_pwm = \<lparr>pwm_mem = True, pwm_registered = True, pwm_mtx = True,
     pwm_regs = \<lparr>reg_val = (\<lambda>_. 0), reg_log = []\<rparr>,
     pwm_channels = replicate 4 \<lparr>period = 41566, duty_a = 0, duty_b = 0, ch_flags = 0, enabled = False\<rparr>,
     cpu_temp = 50000, fan_state = 0, fan_prev_state = 0\<rparr>"

lemma blank_pwm_channels: "length (pwm_channels blank_pwm) = 4"
  by (simp add: blank_pwm_def)

theorem rp1_pwm_config_spec_witness:
  "\<exists>r sc'. rp1_pwm_channel_config 3 41566 20783 blank_pwm = (r, sc') \<and> r = ok
     \<and> rp1_pwm_read sc' (RP1_PWM_DIV 3) = 1 \<and> rp1_pwm_read sc' (RP1_PWM_TOP 3) = 3"
proof -
  obtain r sc' where run: "rp1_pwm_channel_config 3 41566 20783 blank_pwm = (r, sc')" by fastforce
  have t: "pwm_top 41566 1 = 3" by (simp add: pwm_top_def)
  note spec = rp1_pwm_config_spec[OF blank_pwm_channels run]
  have "r = ok"
    using spec t by (intro conjunct1[OF spec, THEN iffD2]) (auto intro!: bexI[of _ 1])
  then obtain d tp cc where *: "configured 3 d tp cc blank_pwm sc'" "tp = pwm_top 41566 d"
    "\<forall>e\<in>{1..<d}. pwm_top 41566 e = 0" "1 \<le> d"
    using conjunct2[OF spec] by auto
  then have "d = 1" using t by (cases "d = 1") auto
  then show ?thesis using * t run \<open>r = ok\<close>
    by (intro exI[of _ r] exI[of _ sc']) (simp add: configured_def)
qed

section \<open>The record of a channel and its control register\<close>

datatype pwm_op = PwmConfig nat u32 u32 | PwmEnable nat bool | PwmFlags nat u32

definition pwm_step :: "pwm_op \<Rightarrow> rp1_pwm_softc \<Rightarrow> rp1_pwm_softc" where
  "pwm_step x sc = (case x of
     PwmConfig c per duty \<Rightarrow> snd (rp1_pwm_channel_config c per duty sc)
   | PwmEnable c e \<Rightarrow> snd (rp1_pwm_channel_enable c e sc)
   | PwmFlags c fl \<Rightarrow> snd (rp1_pwm_channel_set_flags c fl sc))"

text \<open>What the control register of a channel makes the hardware do.\<close>

record chan_view =
  runs :: bool
  inverted :: bool

definition chan_abs :: "nat \<Rightarrow> rp1_pwm_softc \<Rightarrow> chan_view" where
  "chan_abs c sc = (let csr = rp1_pwm_read sc (RP1_PWM_CSR c) in
     \<lparr>runs = bit csr 0, inverted = (\<not> bit csr (if c < 2 then 1 else 2))\<rparr>)"

definition chan_spec :: "nat \<Rightarrow> pwm_op \<Rightarrow> chan_view \<Rightarrow> chan_view" where
  "chan_spec c x v = (case x of
     PwmConfig _ _ _ \<Rightarrow> v
   | PwmEnable c' e \<Rightarrow> if c' = c then v\<lparr>runs := e\<rparr> else v
   | PwmFlags c' fl \<Rightarrow> if c' = c then v\<lparr>inverted := bit fl 0\<rparr> else v)"

definition chan_agrees :: "nat \<Rightarrow> rp1_pwm_softc \<Rightarrow> bool" where
  "chan_agrees c sc \<longleftrightarrow> c < 4 \<and> length (pwm_channels sc) = 4
     \<and> rp1_pwm_channel_is_enabled c sc = Inr (runs (chan_abs c sc))"

lemma u32_not_bit: "bit (NOT (x::u32)) n \<longleftrightarrow> n < 32 \<and> \<not> bit x n"
  by (simp add: bit_not_iff)

lemma polarity_flag: "fl AND PWM_POLARITY_INVERTED = 0 \<longleftrightarrow> \<not> bit fl 0"
  by (rule and_flag[OF PWM_POLARITY_INVERTED_def]) simp

lemma config_view:
  assumes "chan_agrees c sc"
  shows "chan_agrees c (snd (rp1_pwm_channel_config c' per duty sc))
    \<and> chan_abs c (snd (rp1_pwm_channel_config c' per duty sc)) = chan_abs c sc"
proof -
  obtain r sc' where run: "rp1_pwm_channel_config c' per duty sc = (r, sc')" by fastforce
  have c: "c < 4" "length (pwm_channels sc) = 4" using assms by (simp_all add: chan_agrees_def)
  show ?thesis
  proof (cases "c' < 4 \<and> r = ok")
    case False
    then have "sc' = sc" using rp1_pwm_config_spec[OF c(2) run] by (auto split: if_splits)
    then show ?thesis using assms run by simp
  next
    case True
    obtain d tp where dl: "div_loop per 1 = (d, tp)" by fastforce
    obtain cc where sc': "sc' = (chan_program c' tp cc (of_nat d) sc)
       \<lparr>pwm_channels := (pwm_channels sc)[c' := (pwm_channels sc ! c')\<lparr>period := per, duty_a := cc\<rparr>]\<rparr>"
      using run True dl by (auto simp: rp1_pwm_channel_config_def rp1_pwm_hw_config_def Let_def split: if_splits)
    have en: "enabled (pwm_channels sc' ! c) = enabled (pwm_channels sc ! c)"
      using c True by (cases "c = c'") (simp_all add: sc')
    have csr: "bit (rp1_pwm_read sc' (RP1_PWM_CSR c)) n = bit (rp1_pwm_read sc (RP1_PWM_CSR c)) n"
      if "n < 32" for n
      using assms c True that
      by (cases "n = 0") (auto simp: sc' chan_program_regs chan_agrees_def rp1_pwm_channel_is_enabled_def chan_abs_def Let_def
          bit_or_iff bit_and_iff u32_not_bit csr_en_bits)
    have "length (pwm_channels sc') = 4" using c by (simp add: sc')
    then show ?thesis using assms c run
      by (simp add: chan_agrees_def chan_abs_def Let_def rp1_pwm_channel_is_enabled_def en csr)
  qed
qed

lemma enable_view:
  assumes "chan_agrees c sc"
  shows "chan_agrees c (snd (rp1_pwm_channel_enable c' e sc))
    \<and> chan_abs c (snd (rp1_pwm_channel_enable c' e sc)) = chan_spec c (PwmEnable c' e) (chan_abs c sc)"
  using assms
  by (cases "c' < 4"; cases e)
    (auto simp: chan_agrees_def chan_abs_def chan_spec_def Let_def rp1_pwm_channel_enable_def
      rp1_pwm_channel_is_enabled_def pwm_offsets nth_list_update bit_or_iff bit_and_iff u32_not_bit csr_en_bits)

lemma flags_view:
  assumes "chan_agrees c sc"
  shows "chan_agrees c (snd (rp1_pwm_channel_set_flags c' fl sc))
    \<and> chan_abs c (snd (rp1_pwm_channel_set_flags c' fl sc)) = chan_spec c (PwmFlags c' fl) (chan_abs c sc)"
  using assms
  by (cases "c' < 4"; cases "bit fl 0"; cases "c < 2")
    (auto simp: chan_agrees_def chan_abs_def chan_spec_def Let_def rp1_pwm_channel_set_flags_def polarity_flag
      rp1_pwm_channel_is_enabled_def pwm_offsets nth_list_update bit_or_iff bit_and_iff u32_not_bit csr_en_bits)

interpretation pwm: simulation "chan_agrees c" pwm_step "chan_spec c" "chan_abs c" for c
proof unfold_locales
  fix sc x
  assume a: "chan_agrees c sc"
  show "chan_agrees c (pwm_step x sc)"
    by (cases x) (simp_all add: pwm_step_def config_view[OF a] enable_view[OF a] flags_view[OF a])
  show "chan_abs c (pwm_step x sc) = chan_spec c x (chan_abs c sc)"
    by (cases x) (simp_all add: pwm_step_def config_view[OF a] enable_view[OF a] flags_view[OF a],
        simp add: chan_spec_def)
qed

text \<open>C9: A channel whose record agrees with its enable bit keeps agreeing under every
  history of configurations, enables and flag changes on any channels, and the
  history does to its control register what was asked: it runs and is inverted
  as the last enable and the last set_flags on it said, a configuration leaves
  both as they were, and calls on other channels leave it alone.\<close>

theorem rp1_pwm_refines:
  assumes "chan_agrees c sc"
  shows "chan_agrees c (fold pwm_step ops sc)
    \<and> chan_abs c (fold pwm_step ops sc) = fold (chan_spec c) ops (chan_abs c sc)"
  using assms by (rule pwm.run_simulates)

theorem rp1_pwm_refines_witness:
  "runs (chan_abs 3 (fold pwm_step [PwmEnable 3 True, PwmConfig 3 41566 100, PwmEnable 2 False] blank_pwm))"
proof -
  have "chan_agrees 3 blank_pwm"
    by (simp add: chan_agrees_def blank_pwm_def rp1_pwm_channel_is_enabled_def chan_abs_def Let_def
        rp1_pwm_read_def rd_def)
  from rp1_pwm_refines[OF this, of "[PwmEnable 3 True, PwmConfig 3 41566 100, PwmEnable 2 False]"]
  show ?thesis by (simp add: chan_spec_def)
qed

end
