(* ===== verification/Bcm2712Pcie.thy ===== *)
theory Bcm2712Pcie
  imports Prelude
begin

text \<open>
  The interrupt router between the shared GIC line and the Ethernet driver
  (src/bcm2712_pcie.c): the two words that hold the registered filter and its
  argument with the order their stores and loads have, the interrupt filter,
  the re-arm write, attach and detach. The interleavings of one client and one
  interrupt handler are an inductive step relation over the atomic accesses.
\<close>

section \<open>State\<close>

definition CGEM_INT_ANY :: u32 where
  "CGEM_INT_ANY = push_bit 1 1 OR push_bit 2 1 OR push_bit 7 1 OR push_bit 3 1 OR push_bit 11 1 OR push_bit 10 1"

definition PCIE_CFG_MSIX_CFG_0 :: nat where "PCIE_CFG_MSIX_CFG_0 = 8"

definition RP1_INT_ETH :: nat where "RP1_INT_ETH = 6"

definition MSIX_CFG_IACK :: u32 where "MSIX_CFG_IACK = push_bit 2 1"

text \<open>The two words shared with the interrupt handler; None is NULL. A function
  or object pointer is a number.\<close>

record rp1_intr =
  g_rp1_filter :: "nat option"
  g_rp1_arg :: "nat option"

text \<open>The softc, the module's handle of PCIE_CFG with the registers behind it, and
  the balance of bus_space_map and bus_space_unmap calls on it.\<close>

record pcie_softc =
  mac_res :: bool
  cfg_res :: bool
  irq_res :: bool
  intr_hooked :: bool
  pciecfg_mapped :: bool
  g_pciecfg_mapped :: bool
  pciecfg_balance :: int
  pciecfg_regs :: mmio

section \<open>Registration and the interrupt filter\<close>

definition store_arg :: "nat option \<Rightarrow> rp1_intr \<Rightarrow> rp1_intr" where
  "store_arg a g = g\<lparr>g_rp1_arg := a\<rparr>"

definition store_filter :: "nat option \<Rightarrow> rp1_intr \<Rightarrow> rp1_intr" where
  "store_filter f g = g\<lparr>g_rp1_filter := f\<rparr>"

definition bcm2712_pcie_register_rp1_intr :: "nat \<Rightarrow> nat \<Rightarrow> rp1_intr \<Rightarrow> rp1_intr" where
  "bcm2712_pcie_register_rp1_intr f a g = store_filter (Some f) (store_arg (Some a) g)"

definition bcm2712_pcie_deregister_rp1_intr :: "rp1_intr \<Rightarrow> rp1_intr" where
  "bcm2712_pcie_deregister_rp1_intr g = store_arg None (store_filter None g)"

text \<open>The filter with both loads from one state: the call it makes, or None where
  it answers FILTER_STRAY.\<close>

definition bcm2712_pcie_filter :: "u32 \<Rightarrow> rp1_intr \<Rightarrow> (nat \<times> nat option) option" where
  "bcm2712_pcie_filter istat g =
     (if istat AND CGEM_INT_ANY = 0 then None
      else case g_rp1_filter g of None \<Rightarrow> None | Some f \<Rightarrow> Some (f, g_rp1_arg g))"

definition bcm2712_pcie_gem_iack :: "pcie_softc \<Rightarrow> pcie_softc" where
  "bcm2712_pcie_gem_iack sc =
     (if g_pciecfg_mapped sc
      then sc\<lparr>pciecfg_regs := wr (pciecfg_regs sc) (PCIE_CFG_MSIX_CFG_0 + RP1_INT_ETH * 4) MSIX_CFG_IACK\<rparr>
      else sc)"

section \<open>Attach and detach\<close>

definition bcm2712_pcie_probe :: "bool \<Rightarrow> rc" where
  "bcm2712_pcie_probe acpi_match = (if acpi_match then ok else fail ENXIO)"

definition pcie_fail_mem :: "pcie_softc \<Rightarrow> pcie_softc" where
  "pcie_fail_mem sc = (if cfg_res sc then sc\<lparr>cfg_res := False, mac_res := False\<rparr> else sc\<lparr>mac_res := False\<rparr>)"

definition bcm2712_pcie_attach ::
  "bool \<Rightarrow> bool \<Rightarrow> bool \<Rightarrow> bool \<Rightarrow> rc \<Rightarrow> pcie_softc \<Rightarrow> rc \<times> pcie_softc" where
  "bcm2712_pcie_attach mac_ok map_ok cfg_ok irq_ok setup sc =
     (if \<not> mac_ok then (fail ENXIO, sc\<lparr>mac_res := False\<rparr>)
      else let sc = sc\<lparr>mac_res := True\<rparr>;
               sc = (if map_ok then sc\<lparr>pciecfg_mapped := True, g_pciecfg_mapped := True,
                                       pciecfg_balance := pciecfg_balance sc + 1\<rparr>
                     else sc\<lparr>pciecfg_mapped := False\<rparr>);
               sc = sc\<lparr>cfg_res := cfg_ok\<rparr>
           in if \<not> irq_ok then (fail ENXIO, pcie_fail_mem (sc\<lparr>irq_res := False\<rparr>))
              else let sc = sc\<lparr>irq_res := True\<rparr> in
                case setup of
                  Some e \<Rightarrow> (fail e, pcie_fail_mem (sc\<lparr>irq_res := False\<rparr>))
                | None \<Rightarrow> (ok, sc\<lparr>intr_hooked := True\<rparr>))"

text \<open>The unmap is not under the if that precedes it, whose body without braces is
  the assignment alone.\<close>

definition bcm2712_pcie_detach :: "pcie_softc \<Rightarrow> pcie_softc" where
  "bcm2712_pcie_detach sc =
     (let sc = sc\<lparr>intr_hooked := False, irq_res := False\<rparr>;
          sc = (if pciecfg_mapped sc then sc\<lparr>g_pciecfg_mapped := False\<rparr> else sc);
          sc = sc\<lparr>pciecfg_balance := pciecfg_balance sc - 1\<rparr>;
          sc = (if cfg_res sc then sc\<lparr>cfg_res := False\<rparr> else sc)
      in sc\<lparr>mac_res := False\<rparr>)"

text \<open>A failing attach gives the bus resources back but keeps the PCIE_CFG window
  mapped and the module's handle valid; a successful one holds them, and the
  detach after it gives back every resource and unmaps the window once whether
  or not it was mapped: the maps and unmaps balance exactly when the map had
  succeeded and no attach before had failed after it.\<close>

theorem pcie_attach_detach:
  assumes "bcm2712_pcie_attach mac_ok map_ok cfg_ok irq_ok setup sc = (r, sc')"
    and "\<not> mac_res sc" "\<not> cfg_res sc" "\<not> irq_res sc" "\<not> intr_hooked sc"
  shows "(r = ok \<longleftrightarrow> mac_ok \<and> irq_ok \<and> setup = ok)
    \<and> pciecfg_balance sc' = pciecfg_balance sc + of_bool (mac_ok \<and> map_ok)
    \<and> (if r = ok
       then mac_res sc' \<and> irq_res sc' \<and> intr_hooked sc' \<and> cfg_res sc' = cfg_ok
         \<and> (let sc'' = bcm2712_pcie_detach sc' in
             \<not> mac_res sc'' \<and> \<not> cfg_res sc'' \<and> \<not> irq_res sc'' \<and> \<not> intr_hooked sc''
             \<and> g_pciecfg_mapped sc'' = (\<not> map_ok \<and> g_pciecfg_mapped sc)
             \<and> (pciecfg_balance sc'' = pciecfg_balance sc \<longleftrightarrow> map_ok))
       else \<not> mac_res sc' \<and> \<not> cfg_res sc' \<and> \<not> irq_res sc' \<and> \<not> intr_hooked sc'
         \<and> g_pciecfg_mapped sc' = (mac_ok \<and> map_ok \<or> g_pciecfg_mapped sc))"
  using assms
  by (auto simp: bcm2712_pcie_attach_def bcm2712_pcie_detach_def pcie_fail_mem_def Let_def
      split: if_splits option.splits)

definition blank_pcie :: pcie_softc where
  "blank_pcie = \<lparr>mac_res = False, cfg_res = False, irq_res = False, intr_hooked = False,
     pciecfg_mapped = False, g_pciecfg_mapped = False, pciecfg_balance = 0,
     pciecfg_regs = \<lparr>reg_val = (\<lambda>_. 0), reg_log = []\<rparr>\<rparr>"

theorem pcie_attach_detach_witness:
  "pciecfg_balance (snd (bcm2712_pcie_attach True True True False ok blank_pcie)) = 1
   \<and> fst (bcm2712_pcie_attach True False True True ok blank_pcie) = ok"
  using pcie_attach_detach[OF surjective_pairing, of blank_pcie True True True False ok]
    pcie_attach_detach[OF surjective_pairing, of blank_pcie True False True True ok]
  by (simp add: blank_pcie_def)

section \<open>One client and the interrupt handler\<close>

text \<open>Where the client is inside a registration or deregistration, and where the
  handler is inside the filter. The client registers the one pair it has.\<close>

datatype client_pc = ClientIdle | Registering | Deregistering

datatype isr_pc = IsrIdle | LoadedFilter nat | Calling nat "nat option"

record race =
  shared :: rp1_intr
  client :: client_pc
  isr :: isr_pc
  calls :: "(nat \<times> nat option) list"
  dereg_begun :: bool

definition race_init :: race where
  "race_init = \<lparr>shared = \<lparr>g_rp1_filter = None, g_rp1_arg = None\<rparr>, client = ClientIdle, isr = IsrIdle,
     calls = [], dereg_begun = False\<rparr>"

inductive race_step :: "nat \<Rightarrow> nat \<Rightarrow> race \<Rightarrow> race \<Rightarrow> bool" for f a where
  register_1: "client s = ClientIdle \<Longrightarrow>
     race_step f a s (s\<lparr>shared := store_arg (Some a) (shared s), client := Registering\<rparr>)"
| register_2: "client s = Registering \<Longrightarrow>
     race_step f a s (s\<lparr>shared := store_filter (Some f) (shared s), client := ClientIdle\<rparr>)"
| deregister_1: "client s = ClientIdle \<Longrightarrow>
     race_step f a s (s\<lparr>shared := store_filter None (shared s), client := Deregistering, dereg_begun := True\<rparr>)"
| deregister_2: "client s = Deregistering \<Longrightarrow>
     race_step f a s (s\<lparr>shared := store_arg None (shared s), client := ClientIdle\<rparr>)"
| isr_load_filter: "isr s = IsrIdle \<Longrightarrow> istat AND CGEM_INT_ANY \<noteq> 0 \<Longrightarrow> g_rp1_filter (shared s) = Some h \<Longrightarrow>
     race_step f a s (s\<lparr>isr := LoadedFilter h\<rparr>)"
| isr_load_arg: "isr s = LoadedFilter h \<Longrightarrow>
     race_step f a s (s\<lparr>isr := Calling h (g_rp1_arg (shared s))\<rparr>)"
| isr_call: "isr s = Calling h x \<Longrightarrow>
     race_step f a s (s\<lparr>isr := IsrIdle, calls := calls s @ [(h, x)]\<rparr>)"

inductive race_reachable :: "nat \<Rightarrow> nat \<Rightarrow> race \<Rightarrow> bool" for f a where
  race_start: "race_reachable f a race_init"
| race_next: "race_reachable f a s \<Longrightarrow> race_step f a s s' \<Longrightarrow> race_reachable f a s'"

inductive_cases race_stepE: "race_step f a s s'"

text \<open>What is true of the words and of the handler at every moment: once the
  filter is visible the argument is too, unless a deregistration began.\<close>

definition good_call :: "nat \<Rightarrow> nat \<Rightarrow> bool \<Rightarrow> nat \<times> nat option \<Rightarrow> bool" where
  "good_call f a dereg c \<longleftrightarrow> fst c = f \<and> (snd c = Some a \<or> dereg \<and> snd c = None)"

definition race_inv :: "nat \<Rightarrow> nat \<Rightarrow> race \<Rightarrow> bool" where
  "race_inv f a s \<longleftrightarrow>
     g_rp1_filter (shared s) \<in> {None, Some f} \<and> g_rp1_arg (shared s) \<in> {None, Some a}
     \<and> (g_rp1_filter (shared s) \<noteq> None \<longrightarrow> g_rp1_arg (shared s) = Some a)
     \<and> (client s = Registering \<longrightarrow> g_rp1_arg (shared s) = Some a)
     \<and> (client s = Deregistering \<longrightarrow> g_rp1_filter (shared s) = None \<and> dereg_begun s)
     \<and> (case isr s of IsrIdle \<Rightarrow> True
        | LoadedFilter h \<Rightarrow> h = f \<and> (g_rp1_arg (shared s) = Some a \<or> dereg_begun s)
        | Calling h x \<Rightarrow> good_call f a (dereg_begun s) (h, x))
     \<and> (\<forall>c\<in>set (calls s). good_call f a (dereg_begun s) c)"

lemma race_step_inv: "race_step f a s s' \<Longrightarrow> race_inv f a s \<Longrightarrow> race_inv f a s'"
  by (erule race_stepE)
    (auto simp: race_inv_def store_arg_def store_filter_def good_call_def split: isr_pc.splits)

lemma race_reachable_inv: "race_reachable f a s \<Longrightarrow> race_inv f a s"
  by (induction rule: race_reachable.induct)
    (simp add: race_inv_def race_init_def, blast intro: race_step_inv)

text \<open>The run in which a deregistration overtakes the handler between its loads.\<close>

lemma race_run:
  "\<exists>s. race_reachable f a s \<and> (f, None) \<in> set (calls s)"
proof -
  let ?s1 = "race_init\<lparr>shared := store_arg (Some a) (shared race_init), client := Registering\<rparr>"
  let ?s2 = "?s1\<lparr>shared := store_filter (Some f) (shared ?s1), client := ClientIdle\<rparr>"
  let ?s3 = "?s2\<lparr>isr := LoadedFilter f\<rparr>"
  let ?s4 = "?s3\<lparr>shared := store_filter None (shared ?s3), client := Deregistering, dereg_begun := True\<rparr>"
  let ?s5 = "?s4\<lparr>shared := store_arg None (shared ?s4), client := ClientIdle\<rparr>"
  let ?s6 = "?s5\<lparr>isr := Calling f (g_rp1_arg (shared ?s5))\<rparr>"
  let ?s7 = "?s6\<lparr>isr := IsrIdle, calls := calls ?s6 @ [(f, g_rp1_arg (shared ?s5))]\<rparr>"
  have any: "CGEM_INT_ANY AND CGEM_INT_ANY \<noteq> 0" by (simp add: CGEM_INT_ANY_def)
  have "race_reachable f a ?s1" by (rule race_next[OF race_start register_1]) (simp add: race_init_def)
  then have "race_reachable f a ?s2" by (rule race_next[OF _ register_2]) simp
  then have "race_reachable f a ?s3"
    by (rule race_next[OF _ isr_load_filter[OF _ any]]) (simp_all add: race_init_def store_filter_def)
  then have "race_reachable f a ?s4" by (rule race_next[OF _ deregister_1]) simp
  then have "race_reachable f a ?s5" by (rule race_next[OF _ deregister_2]) simp
  then have "race_reachable f a ?s6" by (rule race_next[OF _ isr_load_arg]) simp
  then have "race_reachable f a ?s7" by (rule race_next[OF _ isr_call]) simp
  then show ?thesis
    by (intro exI[of _ ?s7]) (simp add: store_arg_def)
qed

text \<open>C10: The ordering contract of the two words, over every interleaving of the
  atomic accesses: every call the handler makes is to the registered filter,
  and its argument is the registered one as long as no deregistration has
  begun; afterwards it is the registered one or NULL, never a stranger's.\<close>

theorem pcie_isr_contract:
  assumes "race_reachable f a s" "(h, x) \<in> set (calls s)"
  shows "h = f \<and> (x = Some a \<or> (dereg_begun s \<and> x = None))"
proof -
  have "good_call f a (dereg_begun s) (h, x)"
    using race_reachable_inv[OF assms(1)] assms(2) by (auto simp: race_inv_def)
  then show ?thesis by (auto simp: good_call_def)
qed

theorem pcie_isr_contract_witness:
  "\<exists>s h x. race_reachable 1 2 s \<and> (h, x) \<in> set (calls s) \<and> h = 1"
proof -
  obtain s where s: "race_reachable 1 2 s" "(1, None) \<in> set (calls s)" using race_run[of 1 2] by blast
  show ?thesis using s pcie_isr_contract[OF s] by blast
qed

text \<open>The comment at the two words promises that a NULL filter means that the
  argument is never read. A handler that has loaded the filter before a
  deregistration and loads the argument after it calls the filter with NULL:
  the acquire and release order does not rule that out.\<close>

theorem pcie_null_arg_race:
  "\<exists>s. race_reachable f a s \<and> (f, None) \<in> set (calls s)
     \<and> bcm2712_pcie_filter CGEM_INT_ANY (bcm2712_pcie_deregister_rp1_intr (bcm2712_pcie_register_rp1_intr f a g)) = None"
  using race_run[of f a]
  by (simp add: bcm2712_pcie_filter_def bcm2712_pcie_deregister_rp1_intr_def bcm2712_pcie_register_rp1_intr_def
      store_arg_def store_filter_def)

end
