(* ===== verification/FanIntegrated.thy ===== *)
theory FanIntegrated
  imports Rp1Pwm
begin

text \<open>
  The older fan module in one piece (src/rpi5_cooling_fan_integrated.c): the state
  machine with its hysteresis, the duty it asks of the PWM bus, the periodic
  tick, the validating sysctl handlers, the nodes they serve and the module events, over the model of
  the RP1 PWM driver behind that bus. The mutex and the kernel thread, which no
  code starts, are left out.
\<close>

section \<open>State\<close>

text \<open>The four thresholds, hystereses and speeds by their index; pwm_dev is whether the
  device is known.\<close>

record fan =
  pwm_dev :: bool
  pwm_channel :: nat
  fan_temp :: "nat \<Rightarrow> u32"
  fan_hyst :: "nat \<Rightarrow> u32"
  fan_speed :: "nat \<Rightarrow> u32"
  fan_current_state :: nat
  soc_temp :: u32
  thermal_active :: bool
  callout_armed :: bool

definition fan_defaults :: fan where
  "fan_defaults = \<lparr>pwm_dev = False, pwm_channel = 3,
     fan_temp = (!) [50000, 60000, 67500, 75000], fan_hyst = (!) [5000, 5000, 5000, 5000],
     fan_speed = (!) [75, 125, 175, 250], fan_current_state = 0, soc_temp = 50000, thermal_active = False, callout_armed = False\<rparr>"

section \<open>The state machine\<close>

definition next_state :: "fan \<Rightarrow> nat" where
  "next_state f =
     (let temp = soc_temp f; st = fan_current_state f in
      if st = 0 \<and> fan_temp f 0 \<le> temp then 1
      else if st = 1 \<and> temp < fan_temp f 0 - fan_hyst f 0 then 0
      else if st = 1 \<and> fan_temp f 1 \<le> temp then 2
      else if st = 2 \<and> temp < fan_temp f 1 - fan_hyst f 1 then 1
      else if st = 2 \<and> fan_temp f 2 \<le> temp then 3
      else if st = 3 \<and> temp < fan_temp f 2 - fan_hyst f 2 then 2
      else if st = 3 \<and> fan_temp f 3 \<le> temp then 4
      else if st = 4 \<and> temp < fan_temp f 3 - fan_hyst f 3 then 3
      else st)"

text \<open>The argument is 8 bits wide in the code; the settings are 32.\<close>

definition rpi5_speed_to_duty :: "u8 \<Rightarrow> u32" where
  "rpi5_speed_to_duty speed = 41566 * ucast speed div 255"

definition state_duty :: "fan \<Rightarrow> nat \<Rightarrow> u32" where
  "state_duty f st = (if st = 0 then 0 else if st \<le> 4 then rpi5_speed_to_duty (ucast (fan_speed f (st - 1))) else 0)"

definition update_fan_state :: "fan \<Rightarrow> rp1_pwm_softc \<Rightarrow> fan \<times> rp1_pwm_softc" where
  "update_fan_state f p =
     (let new_state = next_state f in
      if new_state \<noteq> fan_current_state f \<and> pwm_dev f then
        let duty = state_duty f new_state;
            (error, p) = rp1_pwm_channel_config (pwm_channel f) 41566 duty p
        in if error = ok
           then (f\<lparr>fan_current_state := new_state\<rparr>,
                 if 0 < duty then snd (rp1_pwm_channel_enable (pwm_channel f) True p) else p)
           else (f, p)
      else (f, p))"

section \<open>Tick, handlers, module events\<close>

text \<open>The sensor is a stub.\<close>

definition rpi5_read_cpu_temp :: u32 where "rpi5_read_cpu_temp = 50000"

definition thermal_tick :: "fan \<Rightarrow> rp1_pwm_softc \<Rightarrow> fan \<times> rp1_pwm_softc" where
  "thermal_tick f p =
     (let (f, p) = update_fan_state (f\<lparr>soc_temp := rpi5_read_cpu_temp\<rparr>) p in (f\<lparr>callout_armed := True\<rparr>, p))"

text \<open>err is the result of the library handler, new the value written, None for a read.\<close>

definition sysctl_fan_temp_handler :: "nat \<Rightarrow> rc \<Rightarrow> u32 option \<Rightarrow> fan \<Rightarrow> rp1_pwm_softc \<Rightarrow> rc \<times> fan \<times> rp1_pwm_softc" where
  "sysctl_fan_temp_handler k err new f p =
     (case new of
        None \<Rightarrow> (err, f, p)
      | Some value \<Rightarrow>
          if err \<noteq> ok then (err, f, p)
          else if 120000 < value then (fail EINVAL, f, p)
          else (ok, update_fan_state (f\<lparr>fan_temp := (fan_temp f)(k := value)\<rparr>) p))"

definition sysctl_fan_hyst_handler :: "nat \<Rightarrow> rc \<Rightarrow> u32 option \<Rightarrow> fan \<Rightarrow> rc \<times> fan" where
  "sysctl_fan_hyst_handler k err new f =
     (case new of
        None \<Rightarrow> (err, f)
      | Some value \<Rightarrow>
          if err \<noteq> ok then (err, f)
          else if 10000 < value then (fail EINVAL, f)
          else (ok, f\<lparr>fan_hyst := (fan_hyst f)(k := value)\<rparr>))"

definition sysctl_fan_speed_handler :: "nat \<Rightarrow> rc \<Rightarrow> u32 option \<Rightarrow> fan \<Rightarrow> rp1_pwm_softc \<Rightarrow> rc \<times> fan \<times> rp1_pwm_softc" where
  "sysctl_fan_speed_handler k err new f p =
     (case new of
        None \<Rightarrow> (err, f, p)
      | Some value \<Rightarrow>
          if err \<noteq> ok then (err, f, p)
          else if 255 < value then (fail EINVAL, f, p)
          else (ok, update_fan_state (f\<lparr>fan_speed := (fan_speed f)(k := value)\<rparr>) p))"

text \<open>The read-only nodes: the value shown, and EPERM for a write.\<close>

definition read_only_handler :: "(fan \<Rightarrow> u32) \<Rightarrow> rc \<Rightarrow> bool \<Rightarrow> fan \<Rightarrow> rc \<times> u32" where
  "read_only_handler shown err written f = (if err \<noteq> ok \<or> \<not> written then err else fail EPERM, shown f)"

definition sysctl_cpu_temp_handler :: "rc \<Rightarrow> bool \<Rightarrow> fan \<Rightarrow> rc \<times> u32" where
  "sysctl_cpu_temp_handler = read_only_handler soc_temp"

definition sysctl_fan_state_handler :: "rc \<Rightarrow> bool \<Rightarrow> fan \<Rightarrow> rc \<times> u32" where
  "sysctl_fan_state_handler = read_only_handler (\<lambda>f. of_nat (fan_current_state f))"

text \<open>The nodes of hw.rpi5.cooling_fan with the handler and the field each is made with;
  a threshold, hysteresis or speed by its index.\<close>

datatype setting_node = TempNode nat | HystNode nat | SpeedNode nat | CpuTempNode | StateNode

definition fan_nodes :: "(string \<times> setting_node) list" where
  "fan_nodes =
     [(''temp0'', TempNode 0), (''temp1'', TempNode 1), (''temp2'', TempNode 2), (''temp3'', TempNode 3),
      (''temp0_hyst'', HystNode 0), (''temp1_hyst'', HystNode 1), (''temp2_hyst'', HystNode 2), (''temp3_hyst'', HystNode 3),
      (''speed0'', SpeedNode 0), (''speed1'', SpeedNode 1), (''speed2'', SpeedNode 2), (''speed3'', SpeedNode 3),
      (''cpu_temp'', CpuTempNode), (''current_state'', StateNode)]"

fun node_shows :: "setting_node \<Rightarrow> fan \<Rightarrow> u32" where
  "node_shows (TempNode k) f = fan_temp f k"
| "node_shows (HystNode k) f = fan_hyst f k"
| "node_shows (SpeedNode k) f = fan_speed f k"
| "node_shows CpuTempNode f = soc_temp f"
| "node_shows StateNode f = of_nat (fan_current_state f)"

fun node_handler :: "setting_node \<Rightarrow> rc \<Rightarrow> u32 option \<Rightarrow> fan \<Rightarrow> rp1_pwm_softc \<Rightarrow> rc \<times> fan \<times> rp1_pwm_softc" where
  "node_handler (TempNode k) err new f p = sysctl_fan_temp_handler k err new f p"
| "node_handler (HystNode k) err new f p = (case sysctl_fan_hyst_handler k err new f of (r, f) \<Rightarrow> (r, f, p))"
| "node_handler (SpeedNode k) err new f p = sysctl_fan_speed_handler k err new f p"
| "node_handler CpuTempNode err new f p = (fst (sysctl_cpu_temp_handler err (new \<noteq> None) f), f, p)"
| "node_handler StateNode err new f p = (fst (sysctl_fan_state_handler err (new \<noteq> None) f), f, p)"

text \<open>An access by name: the kernel answers ENOENT where there is no node.\<close>

definition fan_sysctl :: "string \<Rightarrow> rc \<Rightarrow> u32 option \<Rightarrow> fan \<Rightarrow> rp1_pwm_softc \<Rightarrow> rc \<times> fan \<times> rp1_pwm_softc" where
  "fan_sysctl name err new f p =
     (case map_of fan_nodes name of None \<Rightarrow> (fail ENOENT, f, p) | Some n \<Rightarrow> node_handler n err new f p)"

datatype mod_event = MOD_LOAD | MOD_UNLOAD | MOD_OTHER

definition rpi5_cooling_fan_modevent :: "mod_event \<Rightarrow> fan \<Rightarrow> rp1_pwm_softc \<Rightarrow> rc \<times> fan \<times> rp1_pwm_softc" where
  "rpi5_cooling_fan_modevent e f p =
     (case e of
        MOD_LOAD \<Rightarrow> (ok, f\<lparr>pwm_dev := False, thermal_active := True, callout_armed := True\<rparr>, p)
      | MOD_UNLOAD \<Rightarrow>
          (ok, f\<lparr>thermal_active := False, callout_armed := False\<rparr>,
           if pwm_dev f then snd (rp1_pwm_channel_enable (pwm_channel f) False p) else p)
      | MOD_OTHER \<Rightarrow> (fail EOPNOTSUPP, f, p))"

section \<open>Settling\<close>

text \<open>Levels the machine has, and settings whose differences do not wrap.\<close>

definition unwrapped :: "fan \<Rightarrow> bool" where
  "unwrapped f \<longleftrightarrow> (\<forall>k<4. fan_hyst f k \<le> fan_temp f k)"

lemma sub_le: "h \<le> t \<Longrightarrow> t - h \<le> (t :: u32)"
  by (simp add: word_sub_le)

text \<open>The temperature below which a level is left downwards, and the one from which it is
  left upwards.\<close>

definition falls :: "fan \<Rightarrow> bool" where
  "falls f \<longleftrightarrow> 0 < fan_current_state f
     \<and> soc_temp f < fan_temp f (fan_current_state f - 1) - fan_hyst f (fan_current_state f - 1)"

definition rises_up :: "fan \<Rightarrow> bool" where
  "rises_up f \<longleftrightarrow> fan_current_state f < 4 \<and> fan_temp f (fan_current_state f) \<le> soc_temp f"

lemma next_state_cases:
  assumes "fan_current_state f \<le> 4"
  shows "next_state f = (if falls f then fan_current_state f - 1
    else if rises_up f then fan_current_state f + 1 else fan_current_state f)"
proof -
  consider (s0) "fan_current_state f = 0" | (s1) "fan_current_state f = 1" | (s2) "fan_current_state f = 2"
    | (s3) "fan_current_state f = 3" | (s4) "fan_current_state f = 4" using assms by linarith
  then show ?thesis by cases (simp_all add: next_state_def falls_def rises_up_def)
qed

lemma unat_duty: "unat (rpi5_speed_to_duty s) = 41566 * unat s div 255"
proof -
  have l: "unat s < 256" using unsigned_less[of s] by simp
  have u: "unat (ucast s :: u32) = unat s" using l by (simp add: unsigned_ucast_eq take_bit_nat_eq_self)
  then have "unat (41566 * ucast s :: u32) = 41566 * unat s" using l by (simp add: unat_word_ariths)
  then show ?thesis by (simp add: rpi5_speed_to_duty_def unat_div)
qed

lemma state_duty_le: "state_duty f st \<le> 41566"
proof -
  have "rpi5_speed_to_duty s \<le> 41566" for s
  proof -
    have "unat s < 256" using unsigned_less[of s] by simp
    then have "41566 * unat s \<le> 41566 * 255" by simp
    then have "41566 * unat s div 255 \<le> 41566 * 255 div 255" by (rule div_le_mono)
    then show ?thesis by (simp add: word_le_nat_alt unat_duty)
  qed
  then show ?thesis by (simp add: state_duty_def)
qed

lemma bus_accepts:
  assumes "pwm_channel f = 3" "pwm_dev f"
  shows "fst (update_fan_state f p) = f\<lparr>fan_current_state := next_state f\<rparr>"
proof -
  have tops: "pwm_top 41566 (Suc 0) = 3" by (simp add: pwm_top_def)
  have "div_loop 41566 1 = (1, 3)" unfolding div_loop.simps[of 41566 1] by (simp add: tops)
  then show ?thesis
    using assms state_duty_le[of f "next_state f"]
    by (simp add: update_fan_state_def rp1_pwm_channel_config_def rp1_pwm_hw_config_def Let_def not_less)
qed

text \<open>The rest of the state is untouched by an update.\<close>

lemma update_frame:
  "fan_temp (fst (update_fan_state f p)) = fan_temp f" "fan_hyst (fst (update_fan_state f p)) = fan_hyst f"
  "soc_temp (fst (update_fan_state f p)) = soc_temp f" "pwm_dev (fst (update_fan_state f p)) = pwm_dev f"
  "pwm_channel (fst (update_fan_state f p)) = pwm_channel f" "fan_speed (fst (update_fan_state f p)) = fan_speed f"
  by (simp_all add: update_fan_state_def Let_def split: prod.splits)

fun updates :: "nat \<Rightarrow> fan \<Rightarrow> rp1_pwm_softc \<Rightarrow> fan \<times> rp1_pwm_softc" where
  "updates 0 f p = (f, p)"
| "updates (Suc n) f p = (case update_fan_state f p of (f, p) \<Rightarrow> updates n f p)"

text \<open>How far the state is from rest in the direction it moves.\<close>

definition at_rest :: "fan \<Rightarrow> bool" where
  "at_rest f \<longleftrightarrow> \<not> falls f \<and> \<not> rises_up f"

lemma rest_stays:
  assumes "at_rest f" "fan_current_state f \<le> 4"
  shows "updates n f p = (f, p)"
proof -
  have "update_fan_state f p = (f, p)"
    using assms by (simp add: update_fan_state_def next_state_cases at_rest_def)
  then show ?thesis by (induction n) simp_all
qed

lemma unwrapped_direction:
  assumes "unwrapped f" "fan_current_state f \<le> 4"
  shows "rises_up f \<Longrightarrow> \<not> falls (f\<lparr>fan_current_state := fan_current_state f + 1\<rparr>)"
    and "falls f \<Longrightarrow> \<not> rises_up (f\<lparr>fan_current_state := fan_current_state f - 1\<rparr>)"
proof -
  have d: "fan_temp f k - fan_hyst f k \<le> fan_temp f k" if "k < 4" for k
    using assms(1) that sub_le by (simp add: unwrapped_def)
  show "rises_up f \<Longrightarrow> \<not> falls (f\<lparr>fan_current_state := fan_current_state f + 1\<rparr>)"
    using d[of "fan_current_state f"] by (auto simp: rises_up_def falls_def not_less)
  show "falls f \<Longrightarrow> \<not> rises_up (f\<lparr>fan_current_state := fan_current_state f - 1\<rparr>)"
    using d[of "fan_current_state f - 1"] assms(2) by (auto simp: rises_up_def falls_def not_le)
qed

lemma rising_settles:
  assumes "unwrapped f" "pwm_channel f = 3" "pwm_dev f" "\<not> falls f" "fan_current_state f + n \<ge> 4" "fan_current_state f \<le> 4"
  shows "at_rest (fst (updates n f p)) \<and> fan_current_state (fst (updates n f p)) \<le> 4
    \<and> fan_current_state f \<le> fan_current_state (fst (updates n f p))"
  using assms
proof (induction n arbitrary: f p)
  case 0
  then show ?case by (simp add: at_rest_def rises_up_def)
next
  case (Suc n)
  show ?case
  proof (cases "rises_up f")
    case False
    then have "at_rest f" using Suc.prems(4) by (simp add: at_rest_def)
    then show ?thesis using rest_stays[of f "Suc n" p] Suc.prems(6) by simp
  next
    case True
    obtain f1 p1 where u: "update_fan_state f p = (f1, p1)" by (cases "update_fan_state f p")
    have f1: "f1 = f\<lparr>fan_current_state := fan_current_state f + 1\<rparr>"
      using bus_accepts[OF Suc.prems(2,3), of p] next_state_cases[OF Suc.prems(6)] Suc.prems(4) True u by simp
    have lt: "fan_current_state f < 4" using True by (simp add: rises_up_def)
    have "at_rest (fst (updates n f1 p1)) \<and> fan_current_state (fst (updates n f1 p1)) \<le> 4
      \<and> fan_current_state f1 \<le> fan_current_state (fst (updates n f1 p1))"
    proof (rule Suc.IH)
      show "unwrapped f1" using Suc.prems(1) by (simp add: f1 unwrapped_def)
      show "\<not> falls f1" using unwrapped_direction(1)[OF Suc.prems(1,6) True] by (simp add: f1)
    qed (use Suc.prems lt in \<open>simp_all add: f1\<close>)
    then show ?thesis using u f1 by simp
  qed
qed

lemma falling_settles:
  assumes "unwrapped f" "pwm_channel f = 3" "pwm_dev f" "\<not> rises_up f" "fan_current_state f \<le> n" "fan_current_state f \<le> 4"
  shows "at_rest (fst (updates n f p)) \<and> fan_current_state (fst (updates n f p)) \<le> 4
    \<and> fan_current_state (fst (updates n f p)) \<le> fan_current_state f"
  using assms
proof (induction n arbitrary: f p)
  case 0
  then show ?case by (simp add: at_rest_def falls_def)
next
  case (Suc n)
  show ?case
  proof (cases "falls f")
    case False
    then have "at_rest f" using Suc.prems(4) by (simp add: at_rest_def)
    then show ?thesis using rest_stays[of f "Suc n" p] Suc.prems(6) by simp
  next
    case True
    obtain f1 p1 where u: "update_fan_state f p = (f1, p1)" by (cases "update_fan_state f p")
    have f1: "f1 = f\<lparr>fan_current_state := fan_current_state f - 1\<rparr>"
      using bus_accepts[OF Suc.prems(2,3), of p] next_state_cases[OF Suc.prems(6)] True u by simp
    have "at_rest (fst (updates n f1 p1)) \<and> fan_current_state (fst (updates n f1 p1)) \<le> 4
      \<and> fan_current_state (fst (updates n f1 p1)) \<le> fan_current_state f1"
    proof (rule Suc.IH)
      show "unwrapped f1" using Suc.prems(1) by (simp add: f1 unwrapped_def)
      show "\<not> rises_up f1" using unwrapped_direction(2)[OF Suc.prems(1,6) True] by (simp add: f1)
    qed (use Suc.prems True in \<open>auto simp: f1 falls_def\<close>)
    then show ?thesis using u f1 by auto
  qed
qed



section \<open>A hysteresis above its threshold\<close>

text \<open>The handlers accept a first threshold below its hysteresis. Then the unsigned
  difference wraps, and at any temperature from the threshold on the fan goes on
  and off with every update, for ever.\<close>

theorem fan_flaps:
  assumes "fan_temp f 0 < fan_hyst f 0" "fan_hyst f 0 \<le> 10000" "fan_temp f 0 \<le> soc_temp f" "soc_temp f \<le> 120000"
    and "pwm_channel f = 3" "pwm_dev f" "fan_current_state f \<le> 1"
  shows "fan_current_state (fst (updates n f p)) = (fan_current_state f + n) mod 2"
  using assms
proof (induction n arbitrary: f p)
  case (Suc n)
  let ?t = "fan_temp f 0" and ?h = "fan_hyst f 0"
  have wrap: "soc_temp f < ?t - ?h"
  proof -
    have u: "unat ?t < unat ?h" "unat ?h \<le> 10000" "unat (soc_temp f) \<le> 120000"
      using Suc.prems(1,2,4) by (simp_all add: word_less_nat_alt word_le_nat_alt)
    then have "unat (?t - ?h) = 2 ^ 32 + unat ?t - unat ?h" by (simp add: unat_sub_if_size word_size)
    then show ?thesis using u by (simp add: word_less_nat_alt)
  qed
  obtain f1 p1 where u: "update_fan_state f p = (f1, p1)" by (cases "update_fan_state f p")
  have next_st: "next_state f = 1 - fan_current_state f"
    using Suc.prems(3,7) wrap by (cases "fan_current_state f = 0") (auto simp: next_state_def Let_def le_Suc_eq)
  then have f1: "f1 = f\<lparr>fan_current_state := 1 - fan_current_state f\<rparr>"
    using bus_accepts[OF Suc.prems(5,6), of p] u by simp
  have "fan_current_state (fst (updates n f1 p1)) = (fan_current_state f1 + n) mod 2"
    by (rule Suc.IH) (use Suc.prems in \<open>simp_all add: f1\<close>)
  moreover have "(1 - fan_current_state f + n) mod 2 = (fan_current_state f + Suc n) mod 2"
  proof -
    consider "fan_current_state f = 0" | "fan_current_state f = 1" using Suc.prems(7) by linarith
    then show ?thesis by cases simp_all
  qed
  ultimately show ?case using u f1 by simp
qed simp

text \<open>A threshold of 5 degrees and a hysteresis of 10, written through the handlers, at
  30 degrees.\<close>

theorem fan_flaps_witness:
  "map (\<lambda>n. fan_current_state (fst (updates n
      ((snd (sysctl_fan_hyst_handler 0 ok (Some 10000)
         (fst (snd (sysctl_fan_temp_handler 0 ok (Some 5000) (fan_defaults\<lparr>soc_temp := 30000\<rparr>) blank_pwm)))))\<lparr>pwm_dev := True\<rparr>)
      blank_pwm))) [0, 1, 2, 3] = [0, 1, 0, 1]"
proof -
  define f where "f = (snd (sysctl_fan_hyst_handler 0 ok (Some 10000)
         (fst (snd (sysctl_fan_temp_handler 0 ok (Some 5000) (fan_defaults\<lparr>soc_temp := 30000\<rparr>) blank_pwm)))))\<lparr>pwm_dev := True\<rparr>"
  have f: "fan_temp f 0 = 5000" "fan_hyst f 0 = 10000" "soc_temp f = 30000" "pwm_channel f = 3" "pwm_dev f"
    "fan_current_state f = 0"
    by (simp_all add: f_def sysctl_fan_hyst_handler_def sysctl_fan_temp_handler_def update_fan_state_def Let_def fan_defaults_def)
  have "fan_current_state (fst (updates n f blank_pwm)) = n mod 2" for n
    using fan_flaps[of f n blank_pwm] by (simp add: f)
  then show ?thesis by (simp add: f_def[symmetric])
qed

section \<open>The settings\<close>

text \<open>What can happen to the module between its load and its unload: the callout, and
  accesses to its nodes with the result of the library handler and the value written.\<close>

datatype fan_event = Tick | Access string rc "u32 option"

fun fan_happens :: "fan_event \<Rightarrow> fan \<times> rp1_pwm_softc \<Rightarrow> fan \<times> rp1_pwm_softc" where
  "fan_happens Tick (f, p) = thermal_tick f p"
| "fan_happens (Access name err new) (f, p) = snd (fan_sysctl name err new f p)"

definition fan_run :: "fan_event list \<Rightarrow> fan \<times> rp1_pwm_softc \<Rightarrow> fan \<times> rp1_pwm_softc" where
  "fan_run es s = fold fan_happens es s"

text \<open>What the settings promise, and the state.\<close>

definition settings_ok :: "fan \<Rightarrow> bool" where
  "settings_ok f \<longleftrightarrow> (\<forall>k<4. fan_temp f k \<le> 120000 \<and> fan_hyst f k \<le> 10000 \<and> fan_speed f k \<le> 255) \<and> fan_current_state f \<le> 4"

lemma settings_update: "settings_ok f \<Longrightarrow> settings_ok (fst (update_fan_state f p))"
  using next_state_cases[of f]
  by (auto simp: settings_ok_def update_fan_state_def Let_def falls_def rises_up_def split: prod.splits)

lemma settings_handler:
  "settings_ok f \<Longrightarrow> settings_ok (fst (snd (node_handler n err new f p)))"
  by (induction n err new f p rule: node_handler.induct)
     (auto simp: sysctl_fan_temp_handler_def sysctl_fan_hyst_handler_def sysctl_fan_speed_handler_def not_less
        split: option.splits intro!: settings_update, auto simp: settings_ok_def)

lemma settings_happens: "settings_ok (fst s) \<Longrightarrow> settings_ok (fst (fan_happens e s))"
proof (induction e s rule: fan_happens.induct)
  case (1 f p)
  then have "settings_ok (f\<lparr>soc_temp := rpi5_read_cpu_temp\<rparr>)" by (simp add: settings_ok_def)
  from settings_update[OF this, of p] show ?case
    by (simp add: thermal_tick_def settings_ok_def split_beta)
next
  case (2 name err new f p)
  then show ?case by (simp add: fan_sysctl_def settings_handler split: option.splits)
qed

text \<open>Over every history of ticks and accesses from the defaults the settings stay in the
  range their handlers check, and so the conversion to 8 bits in the choice of the duty
  loses nothing.\<close>

lemma settings_kept: "settings_ok (fst s) \<Longrightarrow> settings_ok (fst (fan_run es s))"
  unfolding fan_run_def by (induction es arbitrary: s) (simp_all add: settings_happens)

lemma defaults_settings: "settings_ok fan_defaults"
proof -
  have "k \<in> {0, 1, 2, 3}" if "k < 4" for k :: nat using that by auto
  then show ?thesis by (fastforce simp: settings_ok_def fan_defaults_def)
qed

lemma duty_exact:
  assumes "settings_ok f" "0 < st" "st \<le> 4"
  shows "unat (state_duty f st) = 41566 * unat (fan_speed f (st - 1)) div 255"
proof -
  have "fan_speed f (st - 1) \<le> 255" using assms by (simp add: settings_ok_def)
  then have "unat (fan_speed f (st - 1)) \<le> 255" by (simp add: word_le_nat_alt)
  then have "unat (ucast (fan_speed f (st - 1)) :: u8) = unat (fan_speed f (st - 1))"
    by (simp add: unsigned_ucast_eq take_bit_nat_eq_self)
  then show ?thesis using assms by (simp add: state_duty_def unat_duty)
qed

text \<open>The highest value the handler of a node takes.\<close>

fun node_limit :: "setting_node \<Rightarrow> u32 option" where
  "node_limit (TempNode k) = Some 120000"
| "node_limit (HystNode k) = Some 10000"
| "node_limit (SpeedNode k) = Some 255"
| "node_limit CpuTempNode = None"
| "node_limit StateNode = None"

text \<open>A write through the tree, over all fourteen nodes: taken exactly up to the limit of
  the node, which then shows the value; every other node but that of the state shows what
  it showed. A refused write changes nothing.\<close>

theorem node_write:
  assumes "map_of fan_nodes name = Some n" "fan_sysctl name ok (Some v) f p = (r, f', p')"
  shows "(case node_limit n of
      None \<Rightarrow> r = fail EPERM \<and> f' = f \<and> p' = p
    | Some l \<Rightarrow> if l < v then r = fail EINVAL \<and> f' = f \<and> p' = p
        else r = ok \<and> node_shows n f' = v \<and> (\<forall>m. m \<noteq> n \<and> m \<noteq> StateNode \<longrightarrow> node_shows m f' = node_shows m f))"
proof -
  have h: "node_handler n ok (Some v) f p = (r, f', p')" using assms by (simp add: fan_sysctl_def)
  have frame: "fan_temp f1 = fan_temp f0 \<and> fan_hyst f1 = fan_hyst f0 \<and> fan_speed f1 = fan_speed f0 \<and> soc_temp f1 = soc_temp f0"
    if "update_fan_state f0 p = (f1, p1)" for f0 f1 p1
    using update_frame[of f0 p] that by simp
  have others: "node_shows m f' = node_shows m f"
    if "m \<noteq> n" "m \<noteq> StateNode" "\<not> the (node_limit n) < v" "node_limit n \<noteq> None" for m
    using h that
    by (cases n; cases m)
       (auto simp: sysctl_fan_temp_handler_def sysctl_fan_hyst_handler_def sysctl_fan_speed_handler_def dest!: frame)
  show ?thesis
    using h others
    by (cases n)
       (auto simp: sysctl_fan_temp_handler_def sysctl_fan_hyst_handler_def sysctl_fan_speed_handler_def
         sysctl_cpu_temp_handler_def sysctl_fan_state_handler_def read_only_handler_def dest: frame split: if_splits)
qed

section \<open>The fan is never driven\<close>

lemma undriven: "\<not> pwm_dev f \<Longrightarrow> update_fan_state f p = (f, p)"
  by (simp add: update_fan_state_def)

lemma handler_undriven:
  "\<not> pwm_dev f \<Longrightarrow> snd (node_handler n err new f p) = (f', p') \<Longrightarrow>
   p' = p \<and> \<not> pwm_dev f' \<and> fan_current_state f' = fan_current_state f"
  by (induction n err new f p rule: node_handler.induct)
     (auto simp: sysctl_fan_temp_handler_def sysctl_fan_hyst_handler_def sysctl_fan_speed_handler_def undriven
        split: option.splits if_splits)

lemma happens_undriven:
  "\<not> pwm_dev f \<Longrightarrow> fan_happens e (f, p) = (f', p') \<Longrightarrow>
   p' = p \<and> \<not> pwm_dev f' \<and> fan_current_state f' = fan_current_state f"
  by (cases e)
     (auto simp: thermal_tick_def undriven fan_sysctl_def split: option.splits dest: handler_undriven)

lemma run_undriven:
  "\<not> pwm_dev f \<Longrightarrow> fan_run es (f, p) = (f', p') \<Longrightarrow> p' = p \<and> \<not> pwm_dev f' \<and> fan_current_state f' = fan_current_state f"
  unfolding fan_run_def
proof (induction es arbitrary: f p)
  case (Cons e es)
  obtain f1 p1 where s: "fan_happens e (f, p) = (f1, p1)" by fastforce
  then show ?case using Cons.IH[of f1 p1] Cons.prems happens_undriven[OF Cons.prems(1) s] by simp
qed simp

text \<open>The module sets its device to none when it is loaded and nothing looks for it
  later: over every history of ticks and settings, and the unload after it, the
  PWM controller is never touched and the state never leaves the one it had at
  load.\<close>

theorem fan_never_driven:
  assumes "rpi5_cooling_fan_modevent MOD_LOAD f p = (r, f0, p0)" "fan_run es (f0, p0) = (f1, p1)"
    and "rpi5_cooling_fan_modevent MOD_UNLOAD f1 p1 = (r', f2, p2)"
  shows "p2 = p \<and> fan_current_state f2 = fan_current_state f \<and> \<not> callout_armed f2"
  using assms run_undriven[of f0 es p0 f1 p1] by (auto simp: rpi5_cooling_fan_modevent_def)

theorem fan_never_driven_witness:
  "snd (snd (rpi5_cooling_fan_modevent MOD_UNLOAD
     (fst (fan_run [Access ''temp0'' ok (Some 20000), Tick, Access ''speed0'' ok (Some 255), Tick]
        (snd (rpi5_cooling_fan_modevent MOD_LOAD fan_defaults blank_pwm))))
     (snd (fan_run [Access ''temp0'' ok (Some 20000), Tick, Access ''speed0'' ok (Some 255), Tick]
        (snd (rpi5_cooling_fan_modevent MOD_LOAD fan_defaults blank_pwm)))))) = blank_pwm"
proof -
  obtain r f0 p0 where l: "rpi5_cooling_fan_modevent MOD_LOAD fan_defaults blank_pwm = (r, f0, p0)" by (metis prod_cases3)
  obtain f1 p1 where e: "fan_run [Access ''temp0'' ok (Some 20000), Tick, Access ''speed0'' ok (Some 255), Tick] (f0, p0) = (f1, p1)" by fastforce
  obtain r' f2 p2 where x: "rpi5_cooling_fan_modevent MOD_UNLOAD f1 p1 = (r', f2, p2)" by (metis prod_cases3)
  show ?thesis using fan_never_driven[OF l e x] unfolding l snd_conv e fst_conv x by blast
qed

end
