(* ===== verification/EthFdt.thy ===== *)
theory EthFdt
  imports Prelude
begin

text \<open>
  How the Ethernet module finds its hardware in the device tree
  (src/rp1_eth_cfg.c): the test of a compatible list, the depth-first search and
  the reading of the MAC address, the PHY mode, the PHY address and the reset
  line into the softc, with the stores past a buffer as a result of their own.
\<close>

section \<open>The device tree\<close>

text \<open>A node has a handle, its properties and its children in order. OF_getprop
  answers the length of the property, -1 without it, and copies at most as much as
  the buffer holds; OF_finddevice answers -1 when there is no such node.\<close>

datatype fdt_node = Node (handle: u32) (getprop: "string \<Rightarrow> bytes option") (children: "fdt_node list")

definition OF_getprop :: "fdt_node \<Rightarrow> string \<Rightarrow> nat \<Rightarrow> int \<times> bytes" where
  "OF_getprop nd name buflen =
     (case getprop nd name of None \<Rightarrow> (-1, []) | Some v \<Rightarrow> (int (length v), take buflen v))"

definition OF_finddevice :: "fdt_node option \<Rightarrow> u32" where
  "OF_finddevice t = (case t of None \<Rightarrow> -1 | Some nd \<Rightarrow> handle nd)"

definition ascii :: "string \<Rightarrow> bytes" where "ascii s = map of_char s"

section \<open>Compatible lists\<close>

definition c_string :: "bytes \<Rightarrow> bytes" where "c_string b = takeWhile (\<lambda>c. c \<noteq> 0) b"

text \<open>The scan of the loop, over the part of the buffer before its end.\<close>

function compat_scan :: "bytes \<Rightarrow> bytes \<Rightarrow> bool" where
  "compat_scan wanted s =
     (if s = [] then False
      else if c_string s = wanted then True
      else compat_scan wanted (drop (length (c_string s) + 1) s))"
  by pat_completeness auto
termination by (relation "measure (\<lambda>(wanted, s). length s)") auto

declare compat_scan.simps [simp del]

text \<open>The buffer has 256 bytes; None is a terminating zero stored outside it.\<close>

definition rp1_eth_node_is_compatible :: "fdt_node \<Rightarrow> bytes \<Rightarrow> bool option" where
  "rp1_eth_node_is_compatible nd wanted =
     (let (len, buf) = OF_getprop nd ''compatible'' 255 in
      if len \<le> 0 then Some False
      else if 256 \<le> len then None
      else Some (compat_scan wanted buf))"

section \<open>The search\<close>

text \<open>The outer option is a store outside a buffer, the inner one the phandle 0.\<close>

fun rp1_eth_fdt_find_compat :: "bytes \<Rightarrow> fdt_node \<Rightarrow> fdt_node option option"
  and find_children :: "bytes \<Rightarrow> fdt_node list \<Rightarrow> fdt_node option option" where
  "rp1_eth_fdt_find_compat wanted (Node h p cs) =
     (case rp1_eth_node_is_compatible (Node h p cs) wanted of
        None \<Rightarrow> None
      | Some True \<Rightarrow> Some (Some (Node h p cs))
      | Some False \<Rightarrow> find_children wanted cs)"
| "find_children wanted [] = Some None"
| "find_children wanted (c # cs) =
     (case rp1_eth_fdt_find_compat wanted c of
        None \<Rightarrow> None
      | Some (Some found) \<Rightarrow> Some (Some found)
      | Some None \<Rightarrow> find_children wanted cs)"

section \<open>The metadata\<close>

record eth_meta =
  mac_addr :: bytes
  phy_mode :: bytes
  cfg_phy_addr :: u32
  phy_reset_gpio :: u32
  phy_reset_flags :: u32

abbreviation "RP1_ETH_COMPAT_PRIMARY \<equiv> ascii ''raspberrypi,rp1-gem''"
abbreviation "RP1_ETH_PHY_MODE_RGMII_ID \<equiv> ascii ''rgmii-id''"
abbreviation "RPI5_COMPAT_5B \<equiv> ascii ''raspberrypi,5-model-b''"
abbreviation "RPI5_COMPAT_CM5 \<equiv> ascii ''raspberrypi,5-compute-module''"

definition RP1_ETH_PHY_RESET_GPIO :: u32 where "RP1_ETH_PHY_RESET_GPIO = 32"

definition read_mac :: "fdt_node \<Rightarrow> eth_meta \<Rightarrow> eth_meta" where
  "read_mac gem m =
     (let (len, mac) = OF_getprop gem ''local-mac-address'' 6 in
      m\<lparr>mac_addr := if len = 6 then mac else replicate 6 0\<rparr>)"

text \<open>The mode is kept up to its first zero; None is the zero stored behind the 32 bytes
  of the array.\<close>

definition read_phy_mode :: "fdt_node \<Rightarrow> eth_meta \<Rightarrow> eth_meta option" where
  "read_phy_mode gem m =
     (let (len, mode) = OF_getprop gem ''phy-mode'' 31 in
      if 32 \<le> len then None
      else Some (m\<lparr>phy_mode := if 0 < len then c_string mode else []\<rparr>))"

text \<open>xref resolves a phandle to its node, if it has one.\<close>

definition read_phy_addr :: "(u32 \<Rightarrow> fdt_node option) \<Rightarrow> fdt_node \<Rightarrow> eth_meta \<Rightarrow> eth_meta" where
  "read_phy_addr xref gem m =
     (let (len, v) = OF_getprop gem ''phy-handle'' 4 in
      if len = 4 then
        (case xref (rd_be32 v 0) of
           None \<Rightarrow> m
         | Some phy_node \<Rightarrow>
             (let (len, r) = OF_getprop phy_node ''reg'' 4 in
              if len = 4 then m\<lparr>cfg_phy_addr := rd_be32 r 0\<rparr> else m))
      else m)"

definition read_reset :: "fdt_node \<Rightarrow> eth_meta \<Rightarrow> eth_meta" where
  "read_reset gem m =
     (let (len, cells) = OF_getprop gem ''phy-reset-gpios'' 12 in
      if 12 \<le> len then m\<lparr>phy_reset_gpio := rd_be32 cells 4, phy_reset_flags := rd_be32 cells 8\<rparr>
      else m\<lparr>phy_reset_gpio := RP1_ETH_PHY_RESET_GPIO, phy_reset_flags := 1\<rparr>)"

text \<open>The root is asked only through the tree; tree is None when there is none.\<close>

definition compat_any :: "fdt_node option \<Rightarrow> bytes \<Rightarrow> bool option" where
  "compat_any t wanted = (case t of None \<Rightarrow> Some False | Some nd \<Rightarrow> rp1_eth_node_is_compatible nd wanted)"

definition find_gem :: "fdt_node option \<Rightarrow> fdt_node option option" where
  "find_gem t = (case t of None \<Rightarrow> Some None | Some nd \<Rightarrow> rp1_eth_fdt_find_compat RP1_ETH_COMPAT_PRIMARY nd)"

definition rp1_eth_fdt_read_metadata :: "fdt_node option \<Rightarrow> (u32 \<Rightarrow> fdt_node option) \<Rightarrow> eth_meta \<Rightarrow> (rc \<times> eth_meta) option" where
  "rp1_eth_fdt_read_metadata tree xref m =
     (if OF_finddevice tree = 0 then Some (fail ENODEV, m)
      else case compat_any tree RPI5_COMPAT_5B of
        None \<Rightarrow> None
      | Some pi5b \<Rightarrow>
      (case if pi5b then Some True else compat_any tree RPI5_COMPAT_CM5 of
        None \<Rightarrow> None
      | Some False \<Rightarrow> Some (fail ENXIO, m)
      | Some True \<Rightarrow>
      (case find_gem tree of
        None \<Rightarrow> None
      | Some None \<Rightarrow> Some (fail ENODEV, m)
      | Some (Some gem) \<Rightarrow>
      (case read_phy_mode gem (read_mac gem m) of
        None \<Rightarrow> None
      | Some m \<Rightarrow>
          if phy_mode m \<noteq> RP1_ETH_PHY_MODE_RGMII_ID then Some (fail ENXIO, m)
          else Some (ok, read_reset gem (read_phy_addr xref gem m))))))"

section \<open>The compatible list as a list of strings\<close>

definition compat_list :: "bytes list \<Rightarrow> bytes" where
  "compat_list ss = concat (map (\<lambda>s. s @ [0]) ss)"

lemma c_string_append: "0 \<notin> set s \<Longrightarrow> c_string (s @ 0 # r) = s"
  unfolding c_string_def by (induction s) auto

lemma scan_compat_list:
  "(\<forall>s \<in> set ss. 0 \<notin> set s) \<Longrightarrow> compat_scan wanted (compat_list ss) \<longleftrightarrow> wanted \<in> set ss"
proof (induction ss)
  case Nil
  then show ?case by (simp add: compat_list_def compat_scan.simps)
next
  case (Cons s ss)
  have l: "compat_list (s # ss) = s @ 0 # compat_list ss" by (simp add: compat_list_def)
  show ?case
    unfolding l by (subst compat_scan.simps) (use Cons in \<open>auto simp: c_string_append\<close>)
qed

lemma is_compatible_list:
  assumes "getprop nd ''compatible'' = Some (compat_list ss)" "\<forall>s \<in> set ss. 0 \<notin> set s" "length (compat_list ss) < 256"
  shows "rp1_eth_node_is_compatible nd wanted = Some (wanted \<in> set ss)"
  using assms scan_compat_list[OF assms(2), of wanted]
  by (cases ss) (auto simp: rp1_eth_node_is_compatible_def OF_getprop_def compat_list_def)

text \<open>A node's list, when it has one that fits.\<close>

definition fitting :: "fdt_node \<Rightarrow> bool" where
  "fitting nd \<longleftrightarrow> (case getprop nd ''compatible'' of None \<Rightarrow> True | Some v \<Rightarrow> length v < 256)"

definition claims :: "fdt_node \<Rightarrow> bytes \<Rightarrow> bool" where
  "claims nd wanted \<longleftrightarrow> (case getprop nd ''compatible'' of None \<Rightarrow> False | Some v \<Rightarrow> compat_scan wanted v)"

lemma is_compatible_claims: "rp1_eth_node_is_compatible nd wanted = (if fitting nd then Some (claims nd wanted) else None)"
  by (auto simp: rp1_eth_node_is_compatible_def OF_getprop_def fitting_def claims_def compat_scan.simps split: option.splits)

section \<open>The search is the first match in document order\<close>

fun preorder :: "fdt_node \<Rightarrow> fdt_node list" where
  "preorder (Node h p cs) = Node h p cs # concat (map preorder cs)"

lemma preorder_self: "nd \<in> set (preorder nd)"
  by (cases nd) simp

lemma find_append:
  "find P (xs @ ys) = (case find P xs of None \<Rightarrow> find P ys | Some x \<Rightarrow> Some x)"
  by (induction xs) simp_all

lemma find_compat_preorder:
  "list_all fitting (preorder nd) \<Longrightarrow> rp1_eth_fdt_find_compat wanted nd = Some (find (\<lambda>n. claims n wanted) (preorder nd))"
  and find_children_preorder:
  "list_all fitting (concat (map preorder cs)) \<Longrightarrow>
     find_children wanted cs = Some (find (\<lambda>n. claims n wanted) (concat (map preorder cs)))"
  by (induction wanted nd and wanted cs rule: rp1_eth_fdt_find_compat_find_children.induct)
     (auto simp: is_compatible_claims find_append split: option.splits)

text \<open>C35: In a tree whose compatible properties are lists of strings, each at most 255
  bytes, the search answers the first node in document order that lists the string,
  and nothing when no node does.\<close>

theorem fdt_search_first:
  assumes "list_all (\<lambda>n. getprop n ''compatible'' = (if names n = [] then None else Some (compat_list (names n)))
      \<and> list_all (\<lambda>s. 0 \<notin> set s) (names n) \<and> length (compat_list (names n)) < 256) (preorder nd)"
  shows "rp1_eth_fdt_find_compat wanted nd = Some (find (\<lambda>n. wanted \<in> set (names n)) (preorder nd))"
proof -
  have c: "fitting n \<and> claims n wanted = (wanted \<in> set (names n))" if "n \<in> set (preorder nd)" for n
  proof -
    have g: "getprop n ''compatible'' = (if names n = [] then None else Some (compat_list (names n)))"
      "\<forall>s \<in> set (names n). 0 \<notin> set s" "length (compat_list (names n)) < 256"
      using assms that by (auto simp: list_all_iff)
    then show ?thesis using scan_compat_list[OF g(2), of wanted] by (simp add: fitting_def claims_def)
  qed
  then have "list_all fitting (preorder nd)" by (simp add: list_all_iff)
  then have "rp1_eth_fdt_find_compat wanted nd = Some (find (\<lambda>n. claims n wanted) (preorder nd))"
    by (rule find_compat_preorder)
  also have "find (\<lambda>n. claims n wanted) (preorder nd) = find (\<lambda>n. wanted \<in> set (names n)) (preorder nd)"
    using c by (intro find_cong) auto
  finally show ?thesis .
qed

text \<open>Two nodes list the string; the one under the first child comes first.\<close>

definition named_node :: "u32 \<Rightarrow> string list \<Rightarrow> fdt_node list \<Rightarrow> fdt_node" where
  "named_node h ss cs = Node h ((\<lambda>_. None)(''compatible'' := if ss = [] then None else Some (compat_list (map ascii ss)))) cs"

theorem fdt_search_first_witness:
  "map_option (map_option handle) (rp1_eth_fdt_find_compat (ascii ''m'')
     (named_node 1 [''b''] [named_node 2 [] [named_node 3 [''a'', ''m''] []], named_node 4 [''m''] []])) = Some (Some 3)"
proof -
  let ?nd = "named_node 1 [''b''] [named_node 2 [] [named_node 3 [''a'', ''m''] []], named_node 4 [''m''] []]"
  let ?names = "\<lambda>n. (case handle n of x \<Rightarrow> if x = 1 then [ascii ''b''] else if x = 3 then [ascii ''a'', ascii ''m'']
      else if x = 4 then [ascii ''m''] else [])"
  have w: "list_all (\<lambda>n. getprop n ''compatible'' = (if ?names n = [] then None else Some (compat_list (?names n)))
      \<and> list_all (\<lambda>s. 0 \<notin> set s) (?names n) \<and> length (compat_list (?names n)) < 256) (preorder ?nd)"
    by (simp add: named_node_def ascii_def compat_list_def of_char_def)
  show ?thesis
    unfolding fdt_search_first[OF w] by (simp add: named_node_def ascii_def of_char_def)
qed

section \<open>What the reading accepts\<close>

lemma read_phy_mode_eq:
  "read_phy_mode gem m = (case getprop gem ''phy-mode'' of None \<Rightarrow> Some (m\<lparr>phy_mode := []\<rparr>)
     | Some v \<Rightarrow> if length v < 32 then Some (m\<lparr>phy_mode := c_string v\<rparr>) else None)"
  by (auto simp: read_phy_mode_def OF_getprop_def c_string_def split: option.splits)

lemma read_mac_length: "length (mac_addr (read_mac gem m)) = 6"
  by (simp add: read_mac_def OF_getprop_def split: option.splits)

lemma read_rest_keeps:
  "phy_mode (read_reset gem (read_phy_addr xref gem m)) = phy_mode m"
  "mac_addr (read_reset gem (read_phy_addr xref gem m)) = mac_addr m"
  by (auto simp: read_reset_def read_phy_addr_def OF_getprop_def Let_def split: option.splits if_splits)

lemma accept_gem:
  assumes "(case read_phy_mode gem (read_mac gem m) of None \<Rightarrow> None
      | Some m \<Rightarrow> if phy_mode m \<noteq> RP1_ETH_PHY_MODE_RGMII_ID then Some (fail ENXIO, m)
          else Some (ok, read_reset gem (read_phy_addr xref gem m))) = Some (r, m')"
  shows "(r = ok \<longleftrightarrow> (\<exists>v. getprop gem ''phy-mode'' = Some v \<and> length v < 32 \<and> c_string v = RP1_ETH_PHY_MODE_RGMII_ID))
    \<and> (r = ok \<longrightarrow> phy_mode m' = RP1_ETH_PHY_MODE_RGMII_ID \<and> length (mac_addr m') = 6)"
proof (cases "getprop gem ''phy-mode''")
  case None
  moreover have "RP1_ETH_PHY_MODE_RGMII_ID \<noteq> []" by (simp add: ascii_def)
  ultimately show ?thesis using assms by (auto simp: read_phy_mode_eq)
next
  case (Some v)
  then show ?thesis
    using assms read_mac_length[of gem m] read_rest_keeps[of gem xref] by (auto simp: read_phy_mode_eq split: if_splits)
qed

text \<open>Where no property overruns its buffer, the hardware is accepted exactly on a Pi 5
  or its compute module, with a gem node, whose PHY mode is rgmii-id.\<close>

theorem metadata_accepts:
  assumes "list_all fitting (preorder root)" "handle root \<noteq> 0"
    and "rp1_eth_fdt_read_metadata (Some root) xref m = Some (r, m')"
  shows "(r = ok \<longleftrightarrow> (claims root RPI5_COMPAT_5B \<or> claims root RPI5_COMPAT_CM5)
      \<and> (\<exists>gem v. find (\<lambda>n. claims n RP1_ETH_COMPAT_PRIMARY) (preorder root) = Some gem
           \<and> getprop gem ''phy-mode'' = Some v \<and> length v < 32 \<and> c_string v = RP1_ETH_PHY_MODE_RGMII_ID))
    \<and> (r = ok \<longrightarrow> phy_mode m' = RP1_ETH_PHY_MODE_RGMII_ID \<and> length (mac_addr m') = 6)"
proof -
  have f: "fitting root" using assms(1) preorder_self by (auto simp: list_all_iff)
  have s: "find_gem (Some root) = Some (find (\<lambda>n. claims n RP1_ETH_COMPAT_PRIMARY) (preorder root))"
    using assms(1) by (simp add: find_gem_def find_compat_preorder)
  show ?thesis
  proof (cases "claims root RPI5_COMPAT_5B \<or> claims root RPI5_COMPAT_CM5")
    case False
    then show ?thesis using assms(2,3) f
      by (auto simp: rp1_eth_fdt_read_metadata_def OF_finddevice_def compat_any_def is_compatible_claims)
  next
    case True
    then have r: "rp1_eth_fdt_read_metadata (Some root) xref m
      = (case find (\<lambda>n. claims n RP1_ETH_COMPAT_PRIMARY) (preorder root) of None \<Rightarrow> Some (fail ENODEV, m)
         | Some gem \<Rightarrow> (case read_phy_mode gem (read_mac gem m) of None \<Rightarrow> None
            | Some m \<Rightarrow> if phy_mode m \<noteq> RP1_ETH_PHY_MODE_RGMII_ID then Some (fail ENXIO, m)
                else Some (ok, read_reset gem (read_phy_addr xref gem m))))"
      using assms(2) f s
      by (auto simp: rp1_eth_fdt_read_metadata_def OF_finddevice_def compat_any_def is_compatible_claims split: option.splits)
    show ?thesis
    proof (cases "find (\<lambda>n. claims n RP1_ETH_COMPAT_PRIMARY) (preorder root)")
      case None
      then show ?thesis using assms(3) r by auto
    next
      case (Some gem)
      then show ?thesis
        using True accept_gem[of gem xref m r m'] assms(3) r by simp
    qed
  qed
qed

definition pi5_tree :: "string \<Rightarrow> fdt_node" where
  "pi5_tree mode = Node 1 ((\<lambda>_. None)(''compatible'' := Some (compat_list [RPI5_COMPAT_5B])))
     [Node 2 ((\<lambda>_. None)(''compatible'' := Some (compat_list [RP1_ETH_COMPAT_PRIMARY]), ''phy-mode'' := Some (ascii mode @ [0]))) []]"

theorem metadata_accepts_witness:
  "map_option fst (rp1_eth_fdt_read_metadata (Some (pi5_tree ''sgmii'')) (\<lambda>_. None) \<lparr>mac_addr = [], phy_mode = [],
     cfg_phy_addr = 0, phy_reset_gpio = 0, phy_reset_flags = 0\<rparr>) \<noteq> Some ok"
proof -
  let ?m = "\<lparr>mac_addr = [], phy_mode = [], cfg_phy_addr = 0, phy_reset_gpio = 0, phy_reset_flags = 0\<rparr>"
  have f: "list_all fitting (preorder (pi5_tree ''sgmii''))"
    by (simp add: pi5_tree_def fitting_def compat_list_def ascii_def)
  have "rp1_eth_fdt_read_metadata (Some (pi5_tree ''sgmii'')) (\<lambda>_. None) ?m \<noteq> None"
    by code_simp
  then obtain r m' where r: "rp1_eth_fdt_read_metadata (Some (pi5_tree ''sgmii'')) (\<lambda>_. None) ?m = Some (r, m')" by auto
  have q: "c_string v \<noteq> RP1_ETH_PHY_MODE_RGMII_ID"
    if "gem \<in> set (preorder (pi5_tree ''sgmii''))" "getprop gem ''phy-mode'' = Some v" for gem v
    using that by (auto simp: pi5_tree_def ascii_def c_string_def)
  have h: "handle (pi5_tree ''sgmii'') \<noteq> 0" by (simp add: pi5_tree_def)
  have "r \<noteq> ok"
    using metadata_accepts[OF f h r] q by (metis find_Some_iff nth_mem)
  then show ?thesis unfolding r by simp
qed

section \<open>Properties longer than their buffers\<close>

text \<open>OF_getprop answers the length of the property, not of the copy, and the two callers
  store their zero there.\<close>

lemma compatible_overruns:
  assumes "handle root \<noteq> 0" "getprop root ''compatible'' = Some v" "256 \<le> length v"
  shows "rp1_eth_fdt_read_metadata (Some root) xref m = None"
  using assms by (simp add: rp1_eth_fdt_read_metadata_def OF_finddevice_def compat_any_def is_compatible_claims fitting_def)

lemma phy_mode_overruns:
  assumes "getprop gem ''phy-mode'' = Some v" "32 \<le> length v"
  shows "read_phy_mode gem m = None"
  using assms by (simp add: read_phy_mode_eq)

end
