(* ===== verification/EthCfg.thy ===== *)
theory EthCfg
  imports Bcm2712 EthFdt Rp1Eth
begin

text \<open>
  The Ethernet module's own event handler (src/rp1_eth_cfg.c): mapping the windows,
  the clock generator, the MAC, the reset pulse of the PHY over GPIO, the management
  bus, the PHY's delay settings, the wait for the link, the choice of the speed, and
  the hand-over to the network driver, with every failure on the way.
\<close>

section \<open>State\<close>

text \<open>What the module holds, and one trace of its accesses to the four windows and
  of its waits in microseconds, in the order it makes them.\<close>

datatype resource = Softc | Sc_mtx | Sysctl_ctx | Mac_map | Cfg_map

datatype access = Mac nat u32 | Cfg nat u32 | Pad nat u32 | Gpio nat u32 | Wait nat

record bringup =
  gemw :: mmio
  ecfgw :: mmio
  padw :: mmio
  gpiow :: mmio
  trace :: "access list"
  held :: "resource list"
  meta :: eth_meta
  mac_mapped :: bool
  cfg_mapped :: bool
  nodes :: "string list"
  polls :: nat
  frames :: nat
  rp1_eth_sc :: bool

text \<open>What the devices show: the network status at each poll, the data of each
  management frame, the status register at each of the last polls, the clock
  register and the interrupt register when they are read.\<close>

record bringup_env =
  net_status :: "nat \<Rightarrow> u32"
  maint :: "nat \<Rightarrow> u32"
  cfg_status :: "nat \<Rightarrow> u32"
  clkgen_entry :: u32
  clkgen_later :: u32
  intr_early :: u32
  intr_late :: u32

definition MAC_RD4 :: "nat \<Rightarrow> bringup \<Rightarrow> u32" where "MAC_RD4 r s = rd (gemw s) r"
definition MAC_WR4 :: "nat \<Rightarrow> u32 \<Rightarrow> bringup \<Rightarrow> bringup" where
  "MAC_WR4 r v s = s\<lparr>gemw := wr (gemw s) r v, trace := trace s @ [Mac r v]\<rparr>"
definition CFG_RD4 :: "nat \<Rightarrow> bringup \<Rightarrow> u32" where "CFG_RD4 r s = rd (ecfgw s) r"
definition CFG_WR4 :: "nat \<Rightarrow> u32 \<Rightarrow> bringup \<Rightarrow> bringup" where
  "CFG_WR4 r v s = s\<lparr>ecfgw := wr (ecfgw s) r v, trace := trace s @ [Cfg r v]\<rparr>"
definition pad_wr :: "nat \<Rightarrow> u32 \<Rightarrow> bringup \<Rightarrow> bringup" where
  "pad_wr r v s = s\<lparr>padw := wr (padw s) r v, trace := trace s @ [Pad r v]\<rparr>"
definition gpio_wr :: "nat \<Rightarrow> u32 \<Rightarrow> bringup \<Rightarrow> bringup" where
  "gpio_wr r v s = s\<lparr>gpiow := wr (gpiow s) r v, trace := trace s @ [Gpio r v]\<rparr>"
definition DELAY :: "nat \<Rightarrow> bringup \<Rightarrow> bringup" where "DELAY n s = s\<lparr>trace := trace s @ [Wait n]\<rparr>"
definition pause :: "nat \<Rightarrow> bringup \<Rightarrow> bringup" where "pause ms s = s\<lparr>trace := trace s @ [Wait (ms * 1000)]\<rparr>"

definition take_res :: "resource \<Rightarrow> bringup \<Rightarrow> bringup" where "take_res r s = s\<lparr>held := held s @ [r]\<rparr>"
definition release :: "resource list \<Rightarrow> bringup \<Rightarrow> bringup" where "release rs s = s\<lparr>held := fold remove1 rs (held s)\<rparr>"

definition GEM_NET_CTRL :: nat where "GEM_NET_CTRL = 0x000"
definition GEM_NET_CFG :: nat where "GEM_NET_CFG = 0x004"
definition GEM_USRIO :: nat where "GEM_USRIO = 0x00c"
definition GEM_PHY_MAINT :: nat where "GEM_PHY_MAINT = 0x034"
definition ETH_CFG_CONTROL :: nat where "ETH_CFG_CONTROL = 0x00"
definition ETH_CFG_STATUS :: nat where "ETH_CFG_STATUS = 0x04"
definition ETH_CFG_INTR :: nat where "ETH_CFG_INTR = 0x1c"

lemmas bringup_regs = GEM_NET_CTRL_def GEM_NET_CFG_def GEM_USRIO_def GEM_PHY_MAINT_def
  ETH_CFG_CONTROL_def ETH_CFG_STATUS_def ETH_CFG_INTR_def ETH_CFG_CLKGEN_def

section \<open>Resetting the PHY\<close>

definition RP1_GPIO_OUTOVER_MASK :: u32 where "RP1_GPIO_OUTOVER_MASK = push_bit 12 3"
definition RP1_GPIO_OUTOVER_LOW :: u32 where "RP1_GPIO_OUTOVER_LOW = push_bit 12 2"
definition RP1_GPIO_OUTOVER_HIGH :: u32 where "RP1_GPIO_OUTOVER_HIGH = push_bit 12 3"
definition RP1_GPIO_OEOVER_MASK :: u32 where "RP1_GPIO_OEOVER_MASK = push_bit 14 3"
definition RP1_GPIO_OEOVER_FORCE_EN :: u32 where "RP1_GPIO_OEOVER_FORCE_EN = push_bit 14 3"
definition RP1_PAD_PUSHPULL_HIGH_IE :: u32 where "RP1_PAD_PUSHPULL_HIGH_IE = 0x57"

lemmas outover_defs = RP1_GPIO_OUTOVER_MASK_def RP1_GPIO_OUTOVER_LOW_def RP1_GPIO_OUTOVER_HIGH_def
  RP1_GPIO_OEOVER_MASK_def RP1_GPIO_OEOVER_FORCE_EN_def

text \<open>pads and gpio: whether the mappings succeed.\<close>

definition rp1_eth_phy_reset :: "bool \<Rightarrow> bool \<Rightarrow> bringup \<Rightarrow> bringup" where
  "rp1_eth_phy_reset pads gpio s =
     (let gpio_pin = phy_reset_gpio (meta s);
          s = (if pads then pad_wr 0x14 RP1_PAD_PUSHPULL_HIGH_IE s else s)
      in if \<not> gpio then s
      else
        let ctrl_reg = RP1_GPIO_CTRL_OFFSET (unat gpio_pin) mod 2 ^ 32;
            ctrl_val = rd (gpiow s) ctrl_reg;
            ctrl_val = ctrl_val AND NOT (RP1_GPIO_OUTOVER_MASK OR RP1_GPIO_OEOVER_MASK);
            ctrl_val = ctrl_val OR (RP1_GPIO_OEOVER_FORCE_EN OR RP1_GPIO_OUTOVER_LOW);
            s = DELAY 5000 (gpio_wr ctrl_reg ctrl_val s);
            ctrl_val = ctrl_val AND NOT RP1_GPIO_OUTOVER_MASK;
            ctrl_val = ctrl_val OR RP1_GPIO_OUTOVER_HIGH
        in pause 150 (gpio_wr ctrl_reg ctrl_val s))"

section \<open>The management bus\<close>

definition GEM_MAINT_SOF :: u32 where "GEM_MAINT_SOF = push_bit 30 1"
definition GEM_MAINT_OP_RD :: u32 where "GEM_MAINT_OP_RD = push_bit 28 2"
definition GEM_MAINT_OP_WR :: u32 where "GEM_MAINT_OP_WR = push_bit 28 1"
definition GEM_MAINT_PHY :: "u32 \<Rightarrow> u32" where "GEM_MAINT_PHY x = push_bit 23 (x AND 0x1f)"
definition GEM_MAINT_REG :: "u32 \<Rightarrow> u32" where "GEM_MAINT_REG x = push_bit 18 (x AND 0x1f)"
definition GEM_MAINT_TA :: u32 where "GEM_MAINT_TA = push_bit 16 2"
definition GEM_MAINT_DATA :: "u16 \<Rightarrow> u32" where "GEM_MAINT_DATA x = ucast x AND 0xffff"

text \<open>At most n polls of the idle bit, ten microseconds apart; the caller goes on
  whether the bus became idle or not.\<close>

fun mdio_wait :: "bringup_env \<Rightarrow> nat \<Rightarrow> bringup \<Rightarrow> bringup" where
  "mdio_wait env 0 s = s"
| "mdio_wait env (Suc n) s =
     (if net_status env (polls s) AND push_bit 2 1 \<noteq> 0 then s\<lparr>polls := polls s + 1\<rparr>
      else mdio_wait env n (DELAY 10 (s\<lparr>polls := polls s + 1\<rparr>)))"

definition mdio_transfer :: "bringup_env \<Rightarrow> u32 \<Rightarrow> bringup \<Rightarrow> bringup" where
  "mdio_transfer env frame s =
     (let s = DELAY 10 (MAC_WR4 GEM_PHY_MAINT frame (mdio_wait env 1000 s))
      in (mdio_wait env 1000 s)\<lparr>frames := frames s + 1\<rparr>)"

definition rp1_eth_mdio_read :: "bringup_env \<Rightarrow> u32 \<Rightarrow> bringup \<Rightarrow> u16 \<times> bringup" where
  "rp1_eth_mdio_read env reg s =
     (let s' = mdio_transfer env (GEM_MAINT_SOF OR GEM_MAINT_OP_RD OR GEM_MAINT_PHY (cfg_phy_addr (meta s))
                 OR GEM_MAINT_REG reg OR GEM_MAINT_TA) s
      in (ucast (maint env (frames s)), s'))"

definition rp1_eth_mdio_write :: "bringup_env \<Rightarrow> u32 \<Rightarrow> u16 \<Rightarrow> bringup \<Rightarrow> bringup" where
  "rp1_eth_mdio_write env reg data s =
     mdio_transfer env (GEM_MAINT_SOF OR GEM_MAINT_OP_WR OR GEM_MAINT_PHY (cfg_phy_addr (meta s))
       OR GEM_MAINT_REG reg OR GEM_MAINT_TA OR GEM_MAINT_DATA data) s"

section \<open>Clock generator and MAC before the reset\<close>

definition CLKGEN_TXCLKDELEN :: u32 where "CLKGEN_TXCLKDELEN = push_bit 9 1"
definition CLKGEN_ENABLE :: u32 where "CLKGEN_ENABLE = push_bit 7 1"
definition CLKGEN_KILL :: u32 where "CLKGEN_KILL = push_bit 6 1"
definition CLKGEN_SPD_OVR_EN :: u32 where "CLKGEN_SPD_OVR_EN = push_bit 3 1"
definition CLKGEN_SPD_OVR_MASK :: u32 where "CLKGEN_SPD_OVR_MASK = 3"
definition GEM_NET_CTRL_RXEN :: u32 where "GEM_NET_CTRL_RXEN = push_bit 2 1"
definition GEM_NET_CTRL_TXEN :: u32 where "GEM_NET_CTRL_TXEN = push_bit 3 1"
definition GEM_NET_CTRL_MDIO_EN :: u32 where "GEM_NET_CTRL_MDIO_EN = push_bit 4 1"
definition GEM_NET_CFG_GIGE_EN :: u32 where "GEM_NET_CFG_GIGE_EN = push_bit 10 1"
definition GEM_NET_CFG_FULL_DUPLEX :: u32 where "GEM_NET_CFG_FULL_DUPLEX = push_bit 1 1"
definition GEM_NET_CFG_SPEED100 :: u32 where "GEM_NET_CFG_SPEED100 = 1"
definition GEM_NET_CFG_SPEED_MASK :: u32 where
  "GEM_NET_CFG_SPEED_MASK = GEM_NET_CFG_GIGE_EN OR GEM_NET_CFG_FULL_DUPLEX OR GEM_NET_CFG_SPEED100"
definition GEM_NET_CFG_MDC_DIV96 :: u32 where "GEM_NET_CFG_MDC_DIV96 = push_bit 18 5"

text \<open>Stopping the clock, setting an override and starting it again.\<close>

definition clkgen_preset :: "u32 \<Rightarrow> bringup \<Rightarrow> bringup" where
  "clkgen_preset clkgen s =
     (let (clkgen, s) =
            (if clkgen AND CLKGEN_ENABLE = 0 \<or> clkgen AND CLKGEN_KILL \<noteq> 0
             then let c = (clkgen AND NOT CLKGEN_KILL) OR CLKGEN_ENABLE in (c, CFG_WR4 ETH_CFG_CLKGEN c s)
             else (clkgen, s));
          cg_1g = (clkgen AND NOT (CLKGEN_KILL OR CLKGEN_TXCLKDELEN OR CLKGEN_SPD_OVR_EN OR CLKGEN_SPD_OVR_MASK))
                    OR CLKGEN_SPD_OVR_EN OR 2;
          s = DELAY 100 (CFG_WR4 ETH_CFG_CLKGEN (cg_1g AND NOT CLKGEN_ENABLE) s)
      in DELAY 1000 (CFG_WR4 ETH_CFG_CLKGEN (cg_1g OR CLKGEN_ENABLE) s))"

definition gem_preinit :: "bringup \<Rightarrow> bringup" where
  "gem_preinit s =
     MAC_WR4 GEM_USRIO 1 (MAC_WR4 GEM_NET_CTRL GEM_NET_CTRL_MDIO_EN
       (MAC_WR4 GEM_NET_CFG (GEM_NET_CFG_MDC_DIV96 OR GEM_NET_CFG_GIGE_EN OR GEM_NET_CFG_FULL_DUPLEX)
         (MAC_WR4 GEM_NET_CTRL 0 s)))"

text \<open>Receiver and transmitter on, after the interrupt bits shown are cleared.\<close>

definition enable_rxtx :: "u32 \<Rightarrow> bringup \<Rightarrow> bringup" where
  "enable_rxtx intr s =
     MAC_WR4 GEM_USRIO 1 (MAC_WR4 GEM_NET_CTRL (GEM_NET_CTRL_MDIO_EN OR GEM_NET_CTRL_RXEN OR GEM_NET_CTRL_TXEN)
       (CFG_WR4 ETH_CFG_INTR intr s))"

section \<open>The link\<close>

text \<open>A shadow register of the PHY: it is selected by a write and read back with its
  low ten bits.\<close>

definition shadow_read :: "bringup_env \<Rightarrow> u16 \<Rightarrow> bringup \<Rightarrow> u16 \<times> bringup" where
  "shadow_read env sel s =
     (let (v, s) = rp1_eth_mdio_read env 0x1c (rp1_eth_mdio_write env 0x1c (push_bit 10 sel) s)
      in (v AND 0x3ff, s))"

definition auxctl_read :: "bringup_env \<Rightarrow> bringup \<Rightarrow> u16 \<times> bringup" where
  "auxctl_read env s = rp1_eth_mdio_read env 0x18 (rp1_eth_mdio_write env 0x18 (push_bit 12 7 OR 7) s)"

definition bcm_config_init :: "bringup_env \<Rightarrow> bringup \<Rightarrow> bringup" where
  "bcm_config_init env s =
     (let (auxmisc_r, s) = auxctl_read env s;
          (clkctl_r, s) = shadow_read env 3 s;
          (scr3_r, s) = shadow_read env 5 s;
          s = rp1_eth_mdio_write env 0x18 (7 OR (auxmisc_r OR 0x0100 OR 0x8000)) s;
          s = rp1_eth_mdio_write env 0x1c (0x8000 OR push_bit 10 3 OR ((clkctl_r OR push_bit 9 1) AND 0x3ff)) s
      in rp1_eth_mdio_write env 0x1c (0x8000 OR push_bit 10 5 OR ((scr3_r OR 2) AND 0x3ff)) s)"

text \<open>The link bit is latched low, so the status is read twice; at most n tries a tenth of a
  second apart.\<close>

definition bmsr_read :: "bringup_env \<Rightarrow> bringup \<Rightarrow> u16 \<times> bringup" where
  "bmsr_read env s = rp1_eth_mdio_read env 1 (snd (rp1_eth_mdio_read env 1 s))"

fun wait_link :: "bringup_env \<Rightarrow> nat \<Rightarrow> u16 \<Rightarrow> bringup \<Rightarrow> u16 \<times> bringup" where
  "wait_link env 0 bmsr s = (bmsr, s)"
| "wait_link env (Suc n) bmsr s =
     (let (bmsr, s) = bmsr_read env (pause 100 s) in
      if bmsr AND push_bit 2 1 \<noteq> 0 then (bmsr, s) else wait_link env n bmsr s)"

text \<open>The registers that are only printed are read all the same.\<close>

definition phy_dump :: "bringup_env \<Rightarrow> bringup \<Rightarrow> bringup" where
  "phy_dump env s =
     (let (_, s) = rp1_eth_mdio_read env 0x10 s; (_, s) = auxctl_read env s; (_, s) = shadow_read env 3 s;
          (_, s) = shadow_read env 5 s; (_, s) = shadow_read env 0x1c s; (_, s) = auxctl_read env s;
          (_, s) = shadow_read env 3 s
      in snd (shadow_read env 5 s))"

definition resolve_speed :: "u16 \<Rightarrow> u16 \<Rightarrow> u16 \<Rightarrow> nat \<times> bool" where
  "resolve_speed gbcr gbsr anlpar =
     (if gbcr AND push_bit 9 1 \<noteq> 0 \<and> gbsr AND push_bit 11 1 \<noteq> 0 then (1000, True)
      else if gbsr AND push_bit 10 1 \<noteq> 0 then (1000, False)
      else if anlpar AND push_bit 8 1 \<noteq> 0 then (100, True)
      else if anlpar AND push_bit 7 1 \<noteq> 0 then (100, False)
      else if anlpar AND push_bit 6 1 \<noteq> 0 then (10, True)
      else (10, False))"

definition set_net_cfg :: "nat \<Rightarrow> bool \<Rightarrow> bringup \<Rightarrow> bringup" where
  "set_net_cfg speed full_duplex s =
     (let net_cfg = MAC_RD4 GEM_NET_CFG s AND NOT GEM_NET_CFG_SPEED_MASK;
          net_cfg = (if speed = 1000 then net_cfg OR GEM_NET_CFG_GIGE_EN
                     else if speed = 100 then net_cfg OR GEM_NET_CFG_SPEED100 else net_cfg);
          net_cfg = (if full_duplex then net_cfg OR GEM_NET_CFG_FULL_DUPLEX else net_cfg)
      in MAC_WR4 GEM_NET_CFG net_cfg s)"

definition set_clkgen :: "u32 \<Rightarrow> nat \<Rightarrow> bringup \<Rightarrow> bringup" where
  "set_clkgen clkgen speed s =
     (let spd_val = (if speed = 1000 then 2 else if speed = 100 then 1 else 0);
          clkgen_base = clkgen AND NOT (CLKGEN_ENABLE OR CLKGEN_KILL OR CLKGEN_TXCLKDELEN OR CLKGEN_SPD_OVR_EN
                          OR CLKGEN_SPD_OVR_MASK);
          clkgen_base = clkgen_base OR (CLKGEN_SPD_OVR_EN OR spd_val);
          s = DELAY 100 (CFG_WR4 ETH_CFG_CLKGEN clkgen_base s)
      in DELAY 10000 (CFG_WR4 ETH_CFG_CLKGEN (clkgen_base OR CLKGEN_ENABLE) s))"

fun watch_status :: "bringup_env \<Rightarrow> nat \<Rightarrow> nat \<Rightarrow> bringup \<Rightarrow> bringup" where
  "watch_status env k 0 s = s"
| "watch_status env k (Suc n) s =
     (let s = pause 100 s in if cfg_status env k \<noteq> 0 then s else watch_status env (k + 1) n s)"

definition pause_frame :: "bringup \<Rightarrow> bringup" where
  "pause_frame s = DELAY 10000 (MAC_WR4 GEM_NET_CTRL
     (GEM_NET_CTRL_MDIO_EN OR GEM_NET_CTRL_RXEN OR GEM_NET_CTRL_TXEN OR push_bit 11 1) s)"

definition phy_bringup :: "bringup_env \<Rightarrow> bringup \<Rightarrow> bringup" where
  "phy_bringup env s =
     (let (phyid1, s) = rp1_eth_mdio_read env 2 s;
          (phyid2, s) = rp1_eth_mdio_read env 3 s;
          (bmcr, s) = rp1_eth_mdio_read env 0 s;
          (bmsr, s) = bmsr_read env s;
          s = bcm_config_init env s;
          (bmsr, s) = (if bmsr AND push_bit 2 1 = 0 then wait_link env 40 bmsr s else (bmsr, s));
          s = phy_dump env s;
          (gbcr, s) = rp1_eth_mdio_read env 9 s;
          (gbsr, s) = rp1_eth_mdio_read env 10 s;
          (anlpar, s) = rp1_eth_mdio_read env 5 s;
          (speed, full_duplex) = resolve_speed gbcr gbsr anlpar;
          s = set_net_cfg speed full_duplex s;
          s = set_clkgen (clkgen_later env) speed s;
          s = enable_rxtx (intr_late env) s;
          s = watch_status env 0 20 s
      in pause_frame s)"

section \<open>Nodes and handlers\<close>

text \<open>node_ok says which directories of the tree can be made.\<close>

definition add_nodes :: "(string \<Rightarrow> bool) \<Rightarrow> bringup \<Rightarrow> bringup" where
  "add_nodes node_ok s = s\<lparr>nodes := nodes s
     @ (if node_ok ''mac'' then [''mac.address'', ''mac.phy_mode'', ''mac.phy_mdio_addr''] else [])
     @ (if node_ok ''gem'' then [''gem.net_ctrl'', ''gem.usrio'', ''gem.net_cfg'', ''gem.net_status''] else [])
     @ (if node_ok ''cfg'' then [''cfg.control'', ''cfg.clkgen'', ''cfg.clk2fc'', ''cfg.intr'', ''cfg.inte'',
          ''cfg.status'', ''cfg.status_decoded''] else [])\<rparr>"

definition rp1_eth_mac_reg_sysctl :: "nat \<Rightarrow> bringup option \<Rightarrow> u32 result" where
  "rp1_eth_mac_reg_sysctl off sc =
     (case sc of None \<Rightarrow> Inl ENODEV | Some s \<Rightarrow> if \<not> mac_mapped s then Inl ENODEV else Inr (MAC_RD4 off s))"

definition rp1_eth_cfg_reg_sysctl :: "nat \<Rightarrow> bringup option \<Rightarrow> u32 result" where
  "rp1_eth_cfg_reg_sysctl off sc =
     (case sc of None \<Rightarrow> Inl ENODEV | Some s \<Rightarrow> if \<not> cfg_mapped s then Inl ENODEV else Inr (CFG_RD4 off s))"

definition hex_digit :: "nat \<Rightarrow> char" where "hex_digit n = ''0123456789abcdef'' ! (n mod 16)"

definition hex8 :: "u32 \<Rightarrow> string" where
  "hex8 w = map (\<lambda>i. hex_digit (unat (drop_bit (28 - 4 * i) w))) [0..<8]"

definition status_fmt :: "u32 \<Rightarrow> string" where
  "status_fmt st = ''raw=0x'' @ hex8 st
     @ '' link='' @ (if st AND push_bit 0 1 \<noteq> 0 then ''UP'' else ''DOWN'')
     @ '' speed='' @ [''10M'', ''100M'', ''1G'', ''?''] ! unat (drop_bit 1 (st AND push_bit 1 3))
     @ '' duplex='' @ (if st AND push_bit 3 1 \<noteq> 0 then ''full'' else ''half'')
     @ (if st AND push_bit 5 1 \<noteq> 0 then '' AWLEN_ERR'' else [])
     @ (if st AND push_bit 4 1 \<noteq> 0 then '' ARLEN_ERR'' else [])"

definition rp1_eth_cfg_status_fmt_sysctl :: "bringup option \<Rightarrow> string result" where
  "rp1_eth_cfg_status_fmt_sysctl sc =
     (case sc of None \<Rightarrow> Inl ENODEV
      | Some s \<Rightarrow> if \<not> cfg_mapped s then Inl ENODEV else Inr (status_fmt (CFG_RD4 ETH_CFG_STATUS s)))"

section \<open>Load and unload\<close>

definition fresh_softc :: "bringup \<Rightarrow> bringup" where
  "fresh_softc s = s\<lparr>meta := \<lparr>mac_addr = replicate 6 0, phy_mode = [], cfg_phy_addr = 0, phy_reset_gpio = 0, phy_reset_flags = 0\<rparr>,
     mac_mapped := False, cfg_mapped := False\<rparr>"

text \<open>What the kernel answers during a load: the device tree, the mappings, the nodes and
  the busdma calls of the network driver, whose softc, as allocated, is e0.\<close>

record load_env =
  tree :: "fdt_node option"
  xref :: "u32 \<Rightarrow> fdt_node option"
  mac_map_ok :: bool
  cfg_map_ok :: bool
  pads_map_ok :: bool
  gpio_map_ok :: bool
  node_ok :: "string \<Rightarrow> bool"
  dma_tag1 :: rc
  dma_tag2 :: rc
  dma_alloc :: rc
  dma_load :: rc
  dma_phys :: nat
  e0 :: eth

definition hand_over :: "load_env \<Rightarrow> bringup \<Rightarrow> bringup \<times> eth option" where
  "hand_over l s =
     (let (err, e) = rp1eth_attach (dma_tag1 l) (dma_tag2 l) (dma_alloc l) (dma_load l) (dma_phys l) (mac_addr (meta s))
            ((e0 l)\<lparr>mac := gemw s, cfgw := ecfgw s, cfg_kva := True, phy_addr := unat (cfg_phy_addr (meta s))\<rparr>)
      in (s\<lparr>gemw := mac e, ecfgw := cfgw e\<rparr>, if err \<noteq> ok then None else Some e))"

text \<open>None is a store outside a buffer while the tree is read.\<close>

definition rp1_eth_load :: "load_env \<Rightarrow> bringup_env \<Rightarrow> bringup \<Rightarrow> (rc \<times> bringup \<times> eth option) option" where
  "rp1_eth_load l env s =
     (let s = take_res Sysctl_ctx (take_res Sc_mtx (take_res Softc (fresh_softc s))) in
      case rp1_eth_fdt_read_metadata (tree l) (xref l) (meta s) of
        None \<Rightarrow> None
      | Some (error, m) \<Rightarrow> Some
         (let s = s\<lparr>meta := m\<rparr> in
          if error \<noteq> ok then (error, release [Sysctl_ctx, Sc_mtx, Softc] s, None)
          else if \<not> mac_map_ok l then (fail ENXIO, release [Sysctl_ctx, Sc_mtx, Softc] s, None)
          else let s = (take_res Mac_map s)\<lparr>mac_mapped := True\<rparr> in
          if \<not> cfg_map_ok l then (fail ENXIO, release [Mac_map, Sysctl_ctx, Sc_mtx, Softc] s, None)
          else
            let s = (take_res Cfg_map s)\<lparr>cfg_mapped := True\<rparr>;
                s = gem_preinit (clkgen_preset (clkgen_entry env) s)
            in if \<not> node_ok l ''rp1_eth'' then (fail ENOMEM, release [Cfg_map, Sysctl_ctx, Sc_mtx, Softc] s, None)
            else
              let s = add_nodes (node_ok l) s;
                  s = rp1_eth_phy_reset (pads_map_ok l) (gpio_map_ok l) s;
                  s = enable_rxtx (intr_early env) s;
                  s = phy_bringup env s;
                  s = s\<lparr>rp1_eth_sc := True\<rparr>;
                  (s, net) = hand_over l s
              in (ok, s, net)))"

definition rp1eth_detach :: "eth \<Rightarrow> eth" where
  "rp1eth_detach e = (cgem_stop e)\<lparr>drv_running := False, tick_armed := False, poll_armed := False, task_queued := False\<rparr>"

definition rp1_eth_unload :: "bringup \<Rightarrow> eth option \<Rightarrow> bringup \<times> eth option" where
  "rp1_eth_unload s net =
     (if \<not> rp1_eth_sc s then (s, net)
      else
        let s = (case net of None \<Rightarrow> s | Some e \<Rightarrow> s\<lparr>gemw := mac (rp1eth_detach e)\<rparr>);
            s = release [Sysctl_ctx] (s\<lparr>rp1_eth_sc := False, nodes := []\<rparr>);
            s = (if cfg_mapped s then (release [Cfg_map] s)\<lparr>cfg_mapped := False\<rparr> else s);
            s = (if mac_mapped s then (release [Mac_map] (MAC_WR4 GEM_NET_CTRL 0 s))\<lparr>mac_mapped := False\<rparr> else s)
        in (release [Sc_mtx, Softc] s, None))"

definition rp1_eth_modevent :: "modevent \<Rightarrow> load_env \<Rightarrow> bringup_env \<Rightarrow> bringup \<times> eth option \<Rightarrow> (rc \<times> bringup \<times> eth option) option" where
  "rp1_eth_modevent event l env w =
     (case event of
        MOD_LOAD \<Rightarrow> rp1_eth_load l env (fst w)
      | MOD_UNLOAD \<Rightarrow> Some (ok, rp1_eth_unload (fst w) (snd w))
      | MOD_OTHER \<Rightarrow> Some (fail EOPNOTSUPP, fst w, snd w))"

section \<open>What each access touches\<close>

named_theorems bringup_simps \<open>the effect of an access on the state\<close>

lemma access_simps [bringup_simps]:
  "gemw (MAC_WR4 r v s) = wr (gemw s) r v" "ecfgw (MAC_WR4 r v s) = ecfgw s" "gpiow (MAC_WR4 r v s) = gpiow s"
  "trace (MAC_WR4 r v s) = trace s @ [Mac r v]"
  "ecfgw (CFG_WR4 r v s) = wr (ecfgw s) r v" "gemw (CFG_WR4 r v s) = gemw s" "gpiow (CFG_WR4 r v s) = gpiow s"
  "trace (CFG_WR4 r v s) = trace s @ [Cfg r v]"
  "gemw (DELAY n s) = gemw s" "ecfgw (DELAY n s) = ecfgw s" "gpiow (DELAY n s) = gpiow s" "trace (DELAY n s) = trace s @ [Wait n]"
  "gemw (pause n s) = gemw s" "ecfgw (pause n s) = ecfgw s" "gpiow (pause n s) = gpiow s"
  "trace (pause n s) = trace s @ [Wait (n * 1000)]"
  "gemw (pad_wr r v s) = gemw s" "ecfgw (pad_wr r v s) = ecfgw s" "gpiow (pad_wr r v s) = gpiow s"
  "trace (pad_wr r v s) = trace s @ [Pad r v]"
  "gpiow (gpio_wr r v s) = wr (gpiow s) r v" "gemw (gpio_wr r v s) = gemw s" "ecfgw (gpio_wr r v s) = ecfgw s"
  "trace (gpio_wr r v s) = trace s @ [Gpio r v]"
  by (simp_all add: MAC_WR4_def CFG_WR4_def DELAY_def pause_def pad_wr_def gpio_wr_def)

text \<open>The bookkeeping of the module is touched by none of them.\<close>

definition books :: "bringup \<Rightarrow> resource list \<times> eth_meta \<times> bool \<times> bool \<times> bool" where
  "books s = (held s, meta s, mac_mapped s, cfg_mapped s, rp1_eth_sc s)"

lemma books_access [bringup_simps]:
  "books (MAC_WR4 r v s) = books s" "books (CFG_WR4 r v s) = books s" "books (DELAY n s) = books s"
  "books (pause n s) = books s" "books (pad_wr r v s) = books s" "books (gpio_wr r v s) = books s"
  "frames (MAC_WR4 r v s) = frames s" "frames (CFG_WR4 r v s) = frames s" "frames (DELAY n s) = frames s"
  "frames (pause n s) = frames s"
  by (simp_all add: MAC_WR4_def CFG_WR4_def DELAY_def pause_def pad_wr_def gpio_wr_def books_def)

lemma books_counters [bringup_simps]: "books (s\<lparr>polls := n\<rparr>) = books s" "books (s\<lparr>frames := n\<rparr>) = books s"
  by (simp_all add: books_def)

lemma books_meta: "books s = books s' \<Longrightarrow> meta s = meta s'"
  by (simp add: books_def)

section \<open>One frame of the management bus\<close>

lemma mdio_wait_frame [bringup_simps]:
  "gemw (mdio_wait env n s) = gemw s" "ecfgw (mdio_wait env n s) = ecfgw s" "gpiow (mdio_wait env n s) = gpiow s"
  "books (mdio_wait env n s) = books s" "frames (mdio_wait env n s) = frames s"
  by (induction env n s rule: mdio_wait.induct) (simp_all add: bringup_simps)

text \<open>At most n polls, each failed one followed by a wait.\<close>

lemma mdio_wait_polls:
  "\<exists>k. polls (mdio_wait env n s) = polls s + k \<and> k \<le> n
     \<and> (\<exists>j. trace (mdio_wait env n s) = trace s @ replicate j (Wait 10) \<and> j \<le> k)"
proof (induction env n s rule: mdio_wait.induct)
  case (1 env s)
  then show ?case by simp
next
  case (2 env n s)
  show ?case
  proof (cases "net_status env (polls s) AND push_bit 2 1 = 0")
    case False
    then show ?thesis by (auto intro!: exI[of _ 1])
  next
    case True
    with 2 obtain k j where "polls (mdio_wait env n (DELAY 10 (s\<lparr>polls := polls s + 1\<rparr>))) = polls s + 1 + k" "k \<le> n"
      "trace (mdio_wait env n (DELAY 10 (s\<lparr>polls := polls s + 1\<rparr>))) = trace s @ [Wait 10] @ replicate j (Wait 10)" "j \<le> k"
      by (auto simp: DELAY_def)
    then show ?thesis
      using True by (intro exI[of _ "Suc k"] conjI exI[of _ "Suc j"]) auto
  qed
qed

lemma mdio_transfer_frame [bringup_simps]:
  "gemw (mdio_transfer env f s) = wr (gemw s) GEM_PHY_MAINT f" "ecfgw (mdio_transfer env f s) = ecfgw s"
  "gpiow (mdio_transfer env f s) = gpiow s" "books (mdio_transfer env f s) = books s"
  "frames (mdio_transfer env f s) = frames s + 1"
  by (simp_all add: mdio_transfer_def Let_def bringup_simps)

lemma transfer_trace:
  "\<exists>j k. trace (mdio_transfer env f s) = trace s @ replicate j (Wait 10) @ [Mac GEM_PHY_MAINT f] @ replicate (Suc k) (Wait 10)
     \<and> j \<le> 1000 \<and> k \<le> 1000"
proof -
  obtain j where j: "trace (mdio_wait env 1000 s) = trace s @ replicate j (Wait 10)" "j \<le> 1000"
    using mdio_wait_polls[of env 1000 s] by force
  let ?s = "DELAY 10 (MAC_WR4 GEM_PHY_MAINT f (mdio_wait env 1000 s))"
  obtain k where "trace (mdio_wait env 1000 ?s) = trace ?s @ replicate k (Wait 10)" "k \<le> 1000"
    using mdio_wait_polls[of env 1000 ?s] by force
  then show ?thesis
    using j by (intro exI[of _ j] exI[of _ k]) (simp add: mdio_transfer_def Let_def bringup_simps)
qed

lemma mdio_ops [bringup_simps]:
  "gemw (snd (rp1_eth_mdio_read env r s)) = wr (gemw s) GEM_PHY_MAINT (GEM_MAINT_SOF OR GEM_MAINT_OP_RD
     OR GEM_MAINT_PHY (cfg_phy_addr (meta s)) OR GEM_MAINT_REG r OR GEM_MAINT_TA)"
  "ecfgw (snd (rp1_eth_mdio_read env r s)) = ecfgw s" "gpiow (snd (rp1_eth_mdio_read env r s)) = gpiow s"
  "books (snd (rp1_eth_mdio_read env r s)) = books s" "frames (snd (rp1_eth_mdio_read env r s)) = frames s + 1"
  "fst (rp1_eth_mdio_read env r s) = ucast (maint env (frames s))"
  "ecfgw (rp1_eth_mdio_write env r d s) = ecfgw s" "gpiow (rp1_eth_mdio_write env r d s) = gpiow s"
  "books (rp1_eth_mdio_write env r d s) = books s" "frames (rp1_eth_mdio_write env r d s) = frames s + 1"
  by (simp_all add: rp1_eth_mdio_read_def rp1_eth_mdio_write_def Let_def bringup_simps)

text \<open>The MAC registers but for the frame register.\<close>

definition same_mac :: "bringup \<Rightarrow> bringup \<Rightarrow> bool" where
  "same_mac s s' \<longleftrightarrow> (\<forall>r. r \<noteq> GEM_PHY_MAINT \<longrightarrow> rd (gemw s') r = rd (gemw s) r) \<and> ecfgw s' = ecfgw s \<and> gpiow s' = gpiow s \<and> books s' = books s"

lemma same_mac_refl: "same_mac s s"
  by (simp add: same_mac_def)

lemma same_mac_trans [trans]: "same_mac s s' \<Longrightarrow> same_mac s' s'' \<Longrightarrow> same_mac s s''"
  by (simp add: same_mac_def)

lemma mdio_same:
  "same_mac s (snd (rp1_eth_mdio_read env r s))" "same_mac s (rp1_eth_mdio_write env r d s)" "same_mac s (pause n s)"
  by (simp_all add: same_mac_def bringup_simps) (simp add: rp1_eth_mdio_write_def bringup_simps)

lemma mdio_step:
  "same_mac s0 s \<and> frames s = n \<Longrightarrow> same_mac s0 (snd (rp1_eth_mdio_read env r s)) \<and> frames (snd (rp1_eth_mdio_read env r s)) = Suc n"
  "same_mac s0 s \<and> frames s = n \<Longrightarrow> same_mac s0 (rp1_eth_mdio_write env r d s) \<and> frames (rp1_eth_mdio_write env r d s) = Suc n"
  using mdio_same same_mac_trans by (auto simp: bringup_simps)

text \<open>A group of frames that leaves everything else alone.\<close>

definition adds :: "nat \<Rightarrow> bringup \<Rightarrow> bringup \<Rightarrow> bool" where
  "adds n s s' \<longleftrightarrow> same_mac s s' \<and> frames s' = frames s + n"

lemma adds_trans: "adds m s s' \<Longrightarrow> adds n s' s'' \<Longrightarrow> adds (m + n) s s''"
  using same_mac_trans by (auto simp: adds_def)

lemma adds_ops:
  "adds 1 s (snd (rp1_eth_mdio_read env r s))" "adds 1 s (rp1_eth_mdio_write env r d s)" "adds 0 s (pause n s)"
  by (simp_all add: adds_def mdio_same bringup_simps)

lemma adds_shadow: "adds 2 s (snd (shadow_read env sel s))" "adds 2 s (snd (auxctl_read env s))" "adds 2 s (snd (bmsr_read env s))"
  using adds_trans[OF adds_ops(2,1)] adds_trans[OF adds_ops(1,1)]
  by (simp_all add: shadow_read_def auxctl_read_def bmsr_read_def Let_def split_beta numeral_2_eq_2)

lemma adds_0: "adds 0 s s"
  by (simp add: adds_def same_mac_refl)

text \<open>Each operation after a group already made.\<close>

lemma then_read: "adds n s t \<Longrightarrow> adds (n + 1) s (snd (rp1_eth_mdio_read env r t))"
  and then_write: "adds n s t \<Longrightarrow> adds (n + 1) s (rp1_eth_mdio_write env r d t)"
  and then_shadow: "adds n s t \<Longrightarrow> adds (n + 2) s (snd (shadow_read env sel t))"
  and then_auxctl: "adds n s t \<Longrightarrow> adds (n + 2) s (snd (auxctl_read env t))"
  and then_bmsr: "adds n s t \<Longrightarrow> adds (n + 2) s (snd (bmsr_read env t))"
  by (rule adds_trans, assumption, rule adds_ops adds_shadow)+

lemma adds_eq: "adds n s t \<Longrightarrow> n = m \<Longrightarrow> adds m s t"
  by simp

lemma adds_config: "adds 9 s (bcm_config_init env s)"
  unfolding bcm_config_init_def Let_def split_beta
  by (rule adds_eq[OF then_write[OF then_write[OF then_write[OF then_shadow[OF then_shadow[OF then_auxctl[OF adds_0]]]]]]]) simp

lemma adds_dump: "adds 15 s (phy_dump env s)"
  unfolding phy_dump_def Let_def split_beta
  by (rule adds_eq[OF then_shadow[OF then_shadow[OF then_auxctl[OF then_shadow[OF then_shadow[OF then_shadow[OF then_auxctl[OF
      then_read[OF adds_0]]]]]]]]]) simp

lemma adds_wait: "\<exists>j \<le> n. adds (2 * j) s (snd (wait_link env n b s))"
proof (induction env n b s rule: wait_link.induct)
  case (1 env b s)
  then show ?case using adds_0 by auto
next
  case (2 env n b s)
  obtain b' s' where r: "bmsr_read env (pause 100 s) = (b', s')" by (cases "bmsr_read env (pause 100 s)")
  have a: "adds 2 s s'"
    using adds_eq[OF adds_trans[OF adds_ops(3) adds_shadow(3)[of "pause 100 s" env]], of 2] by (simp add: r)
  show ?case
  proof (cases "b' AND push_bit 2 1 = 0")
    case False
    then show ?thesis using a r by (intro exI[of _ 1]) simp
  next
    case True
    then obtain j where "j \<le> n" "adds (2 * j) s' (snd (wait_link env n b' s'))" using 2 r by force
    then show ?thesis using adds_trans[OF a] True r by (intro exI[of _ "Suc j"]) simp
  qed
qed

text \<open>Everything before the choice of the speed: the last three frames read the two 1000BASE-T
  registers and the partner's abilities.\<close>

definition before_speed :: "bringup_env \<Rightarrow> bringup \<Rightarrow> bringup" where
  "before_speed env s =
     (let s = snd (rp1_eth_mdio_read env 0 (snd (rp1_eth_mdio_read env 3 (snd (rp1_eth_mdio_read env 2 s)))));
          (bmsr, s) = bmsr_read env s;
          s = bcm_config_init env s
      in phy_dump env (if bmsr AND push_bit 2 1 = 0 then snd (wait_link env 40 bmsr s) else s))"

lemma adds_before: "\<exists>j \<le> 40. adds (29 + 2 * j) s (before_speed env s)"
proof -
  let ?t = "snd (rp1_eth_mdio_read env 0 (snd (rp1_eth_mdio_read env 3 (snd (rp1_eth_mdio_read env 2 s)))))"
  obtain b u where u: "bmsr_read env ?t = (b, u)" by (cases "bmsr_read env ?t")
  have "adds 5 s (snd (bmsr_read env ?t))"
    by (rule adds_eq[OF then_bmsr[OF then_read[OF then_read[OF then_read[OF adds_0]]]]]) simp
  then have "adds 5 s u" unfolding u by simp
  from adds_trans[OF this adds_config] have c: "adds 14 s (bcm_config_init env u)" by simp
  obtain j where "j \<le> 40" "adds (2 * j) (bcm_config_init env u)
      (if b AND push_bit 2 1 = 0 then snd (wait_link env 40 b (bcm_config_init env u)) else bcm_config_init env u)"
    using adds_wait[where n = 40] adds_0[of "bcm_config_init env u"] by (cases "b AND push_bit 2 1 = 0") force+
  from this(1) adds_trans[OF adds_trans[OF c this(2)] adds_dump] show ?thesis
    using u by (intro exI[of _ j]) (simp add: before_speed_def Let_def ac_simps)
qed

lemma phy_bringup_split:
  "phy_bringup env s =
     (let t = before_speed env s; k = frames t;
          (speed, full_duplex) = resolve_speed (ucast (maint env k)) (ucast (maint env (k + 1))) (ucast (maint env (k + 2)));
          t = snd (rp1_eth_mdio_read env 5 (snd (rp1_eth_mdio_read env 10 (snd (rp1_eth_mdio_read env 9 t)))))
      in pause_frame (watch_status env 0 20 (enable_rxtx (intr_late env) (set_clkgen (clkgen_later env) speed
           (set_net_cfg speed full_duplex t)))))"
  unfolding phy_bringup_def before_speed_def Let_def
  by (simp add: split_beta bringup_simps)

section \<open>The bits of the registers\<close>

lemma bit_word_3: "bit (3 :: u32) n \<longleftrightarrow> n < 2" and bit_word_2: "bit (2 :: u32) n \<longleftrightarrow> n = 1"
  and bit_word_1: "bit (1 :: u32) n \<longleftrightarrow> n = 0"
proof -
  have "(3 :: u32) = mask 2" "(2 :: u32) = push_bit 1 1" by (simp_all add: mask_eq_exp_minus_1)
  then show "bit (3 :: u32) n \<longleftrightarrow> n < 2" "bit (2 :: u32) n \<longleftrightarrow> n = 1" "bit (1 :: u32) n \<longleftrightarrow> n = 0"
    by (simp_all only: bit_mask_iff bit_push_bit_iff bit_1_iff) auto
qed

lemma bit_flag: "bit (push_bit m 1 :: u32) n \<longleftrightarrow> n = m \<and> m < 32"
  using flag_bit[OF refl, of m n, where ?'a = 32] by simp

lemma bit_pair: "m < 30 \<Longrightarrow> bit (push_bit m 3 :: u32) n \<longleftrightarrow> n = m \<or> n = m + 1"
  "m < 30 \<Longrightarrow> bit (push_bit m 2 :: u32) n \<longleftrightarrow> n = m + 1"
  by (simp_all only: bit_push_bit_iff bit_word_3 bit_word_2) auto

lemmas clkgen_bits = CLKGEN_TXCLKDELEN_def CLKGEN_ENABLE_def CLKGEN_KILL_def CLKGEN_SPD_OVR_EN_def CLKGEN_SPD_OVR_MASK_def
lemmas net_cfg_flags = GEM_NET_CFG_GIGE_EN_def GEM_NET_CFG_FULL_DUPLEX_def GEM_NET_CFG_SPEED100_def GEM_NET_CFG_SPEED_MASK_def

lemma set_clkgen_bits:
  "bit (rd (ecfgw (set_clkgen c sp s)) ETH_CFG_CLKGEN) n \<longleftrightarrow>
     (if n = 6 \<or> n = 9 then False else if n = 3 \<or> n = 7 then True
      else if n = 0 then sp = 100 else if n = 1 then sp = 1000 else bit c n)"
proof -
  have "bit c n \<Longrightarrow> n < 32" using bit_imp_le_length[of c n] by simp
  then show ?thesis
    unfolding set_clkgen_def Let_def clkgen_bits
    by (simp only: bringup_simps rd_wr refl if_True bit_or_iff bit_and_iff bit_not_iff bit_flag bit_word_3 bit_word_2 bit_word_1
        bit_0_eq bot_apply split: if_split) auto
qed

lemma set_net_cfg_bits:
  "bit (rd (gemw (set_net_cfg sp fd s)) GEM_NET_CFG) n \<longleftrightarrow>
     (if n = 10 then sp = 1000 else if n = 1 then fd else if n = 0 then sp = 100 else bit (rd (gemw s) GEM_NET_CFG) n)"
proof -
  have "bit (rd (gemw s) GEM_NET_CFG) n \<Longrightarrow> n < 32" using bit_imp_le_length[of "rd (gemw s) GEM_NET_CFG" n] by simp
  then show ?thesis
    unfolding set_net_cfg_def Let_def net_cfg_flags MAC_RD4_def
    by (simp only: bringup_simps rd_wr refl if_True bit_or_iff bit_and_iff bit_not_iff bit_flag bit_word_1 split: if_split) auto
qed

lemma watch_frame [bringup_simps]:
  "gemw (watch_status env k n s) = gemw s" "ecfgw (watch_status env k n s) = ecfgw s" "books (watch_status env k n s) = books s"
  by (induction env k n s rule: watch_status.induct) (simp_all add: Let_def bringup_simps)

lemma set_clkgen_frame [bringup_simps]: "gemw (set_clkgen c sp s) = gemw s" "books (set_clkgen c sp s) = books s"
  by (simp_all add: set_clkgen_def Let_def bringup_simps)

lemma set_net_cfg_frame [bringup_simps]: "books (set_net_cfg sp fd s) = books s"
  by (simp add: set_net_cfg_def Let_def bringup_simps)

lemma resolve_speed_range: "fst (resolve_speed a b c) \<in> {10, 100, 1000}"
  by (simp add: resolve_speed_def)


definition blank_bringup :: bringup where
  "blank_bringup = \<lparr>gemw = zero_mmio, ecfgw = zero_mmio, padw = zero_mmio, gpiow = zero_mmio, trace = [], held = [],
     meta = \<lparr>mac_addr = [], phy_mode = [], cfg_phy_addr = 1, phy_reset_gpio = 32, phy_reset_flags = 1\<rparr>,
     mac_mapped = False, cfg_mapped = False, nodes = [], polls = 0, frames = 0, rp1_eth_sc = False\<rparr>"

definition answering :: "u32 \<Rightarrow> bringup_env" where
  "answering v = \<lparr>net_status = (\<lambda>k. 4), maint = (\<lambda>k. v), cfg_status = (\<lambda>k. 0), clkgen_entry = 0, clkgen_later = 0xff,
     intr_early = 0, intr_late = 0\<rparr>"


section \<open>The reset pulse\<close>

lemma outover_bits:
  "bit ((v AND NOT (RP1_GPIO_OUTOVER_MASK OR RP1_GPIO_OEOVER_MASK)) OR (RP1_GPIO_OEOVER_FORCE_EN OR RP1_GPIO_OUTOVER_LOW)) n
     \<longleftrightarrow> (if n = 12 then False else if n = 13 \<or> n = 14 \<or> n = 15 then True else bit v n)"
  "bit ((v AND NOT RP1_GPIO_OUTOVER_MASK) OR RP1_GPIO_OUTOVER_HIGH) n \<longleftrightarrow> (if n = 12 \<or> n = 13 then True else bit v n)"
proof -
  have l: "bit v n \<Longrightarrow> n < 32" using bit_imp_le_length[of v n] by simp
  have p: "bit (push_bit 12 3 :: u32) n \<longleftrightarrow> n = 12 \<or> n = 13" "bit (push_bit 12 2 :: u32) n \<longleftrightarrow> n = 13"
    "bit (push_bit 14 3 :: u32) n \<longleftrightarrow> n = 14 \<or> n = 15"
    using bit_pair[of 12 n] bit_pair[of 14 n] by auto
  show "bit ((v AND NOT (RP1_GPIO_OUTOVER_MASK OR RP1_GPIO_OEOVER_MASK)) OR (RP1_GPIO_OEOVER_FORCE_EN OR RP1_GPIO_OUTOVER_LOW)) n
     \<longleftrightarrow> (if n = 12 then False else if n = 13 \<or> n = 14 \<or> n = 15 then True else bit v n)"
    "bit ((v AND NOT RP1_GPIO_OUTOVER_MASK) OR RP1_GPIO_OUTOVER_HIGH) n \<longleftrightarrow> (if n = 12 \<or> n = 13 then True else bit v n)"
    using l unfolding outover_defs by (simp_all only: bit_or_iff bit_and_iff bit_not_iff p) auto
qed

text \<open>Mapped, the reset is a pulse: the pad of line 32 is made push-pull, the line is driven
  low for 5 ms, then high for 150 ms, with the other bits of its control register kept.\<close>

lemma phy_reset_pulse:
  assumes "rp1_eth_phy_reset True True s = s'"
  shows "\<exists>low high. let r = RP1_GPIO_CTRL_OFFSET (unat (phy_reset_gpio (meta s))) mod 2 ^ 32 in
    trace s' = trace s @ [Pad 0x14 0x57, Gpio r low, Wait 5000, Gpio r high, Wait 150000]
    \<and> (\<forall>n. bit low n = (if n = 12 then False else if n = 13 \<or> n = 14 \<or> n = 15 then True else bit (rd (gpiow s) r) n))
    \<and> (\<forall>n. bit high n = (if n = 12 \<or> n = 13 \<or> n = 14 \<or> n = 15 then True else bit (rd (gpiow s) r) n))"
proof -
  let ?r = "RP1_GPIO_CTRL_OFFSET (unat (phy_reset_gpio (meta s))) mod 2 ^ 32"
  define low where "low = (rd (gpiow s) ?r AND NOT (RP1_GPIO_OUTOVER_MASK OR RP1_GPIO_OEOVER_MASK)) OR (RP1_GPIO_OEOVER_FORCE_EN OR RP1_GPIO_OUTOVER_LOW)"
  define high where "high = (low AND NOT RP1_GPIO_OUTOVER_MASK) OR RP1_GPIO_OUTOVER_HIGH"
  have l: "bit low n = (if n = 12 then False else if n = 13 \<or> n = 14 \<or> n = 15 then True else bit (rd (gpiow s) ?r) n)" for n
    unfolding low_def by (rule outover_bits)
  have h: "bit high n = (if n = 12 \<or> n = 13 \<or> n = 14 \<or> n = 15 then True else bit (rd (gpiow s) ?r) n)" for n
    unfolding high_def outover_bits l by auto
  have "trace s' = trace s @ [Pad 0x14 0x57, Gpio ?r low, Wait 5000, Gpio ?r high, Wait 150000]"
    unfolding assms[symmetric] rp1_eth_phy_reset_def Let_def low_def high_def
    by (simp add: bringup_simps RP1_PAD_PUSHPULL_HIGH_IE_def)
  then show ?thesis using l h by (intro exI[of _ low] exI[of _ high]) (simp add: Let_def)
qed

lemma clkgen_preset_shape:
  "\<exists>pre stopped. trace (clkgen_preset c s) = trace s @ pre @ [Cfg ETH_CFG_CLKGEN stopped, Wait 100,
       Cfg ETH_CFG_CLKGEN (rd (ecfgw (clkgen_preset c s)) ETH_CFG_CLKGEN), Wait 1000]
     \<and> set pre \<subseteq> range (Cfg ETH_CFG_CLKGEN) \<and> \<not> bit stopped 7"
  "bit (rd (ecfgw (clkgen_preset c s)) ETH_CFG_CLKGEN) n =
     (if n = 0 \<or> n = 6 \<or> n = 9 then False else if n = 1 \<or> n = 3 \<or> n = 7 then True else bit c n)"
proof -
  define c' where "c' = (if c AND CLKGEN_ENABLE = 0 \<or> c AND CLKGEN_KILL \<noteq> 0 then (c AND NOT CLKGEN_KILL) OR CLKGEN_ENABLE else c)"
  define cg where "cg = (c' AND NOT (CLKGEN_KILL OR CLKGEN_TXCLKDELEN OR CLKGEN_SPD_OVR_EN OR CLKGEN_SPD_OVR_MASK)) OR CLKGEN_SPD_OVR_EN OR 2"
  have l: "bit c n \<Longrightarrow> n < 32" for n using bit_imp_le_length[of c n] by simp
  have bc': "bit c' n = bit c n" if "n \<noteq> 6" "n \<noteq> 7" for n
    using that l[of n] unfolding c'_def clkgen_bits
    by (simp only: bit_or_iff bit_and_iff bit_not_iff bit_flag split: if_split) auto
  have l': "bit c' n \<Longrightarrow> n < 32" for n using bit_imp_le_length[of c' n] by simp
  have b: "bit cg n = (if n = 0 \<or> n = 6 \<or> n = 9 then False else if n = 1 \<or> n = 3 then True else bit c' n)" for n
    using l'[of n] unfolding cg_def clkgen_bits
    by (simp only: bit_or_iff bit_and_iff bit_not_iff bit_flag bit_word_3 bit_word_2) auto
  have r: "rd (ecfgw (clkgen_preset c s)) ETH_CFG_CLKGEN = cg OR CLKGEN_ENABLE"
    by (simp add: clkgen_preset_def Let_def bringup_simps cg_def c'_def)
  show "bit (rd (ecfgw (clkgen_preset c s)) ETH_CFG_CLKGEN) n =
     (if n = 0 \<or> n = 6 \<or> n = 9 then False else if n = 1 \<or> n = 3 \<or> n = 7 then True else bit c n)"
    unfolding r CLKGEN_ENABLE_def by (simp only: bit_or_iff bit_flag b) (use bc' in auto)
  have "\<not> bit (cg AND NOT CLKGEN_ENABLE) 7"
    unfolding CLKGEN_ENABLE_def by (simp only: bit_and_iff bit_not_iff bit_flag) simp
  moreover have "trace (clkgen_preset c s) = trace s @ (if c' = c then [] else [Cfg ETH_CFG_CLKGEN c'])
      @ [Cfg ETH_CFG_CLKGEN (cg AND NOT CLKGEN_ENABLE), Wait 100, Cfg ETH_CFG_CLKGEN (cg OR CLKGEN_ENABLE), Wait 1000]
    \<or> trace (clkgen_preset c s) = trace s @ [Cfg ETH_CFG_CLKGEN c']
      @ [Cfg ETH_CFG_CLKGEN (cg AND NOT CLKGEN_ENABLE), Wait 100, Cfg ETH_CFG_CLKGEN (cg OR CLKGEN_ENABLE), Wait 1000]"
    by (auto simp: clkgen_preset_def Let_def bringup_simps cg_def c'_def)
  ultimately show "\<exists>pre stopped. trace (clkgen_preset c s) = trace s @ pre @ [Cfg ETH_CFG_CLKGEN stopped, Wait 100,
       Cfg ETH_CFG_CLKGEN (rd (ecfgw (clkgen_preset c s)) ETH_CFG_CLKGEN), Wait 1000]
     \<and> set pre \<subseteq> range (Cfg ETH_CFG_CLKGEN) \<and> \<not> bit stopped 7"
    unfolding r
    by (elim disjE; intro exI[of _ "cg AND NOT CLKGEN_ENABLE"] exI[of _ "if c' = c then [] else [Cfg ETH_CFG_CLKGEN c']"]
        exI[of _ "[Cfg ETH_CFG_CLKGEN c']"]) auto
qed

lemma preinit_frame:
  "ecfgw (gem_preinit s) = ecfgw s" "gpiow (gem_preinit s) = gpiow s" "books (gem_preinit s) = books s"
  "ecfgw (add_nodes ok_node s) = ecfgw s" "gemw (add_nodes ok_node s) = gemw s" "gpiow (add_nodes ok_node s) = gpiow s"
  "books (add_nodes ok_node s) = books s" "trace (add_nodes ok_node s) = trace s"
  "gpiow (clkgen_preset c s) = gpiow s" "books (clkgen_preset c s) = books s"
  by (simp_all add: gem_preinit_def add_nodes_def clkgen_preset_def Let_def bringup_simps) (simp add: books_def)

text \<open>The way to the PHY's reset: whatever the firmware left in the clock register, the clock
  is stopped, set to gigabit and given a millisecond; the MAC is reset, set up with the
  management port alone and put in RGMII mode; and only then is the line driven low
  for 5 ms and high, its other bits kept. Nothing else is written.\<close>

theorem clock_before_reset:
  assumes "s' = rp1_eth_phy_reset True True (add_nodes ok_node (gem_preinit (clkgen_preset c s)))"
  shows "\<exists>pre stopped running cfg low high. let r = RP1_GPIO_CTRL_OFFSET (unat (phy_reset_gpio (meta s))) mod 2 ^ 32 in
    trace s' = trace s @ pre @ [Cfg ETH_CFG_CLKGEN stopped, Wait 100, Cfg ETH_CFG_CLKGEN running, Wait 1000,
        Mac GEM_NET_CTRL 0, Mac GEM_NET_CFG cfg, Mac GEM_NET_CTRL 0x10, Mac GEM_USRIO 1,
        Pad 0x14 0x57, Gpio r low, Wait 5000, Gpio r high, Wait 150000]
    \<and> set pre \<subseteq> range (Cfg ETH_CFG_CLKGEN) \<and> \<not> bit stopped 7
    \<and> (\<forall>n. bit running n = (if n = 0 \<or> n = 6 \<or> n = 9 then False else if n = 1 \<or> n = 3 \<or> n = 7 then True else bit c n))
    \<and> (\<forall>n. bit low n = (if n = 12 then False else if n = 13 \<or> n = 14 \<or> n = 15 then True else bit (rd (gpiow s) r) n))
    \<and> (\<forall>n. bit high n = (if n = 12 \<or> n = 13 \<or> n = 14 \<or> n = 15 then True else bit (rd (gpiow s) r) n))"
proof -
  let ?c = "clkgen_preset c s" let ?p = "add_nodes ok_node (gem_preinit ?c)"
  have m: "meta ?p = meta s" by (rule books_meta) (simp add: preinit_frame)
  obtain pre stopped where pre: "trace ?c = trace s @ pre @ [Cfg ETH_CFG_CLKGEN stopped, Wait 100,
       Cfg ETH_CFG_CLKGEN (rd (ecfgw ?c) ETH_CFG_CLKGEN), Wait 1000]" "set pre \<subseteq> range (Cfg ETH_CFG_CLKGEN)" "\<not> bit stopped 7"
    using clkgen_preset_shape(1) by blast
  have t: "trace ?p = trace ?c @ [Mac GEM_NET_CTRL 0, Mac GEM_NET_CFG (GEM_NET_CFG_MDC_DIV96 OR GEM_NET_CFG_GIGE_EN OR GEM_NET_CFG_FULL_DUPLEX),
      Mac GEM_NET_CTRL 0x10, Mac GEM_USRIO 1]"
    by (simp add: gem_preinit_def bringup_simps preinit_frame GEM_NET_CTRL_MDIO_EN_def)
  have g: "gpiow ?p = gpiow s" by (simp add: preinit_frame)
  from phy_reset_pulse[OF assms[symmetric], unfolded m g] obtain low high where
    "let r = RP1_GPIO_CTRL_OFFSET (unat (phy_reset_gpio (meta s))) mod 2 ^ 32 in
    trace s' = trace ?p @ [Pad 0x14 0x57, Gpio r low, Wait 5000, Gpio r high, Wait 150000]
    \<and> (\<forall>n. bit low n = (if n = 12 then False else if n = 13 \<or> n = 14 \<or> n = 15 then True else bit (rd (gpiow s) r) n))
    \<and> (\<forall>n. bit high n = (if n = 12 \<or> n = 13 \<or> n = 14 \<or> n = 15 then True else bit (rd (gpiow s) r) n))"
    by blast
  then show ?thesis
    using pre clkgen_preset_shape(2)[of c s]
    by (intro exI[of _ pre] exI[of _ stopped] exI[of _ "rd (ecfgw ?c) ETH_CFG_CLKGEN"]
        exI[of _ "GEM_NET_CFG_MDC_DIV96 OR GEM_NET_CFG_GIGE_EN OR GEM_NET_CFG_FULL_DUPLEX"] exI[of _ low] exI[of _ high])
      (simp add: Let_def t)
qed

theorem clock_before_reset_witness:
  "\<exists>rest. trace (rp1_eth_phy_reset True True (add_nodes (\<lambda>_. True) (gem_preinit (clkgen_preset 0 blank_bringup)))) = rest @ [Wait 150000]"
proof -
  let ?s = "rp1_eth_phy_reset True True (add_nodes (\<lambda>_. True) (gem_preinit (clkgen_preset 0 blank_bringup)))"
  from clock_before_reset[of ?s "\<lambda>_. True" 0 blank_bringup, OF refl] obtain pre stopped running cfg low high where
    "trace ?s = trace blank_bringup @ pre @ [Cfg ETH_CFG_CLKGEN stopped, Wait 100, Cfg ETH_CFG_CLKGEN running, Wait 1000,
        Mac GEM_NET_CTRL 0, Mac GEM_NET_CFG cfg, Mac GEM_NET_CTRL 0x10, Mac GEM_USRIO 1,
        Pad 0x14 0x57, Gpio 0x4024 low, Wait 5000, Gpio 0x4024 high, Wait 150000]"
    by (auto simp: Let_def blank_bringup_def RP1_GPIO_CTRL_OFFSET_def)
  then have "trace ?s = (trace blank_bringup @ pre @ [Cfg ETH_CFG_CLKGEN stopped, Wait 100, Cfg ETH_CFG_CLKGEN running, Wait 1000,
        Mac GEM_NET_CTRL 0, Mac GEM_NET_CFG cfg, Mac GEM_NET_CTRL 0x10, Mac GEM_USRIO 1,
        Pad 0x14 0x57, Gpio 0x4024 low, Wait 5000, Gpio 0x4024 high]) @ [Wait 150000]" by simp
  then show ?thesis by blast
qed

section \<open>Load and unload give back what they take\<close>

lemma reset_books [bringup_simps]: "books (rp1_eth_phy_reset p g s) = books s"
  by (simp add: rp1_eth_phy_reset_def Let_def bringup_simps)

lemma bringup_books: "books (phy_bringup env s) = books s"
proof -
  obtain j where "adds (29 + 2 * j) s (before_speed env s)" using adds_before by blast
  then have "books (snd (rp1_eth_mdio_read env 5 (snd (rp1_eth_mdio_read env 10 (snd (rp1_eth_mdio_read env 9 (before_speed env s))))))) = books s"
    by (simp add: adds_def same_mac_def bringup_simps)
  then show ?thesis
    by (simp add: phy_bringup_split Let_def split_beta pause_frame_def enable_rxtx_def bringup_simps)
qed

lemma load_books:
  "books (phy_bringup env (enable_rxtx i (rp1_eth_phy_reset p g (add_nodes nok (gem_preinit (clkgen_preset c s)))))) = books s"
  by (simp add: bringup_books enable_rxtx_def bringup_simps preinit_frame)

lemma metadata_errors:
  "rp1_eth_fdt_read_metadata t x m = Some (error, m') \<Longrightarrow> error \<in> {ok, fail ENODEV, fail ENXIO}"
  by (auto simp: rp1_eth_fdt_read_metadata_def split: if_splits option.splits bool.splits)

lemma unload_result:
  assumes "held s = [Softc, Sc_mtx, Sysctl_ctx, Mac_map, Cfg_map]" "mac_mapped s" "cfg_mapped s" "rp1_eth_sc s"
  shows "held (fst (rp1_eth_unload s net)) = [] \<and> snd (rp1_eth_unload s net) = None
    \<and> \<not> rp1_eth_sc (fst (rp1_eth_unload s net)) \<and> rd (gemw (fst (rp1_eth_unload s net))) GEM_NET_CTRL = 0"
  using assms by (cases net) (simp_all add: rp1_eth_unload_def Let_def release_def MAC_WR4_def)

text \<open>C37: A load either succeeds, and the unload after it gives everything back and forgets the
  device, or it fails and has given everything back, but when the root of the sysctl
  tree cannot be made: that path forgets the mapping of the MAC.\<close>

theorem load_unload_balance:
  assumes "rp1_eth_load l env s = Some (r, s', net)" "held s = []" "\<not> rp1_eth_sc s"
  shows "(r \<noteq> ok \<longrightarrow> net = None \<and> \<not> rp1_eth_sc s'
      \<and> held s' = (if mac_map_ok l \<and> cfg_map_ok l \<and> \<not> node_ok l ''rp1_eth'' \<and> r = fail ENOMEM then [Mac_map] else []))
    \<and> (r = ok \<longrightarrow> held s' = [Softc, Sc_mtx, Sysctl_ctx, Mac_map, Cfg_map] \<and> rp1_eth_sc s'
      \<and> held (fst (rp1_eth_unload s' net)) = [] \<and> snd (rp1_eth_unload s' net) = None
      \<and> \<not> rp1_eth_sc (fst (rp1_eth_unload s' net)) \<and> rd (gemw (fst (rp1_eth_unload s' net))) GEM_NET_CTRL = 0)"
proof -
  let ?s0 = "take_res Sysctl_ctx (take_res Sc_mtx (take_res Softc (fresh_softc s)))"
  obtain error m where md: "rp1_eth_fdt_read_metadata (tree l) (xref l) (meta ?s0) = Some (error, m)"
    using assms(1) by (auto simp: rp1_eth_load_def Let_def split: option.splits)
  have e: "error \<noteq> fail ENOMEM" using metadata_errors[OF md] by auto
  let ?s1 = "?s0\<lparr>meta := m\<rparr>"
  have h1: "held ?s1 = [Softc, Sc_mtx, Sysctl_ctx]" "\<not> rp1_eth_sc ?s1"
    using assms(2,3) by (simp_all add: take_res_def fresh_softc_def)
  let ?s2 = "(take_res Cfg_map (((take_res Mac_map ?s1)\<lparr>mac_mapped := True\<rparr>)))\<lparr>cfg_mapped := True\<rparr>"
  have h2: "books ?s2 = ([Softc, Sc_mtx, Sysctl_ctx, Mac_map, Cfg_map], m, True, True, False)"
    using h1 by (simp add: books_def take_res_def)
  show ?thesis
  proof (cases "error = ok \<and> mac_map_ok l \<and> cfg_map_ok l \<and> node_ok l ''rp1_eth''")
    case False
    have f: "held (gem_preinit (clkgen_preset (clkgen_entry env) ?s2)) = [Softc, Sc_mtx, Sysctl_ctx, Mac_map, Cfg_map]"
      "\<not> rp1_eth_sc (gem_preinit (clkgen_preset (clkgen_entry env) ?s2))"
      using h2 preinit_frame(3)[of "clkgen_preset (clkgen_entry env) ?s2"] preinit_frame(10)[of "clkgen_entry env" ?s2]
      by (simp_all add: books_def)
    show ?thesis
      using assms(1) False md e h1 f
      by (auto simp: rp1_eth_load_def Let_def release_def take_res_def split: if_splits)
  next
    case True
    define t where "t = phy_bringup env (enable_rxtx (intr_early env) (rp1_eth_phy_reset (pads_map_ok l) (gpio_map_ok l)
      (add_nodes (node_ok l) (gem_preinit (clkgen_preset (clkgen_entry env) ?s2)))))"
    have "books t = books ?s2" unfolding t_def by (rule load_books)
    then have t: "held t = [Softc, Sc_mtx, Sysctl_ctx, Mac_map, Cfg_map]" "mac_mapped t" "cfg_mapped t"
      using h2 by (simp_all add: books_def)
    have r: "r = ok" "(s', net) = hand_over l (t\<lparr>rp1_eth_sc := True\<rparr>)"
      using assms(1) True md unfolding t_def by (auto simp: rp1_eth_load_def Let_def split: prod.splits)
    then have s': "held s' = [Softc, Sc_mtx, Sysctl_ctx, Mac_map, Cfg_map]" "mac_mapped s'" "cfg_mapped s'" "rp1_eth_sc s'"
      using t by (auto simp: hand_over_def Let_def split: prod.splits)
    then show ?thesis
      using r(1) by (simp add: unload_result)
  qed
qed

text \<open>A Pi 5, everything mapped, and no room for the sysctl tree: the load fails and the MAC
  window stays mapped.\<close>

theorem load_unload_balance_witness:
  "map_option (\<lambda>(r, s, net). (r, held s)) (rp1_eth_load \<lparr>tree = Some (pi5_tree ''rgmii-id''), xref = (\<lambda>_. None), mac_map_ok = True,
     cfg_map_ok = True, pads_map_ok = True, gpio_map_ok = True, node_ok = (\<lambda>_. False), dma_tag1 = ok, dma_tag2 = ok,
     dma_alloc = ok, dma_load = ok, dma_phys = 0, e0 = sample_eth\<rparr> (answering 4) blank_bringup) = Some (fail ENOMEM, [Mac_map])"
proof -
  let ?l = "\<lparr>tree = Some (pi5_tree ''rgmii-id''), xref = (\<lambda>_. None), mac_map_ok = True,
     cfg_map_ok = True, pads_map_ok = True, gpio_map_ok = True, node_ok = (\<lambda>_. False), dma_tag1 = ok, dma_tag2 = ok,
     dma_alloc = ok, dma_load = ok, dma_phys = 0, e0 = sample_eth\<rparr>"
  let ?m = "\<lparr>mac_addr = replicate 6 0, phy_mode = [], cfg_phy_addr = 0, phy_reset_gpio = 0, phy_reset_flags = 0\<rparr>"
  have "map_option fst (rp1_eth_fdt_read_metadata (Some (pi5_tree ''rgmii-id'')) (\<lambda>_. None) ?m) = Some ok"
    by code_simp
  then obtain m where m: "rp1_eth_fdt_read_metadata (Some (pi5_tree ''rgmii-id'')) (\<lambda>_. None) ?m = Some (ok, m)"
    by (cases "rp1_eth_fdt_read_metadata (Some (pi5_tree ''rgmii-id'')) (\<lambda>_. None) ?m") auto
  obtain s' where r: "rp1_eth_load ?l (answering 4) blank_bringup = Some (fail ENOMEM, s', None)"
    using m by (simp add: rp1_eth_load_def Let_def take_res_def fresh_softc_def)
  have "held blank_bringup = []" "\<not> rp1_eth_sc blank_bringup" by (simp_all add: blank_bringup_def)
  from load_unload_balance[OF r this] show ?thesis unfolding r by simp
qed

section \<open>The hand-over\<close>

lemma null_q_window:
  "cfgw (null_q_regs k n q phys e) = cfgw e \<and> cfg_kva (null_q_regs k n q phys e) = cfg_kva e
   \<and> lladdr (null_q_regs k n q phys e) = lladdr e \<and> (r < 0x440 \<longrightarrow> RD4 (null_q_regs k n q phys e) r = RD4 e r)"
  by (induction k n q phys e rule: null_q_regs.induct) (simp_all add: WR4_def RD4_def)

lemma attach_window:
  assumes "rp1eth_attach t1 t2 al ld phys addr e = (r, e')" "r = ok"
  shows "cfgw e' = cfgw e \<and> cfg_kva e' = cfg_kva e \<and> lladdr e' = addr
    \<and> (\<forall>n \<in> {0, 1, 10}. \<not> bit (RD4 e' CGEM_NET_CFG) n)"
proof -
  have n: "rd (mac (null_q_regs k j q phys x)) CGEM_NET_CFG = rd (mac x) CGEM_NET_CFG" for k j q phys x
    using null_q_window[of k j q phys x CGEM_NET_CFG] by (simp add: gem_regs RD4_def)
  have reset: "cfgw (cgem_reset x) = cfgw x" "cfg_kva (cgem_reset x) = cfg_kva x" "lladdr (cgem_reset x) = lladdr x" for x
    by (simp_all add: cgem_reset_def Let_def WR4_def)
  have bits: "\<not> bit (rd (mac (cgem_reset x)) CGEM_NET_CFG) k" if "k \<in> {0, 1, 10}" for x k
    using that by (auto simp: cgem_reset_def Let_def WR4_def gem_regs bit_or_iff)
  show ?thesis
    using assms reset null_q_window bits
    by (auto simp: rp1eth_attach_def cgem_setup_descs_def cgem_null_qs_def Let_def n RD4_def split: if_splits)
qed

text \<open>The speed found with the link partner does not survive the load: the network driver
  resets the MAC while it attaches, so the configuration says neither gigabit nor
  100 nor full duplex, and once the interface is configured the speed helper sets
  the clock to gigabit, whatever was negotiated. The interface has the tree's address.\<close>

theorem negotiation_undone:
  assumes "rp1_eth_load l env s = Some (r, s', Some e)"
  shows "r = ok \<and> mac e = gemw s' \<and> cfgw e = ecfgw s' \<and> lladdr e = mac_addr (meta s')
    \<and> \<not> bit (rd (gemw s') GEM_NET_CFG) 10 \<and> \<not> bit (rd (gemw s') GEM_NET_CFG) 1 \<and> \<not> bit (rd (gemw s') GEM_NET_CFG) 0
    \<and> (\<exists>base. reg_log (cfgw (rp1eth_update_speed (cgem_config rx_phys tx_phys e)))
         = reg_log (ecfgw s') @ [(ETH_CFG_CLKGEN, base), (ETH_CFG_CLKGEN, base OR push_bit 7 1)] \<and> base AND 3 = 2)"
proof -
  obtain t where t: "r = ok" "hand_over l t = (s', Some e)"
    using assms by (auto simp: rp1_eth_load_def Let_def split: option.splits if_splits prod.splits)
  then obtain err where a: "rp1eth_attach (dma_tag1 l) (dma_tag2 l) (dma_alloc l) (dma_load l) (dma_phys l) (mac_addr (meta t))
      ((e0 l)\<lparr>mac := gemw t, cfgw := ecfgw t, cfg_kva := True, phy_addr := unat (cfg_phy_addr (meta t))\<rparr>) = (err, e)"
    and err: "err = ok" and s': "s' = t\<lparr>gemw := mac e, ecfgw := cfgw e\<rparr>"
    by (auto simp: hand_over_def split: prod.splits if_splits)
  from attach_window[OF a err] have w: "cfg_kva e" "lladdr e = mac_addr (meta t)" "\<forall>n \<in> {0, 1, 10}. \<not> bit (RD4 e CGEM_NET_CFG) n"
    by simp_all
  obtain base where "reg_log (cfgw (rp1eth_update_speed (cgem_config rx_phys tx_phys e)))
      = reg_log (cfgw e) @ [(ETH_CFG_CLKGEN, base), (ETH_CFG_CLKGEN, base OR push_bit 7 1)]" "base AND 3 = 2"
    using speed_always_gigabit[OF w(1), of rx_phys tx_phys] by (auto simp: Let_def)
  then show ?thesis
    using t(1) s' w(2,3) by (auto simp: RD4_def gem_regs bringup_regs)
qed

text \<open>A partner of 100 Mb/s.\<close>

theorem negotiation_undone_witness:
  "\<exists>s' e. rp1_eth_load \<lparr>tree = Some (pi5_tree ''rgmii-id''), xref = (\<lambda>_. None), mac_map_ok = True,
     cfg_map_ok = True, pads_map_ok = True, gpio_map_ok = True, node_ok = (\<lambda>_. True), dma_tag1 = ok, dma_tag2 = ok,
     dma_alloc = ok, dma_load = ok, dma_phys = 0, e0 = sample_eth\<rparr> (answering 0x100) blank_bringup = Some (ok, s', Some e)
   \<and> \<not> bit (rd (gemw s') GEM_NET_CFG) 0"
proof -
  let ?l = "\<lparr>tree = Some (pi5_tree ''rgmii-id''), xref = (\<lambda>_. None), mac_map_ok = True,
     cfg_map_ok = True, pads_map_ok = True, gpio_map_ok = True, node_ok = (\<lambda>_. True), dma_tag1 = ok, dma_tag2 = ok,
     dma_alloc = ok, dma_load = ok, dma_phys = 0, e0 = sample_eth\<rparr>"
  let ?m = "\<lparr>mac_addr = replicate 6 0, phy_mode = [], cfg_phy_addr = 0, phy_reset_gpio = 0, phy_reset_flags = 0\<rparr>"
  have "map_option fst (rp1_eth_fdt_read_metadata (Some (pi5_tree ''rgmii-id'')) (\<lambda>_. None) ?m) = Some ok"
    by code_simp
  then obtain m where m: "rp1_eth_fdt_read_metadata (Some (pi5_tree ''rgmii-id'')) (\<lambda>_. None) ?m = Some (ok, m)"
    by (cases "rp1_eth_fdt_read_metadata (Some (pi5_tree ''rgmii-id'')) (\<lambda>_. None) ?m") auto
  have "\<exists>s' e. hand_over ?l t = (s', Some e)" for t
    by (simp add: hand_over_def rp1eth_attach_def cgem_setup_descs_def Let_def)
  then obtain s' e where r: "rp1_eth_load ?l (answering 0x100) blank_bringup = Some (ok, s', Some e)"
    using m by (force simp: rp1_eth_load_def Let_def take_res_def fresh_softc_def)
  from negotiation_undone[OF r] have "\<not> bit (rd (gemw s') GEM_NET_CFG) 0" by blast
  then show ?thesis using r by blast
qed

end
