(* ===== verification/EthLink.thy ===== *)
theory EthLink
  imports EthCfg
begin

text \<open>
  The speed the Ethernet bring-up resolves (the last part of the PHY set-up in
  src/rp1_eth_cfg.c) against the priority of IEEE 802.3: the modes of the link as an
  ordered type, the modes both ends can do, and the greatest of them.
\<close>

section \<open>Modes in their order of priority\<close>

datatype link_mode = M10_Half | M10_Full | M100_Half | M100_Full | M1000_Half | M1000_Full

fun priority :: "link_mode \<Rightarrow> nat" where
  "priority M10_Half = 0" | "priority M10_Full = 1" | "priority M100_Half = 2"
| "priority M100_Full = 3" | "priority M1000_Half = 4" | "priority M1000_Full = 5"

lemma priority_inj: "priority a = priority b \<Longrightarrow> a = b"
  by (cases a; cases b) simp_all

instantiation link_mode :: linorder
begin

definition less_eq_link_mode :: "link_mode \<Rightarrow> link_mode \<Rightarrow> bool" where
  "less_eq_link_mode a b \<longleftrightarrow> priority a \<le> priority b"

definition less_link_mode :: "link_mode \<Rightarrow> link_mode \<Rightarrow> bool" where
  "less_link_mode a b \<longleftrightarrow> priority a < priority b"

instance
  by standard (auto simp: less_eq_link_mode_def less_link_mode_def intro: priority_inj)

end

text \<open>Speed and duplex of a mode.\<close>

fun speed_of :: "link_mode \<Rightarrow> nat \<times> bool" where
  "speed_of M10_Half = (10, False)" | "speed_of M10_Full = (10, True)" | "speed_of M100_Half = (100, False)"
| "speed_of M100_Full = (100, True)" | "speed_of M1000_Half = (1000, False)" | "speed_of M1000_Full = (1000, True)"

text \<open>What both ends can do: our gigabit abilities are bits 9 and 8 of GBCR, those of the
  partner bits 11 and 10 of GBSR, and the slower ones of the partner bits 8 to 6 of ANLPAR;
  10 half is always possible.\<close>

definition common_modes :: "u16 \<Rightarrow> u16 \<Rightarrow> u16 \<Rightarrow> link_mode set" where
  "common_modes gbcr gbsr anlpar =
     {M10_Half} \<union> (if bit anlpar 6 then {M10_Full} else {}) \<union> (if bit anlpar 7 then {M100_Half} else {})
     \<union> (if bit anlpar 8 then {M100_Full} else {}) \<union> (if bit gbcr 8 \<and> bit gbsr 10 then {M1000_Half} else {})
     \<union> (if bit gbcr 9 \<and> bit gbsr 11 then {M1000_Full} else {})"

section \<open>The resolved speed\<close>

definition best_mode :: "u16 \<Rightarrow> u16 \<Rightarrow> u16 \<Rightarrow> link_mode" where
  "best_mode gbcr gbsr anlpar =
     (if bit gbcr 9 \<and> bit gbsr 11 then M1000_Full else if bit gbcr 8 \<and> bit gbsr 10 then M1000_Half
      else if bit anlpar 8 then M100_Full else if bit anlpar 7 then M100_Half else if bit anlpar 6 then M10_Full else M10_Half)"

lemma Max_common: "Max (common_modes gbcr gbsr anlpar) = best_mode gbcr gbsr anlpar"
proof (rule Max_eqI)
  show "finite (common_modes gbcr gbsr anlpar)" by (simp add: common_modes_def)
  show "best_mode gbcr gbsr anlpar \<in> common_modes gbcr gbsr anlpar" by (simp add: common_modes_def best_mode_def)
  show "m \<le> best_mode gbcr gbsr anlpar" if "m \<in> common_modes gbcr gbsr anlpar" for m
    using that by (auto simp: common_modes_def best_mode_def less_eq_link_mode_def split: if_splits)
qed

lemma resolve_bits:
  "resolve_speed gbcr gbsr anlpar =
     (if bit gbcr 9 \<and> bit gbsr 11 then (1000, True) else if bit gbsr 10 then (1000, False)
      else if bit anlpar 8 then (100, True) else if bit anlpar 7 then (100, False)
      else if bit anlpar 6 then (10, True) else (10, False))"
proof -
  have f: "x AND push_bit n 1 \<noteq> 0 \<longleftrightarrow> bit x n" if "n < 16" for x :: u16 and n
    using and_flag[OF refl, of n x] that by simp
  have n: "(6 :: nat) < 16" "(7 :: nat) < 16" "(8 :: nat) < 16" "(9 :: nat) < 16" "(10 :: nat) < 16" "(11 :: nat) < 16" by simp_all
  show ?thesis unfolding resolve_speed_def f[OF n(1)] f[OF n(2)] f[OF n(3)] f[OF n(4)] f[OF n(5)] f[OF n(6)] ..
qed

text \<open>The bring-up takes the greatest mode both ends have, in the order of IEEE 802.3, with
  one exception: where the partner offers gigabit half duplex and this end does not, and
  gigabit full duplex is not common, it takes gigabit half duplex all the same.\<close>

theorem speed_is_best:
  "resolve_speed gbcr gbsr anlpar = speed_of (Max (common_modes gbcr gbsr anlpar))
   \<longleftrightarrow> (bit gbsr 10 = False \<or> bit gbcr 8 \<or> (bit gbcr 9 \<and> bit gbsr 11))"
  by (simp add: Max_common resolve_bits best_mode_def)

end
