(* ===== verification/CywSdio.thy ===== *)
theory CywSdio
  imports Prelude
begin

text \<open>
  The SDIO access layer of the CYW43455 driver (src/cyw43455_sdio.c): the
  backplane window with its cached copy, single and block accesses through it,
  the clock and ready polls, the halt and release sequences of the ARM core, the
  sizing of its memory and the walk over the enumeration ROM. Every bus
  transfer may fail; which ones do is a script in the state, an empty script
  being a bus without faults.
\<close>

section \<open>The chip behind the bus\<close>

definition SBSDIO_SB_OFT_ADDR_MASK :: u32 where "SBSDIO_SB_OFT_ADDR_MASK = 0x7fff"

definition SBSDIO_SB_ACCESS_2_4B_FLAG :: u32 where "SBSDIO_SB_ACCESS_2_4B_FLAG = push_bit 15 1"

text \<open>The three window registers of the chip, the bytes of its backplane, the
  driver's copy of the window, and the fate of the transfers to come: True
  where one fails.\<close>

record sdio =
  hw_low :: u8
  hw_mid :: u8
  hw_high :: u8
  bp_mem :: "u32 \<Rightarrow> u8"
  bp_window :: u32
  faults :: "bool list"

definition hw_window :: "sdio \<Rightarrow> u32" where
  "hw_window s = push_bit 8 (ucast (hw_low s)) OR push_bit 16 (ucast (hw_mid s)) OR push_bit 24 (ucast (hw_high s))"

definition transfer :: "sdio \<Rightarrow> bool \<times> sdio" where
  "transfer s = (case faults s of [] \<Rightarrow> (True, s) | f # fs \<Rightarrow> (\<not> f, s\<lparr>faults := fs\<rparr>))"

datatype window_reg = SBADDRLOW | SBADDRMID | SBADDRHIGH

definition write_window_reg :: "window_reg \<Rightarrow> u8 \<Rightarrow> sdio \<Rightarrow> bool \<times> sdio" where
  "write_window_reg r v s =
     (let (done, s) = transfer s in
      (done, if \<not> done then s
             else case r of SBADDRLOW \<Rightarrow> s\<lparr>hw_low := v\<rparr> | SBADDRMID \<Rightarrow> s\<lparr>hw_mid := v\<rparr>
                          | SBADDRHIGH \<Rightarrow> s\<lparr>hw_high := v\<rparr>))"

text \<open>A run of bytes stored at a backplane address, and the address an access at an
  offset of function 1 reaches through the window of the chip.\<close>

definition store_bytes :: "u32 \<Rightarrow> bytes \<Rightarrow> (u32 \<Rightarrow> u8) \<Rightarrow> (u32 \<Rightarrow> u8)" where
  "store_bytes a bs m = (\<lambda>x. if unat (x - a) < length bs then bs ! unat (x - a) else m x)"

definition load32 :: "(u32 \<Rightarrow> u8) \<Rightarrow> u32 \<Rightarrow> u32" where
  "load32 m a = rd_le32 [m a, m (a + 1), m (a + 2), m (a + 3)] 0"

definition reached :: "sdio \<Rightarrow> u32 \<Rightarrow> u32" where
  "reached s f1_off = hw_window s OR (f1_off AND SBSDIO_SB_OFT_ADDR_MASK)"

definition f1_write :: "u32 \<Rightarrow> bytes \<Rightarrow> sdio \<Rightarrow> bool \<times> sdio" where
  "f1_write f1_off bs s =
     (let (done, s) = transfer s in
      (done, if done then s\<lparr>bp_mem := store_bytes (reached s f1_off) bs (bp_mem s)\<rparr> else s))"

text \<open>A block transfer: the address of the bus counts up within the window, which the
  transfer does not move.\<close>

definition window_bytes_at :: "sdio \<Rightarrow> u32 \<Rightarrow> bytes \<Rightarrow> (u32 \<Rightarrow> u8) \<Rightarrow> (u32 \<Rightarrow> u8)" where
  "window_bytes_at s f1_off bs m = fold (\<lambda>i m. m(reached s (f1_off + of_nat i) := bs ! i)) [0..<length bs] m"

definition f1_write_ext :: "u32 \<Rightarrow> bytes \<Rightarrow> sdio \<Rightarrow> bool \<times> sdio" where
  "f1_write_ext f1_off bs s =
     (let (done, s) = transfer s in
      (done, if done then s\<lparr>bp_mem := window_bytes_at s f1_off bs (bp_mem s)\<rparr> else s))"

definition f1_read_4 :: "u32 \<Rightarrow> u32 \<Rightarrow> sdio \<Rightarrow> u32 \<times> sdio" where
  "f1_read_4 bad f1_off s =
     (let (done, s) = transfer s in (if done then load32 (bp_mem s) (reached s f1_off) else bad, s))"

section \<open>The backplane window\<close>

definition cyw_set_backplane_window :: "u32 \<Rightarrow> sdio \<Rightarrow> rc \<times> sdio" where
  "cyw_set_backplane_window addr s =
     (let new_win = addr AND NOT SBSDIO_SB_OFT_ADDR_MASK in
      if new_win = bp_window s then (ok, s)
      else let (done, s) = write_window_reg SBADDRLOW (ucast (drop_bit 8 new_win AND 0xff)) s in
      if \<not> done then (fail EIO, s)
      else let (done, s) = write_window_reg SBADDRMID (ucast (drop_bit 16 new_win AND 0xff)) s in
      if \<not> done then (fail EIO, s)
      else let (done, s) = write_window_reg SBADDRHIGH (ucast (drop_bit 24 new_win AND 0xff)) s in
      if \<not> done then (fail EIO, s)
      else (ok, s\<lparr>bp_window := new_win\<rparr>))"

text \<open>bad is what sdio_read_4 answers when its transfer fails.\<close>

definition cyw_bp_read32 :: "u32 \<Rightarrow> u32 \<Rightarrow> sdio \<Rightarrow> u32 \<times> sdio" where
  "cyw_bp_read32 bad addr s =
     (let (r, s) = cyw_set_backplane_window addr s in
      if r \<noteq> ok then (0xffffffff, s)
      else f1_read_4 bad ((addr AND SBSDIO_SB_OFT_ADDR_MASK) OR SBSDIO_SB_ACCESS_2_4B_FLAG) s)"

definition cyw_bp_write32 :: "u32 \<Rightarrow> u32 \<Rightarrow> sdio \<Rightarrow> sdio" where
  "cyw_bp_write32 addr v s =
     (let (r, s) = cyw_set_backplane_window addr s in
      if r \<noteq> ok then s
      else snd (f1_write ((addr AND SBSDIO_SB_OFT_ADDR_MASK) OR SBSDIO_SB_ACCESS_2_4B_FLAG) (le32 v) s))"

definition bp_chunk :: "u32 \<Rightarrow> nat \<Rightarrow> nat \<Rightarrow> nat" where
  "bp_chunk addr tot dn = min (tot - dn) (0x8000 - unat ((addr + of_nat dn) AND SBSDIO_SB_OFT_ADDR_MASK))"

lemma offset_less: "unat ((a :: u32) AND SBSDIO_SB_OFT_ADDR_MASK) < 0x8000"
proof -
  have "a AND SBSDIO_SB_OFT_ADDR_MASK = take_bit 15 a"
    by (simp add: SBSDIO_SB_OFT_ADDR_MASK_def take_bit_eq_mask mask_eq_exp_minus_1)
  then have "unat (a AND SBSDIO_SB_OFT_ADDR_MASK) = take_bit 15 (unat a)"
    by (simp add: unsigned_take_bit_eq)
  then show ?thesis using take_bit_nat_less_exp[of 15 "unat a"] by simp
qed

lemma bp_chunk_pos: "dn < tot \<Longrightarrow> 0 < bp_chunk addr tot dn"
  using offset_less[of "addr + of_nat dn"] by (simp add: bp_chunk_def)

lemma bp_chunk_le: "bp_chunk addr tot dn \<le> tot - dn"
  by (simp add: bp_chunk_def)

function write_block_loop :: "u32 \<Rightarrow> bytes \<Rightarrow> nat \<Rightarrow> sdio \<Rightarrow> rc \<times> sdio" where
  "write_block_loop addr buf dn s =
     (if dn < length buf then
        (let chunk = bp_chunk addr (length buf) dn;
             (r, s) = cyw_set_backplane_window (addr + of_nat dn) s in
         if r \<noteq> ok then (r, s)
         else let (done, s) = f1_write_ext ((addr + of_nat dn) AND SBSDIO_SB_OFT_ADDR_MASK)
                                (take chunk (drop dn buf)) s in
         if \<not> done then (fail EIO, s)
         else write_block_loop addr buf (dn + chunk) s)
      else (ok, s))"
  by pat_completeness auto
termination
proof (relation "measure (\<lambda>(_, buf, dn, _). length buf - dn)", goal_cases)
  case (2 addr buf dn s x xa y xb xc z)
  then show ?case using bp_chunk_pos[of dn "length buf" addr] by simp
qed simp

declare write_block_loop.simps [simp del]

definition cyw_bp_write_block :: "u32 \<Rightarrow> bytes \<Rightarrow> sdio \<Rightarrow> rc \<times> sdio" where
  "cyw_bp_write_block addr buf s = write_block_loop addr buf 0 s"

text \<open>The packet write rounds the length up to the block size; what follows the
  frame in memory goes out with it.\<close>

definition CYW_F2_BLKSIZE :: nat where "CYW_F2_BLKSIZE = 64"

definition f2_txlen :: "nat \<Rightarrow> nat" where
  "f2_txlen flen = (flen + CYW_F2_BLKSIZE - 1) div CYW_F2_BLKSIZE * CYW_F2_BLKSIZE"

definition cyw_f2_write_block :: "bytes \<Rightarrow> bytes \<Rightarrow> bytes" where
  "cyw_f2_write_block frame after = take (f2_txlen (length frame)) (frame @ after)"

section \<open>The window is coherent while no window write fails\<close>

definition coherent :: "sdio \<Rightarrow> bool" where
  "coherent s \<longleftrightarrow> hw_window s = bp_window s \<and> bp_window s AND SBSDIO_SB_OFT_ADDR_MASK = 0"

lemma mask_bit32: "bit (mask k :: u32) n \<longleftrightarrow> n < k \<and> n < 32"
  by (auto simp add: bit_mask_iff)

lemma offset_bits: "bit SBSDIO_SB_OFT_ADDR_MASK n \<longleftrightarrow> n < 15"
proof -
  have "SBSDIO_SB_OFT_ADDR_MASK = mask 15" by (simp add: SBSDIO_SB_OFT_ADDR_MASK_def mask_eq_exp_minus_1)
  then have "bit SBSDIO_SB_OFT_ADDR_MASK n \<longleftrightarrow> n < 15 \<and> n < 32" by (metis mask_bit32)
  then show ?thesis by auto
qed

lemma window_bytes:
  "push_bit 8 (ucast (ucast (drop_bit 8 w AND 0xff) :: u8)) OR push_bit 16 (ucast (ucast (drop_bit 16 w AND 0xff) :: u8))
     OR push_bit 24 (ucast (ucast (drop_bit 24 w AND 0xff) :: u8)) = (w :: u32) AND NOT 0xff"
proof -
  have m: "(0xff :: u32) = mask 8" by (simp add: mask_eq_exp_minus_1)
  have ff: "bit (0xff :: u32) n \<longleftrightarrow> n < 8" for n
    using mask_bit32[of 8 n] unfolding m[symmetric] by auto
  show ?thesis
  proof (rule bit_word_eqI, goal_cases)
    case (1 n)
    then have "n < 32" by simp
    then show ?case
      by (cases "n < 8"; cases "n < 16"; cases "n < 24")
        (simp_all only: bit_or_iff bit_and_iff bit_not_iff bit_push_bit_iff bit_ucast_iff bit_drop_bit_eq ff, auto simp: ff)
  qed
qed

lemma window_low_bits: "(a AND NOT SBSDIO_SB_OFT_ADDR_MASK) AND NOT 0xff = a AND NOT SBSDIO_SB_OFT_ADDR_MASK"
proof -
  have "NOT SBSDIO_SB_OFT_ADDR_MASK AND NOT 0xff = NOT SBSDIO_SB_OFT_ADDR_MASK"
    by (simp add: SBSDIO_SB_OFT_ADDR_MASK_def)
  then show ?thesis by (simp add: and.assoc)
qed

lemma window_of_window: "(a AND NOT SBSDIO_SB_OFT_ADDR_MASK) AND SBSDIO_SB_OFT_ADDR_MASK = 0"
  by (simp add: and.assoc)

text \<open>After a successful window call the chip and the copy name the window of the
  address, if they agreed before.\<close>

lemma set_window_ok:
  assumes "coherent s" "cyw_set_backplane_window addr s = (ok, s')"
  shows "coherent s' \<and> bp_window s' = addr AND NOT SBSDIO_SB_OFT_ADDR_MASK \<and> bp_mem s' = bp_mem s"
proof (cases "addr AND NOT SBSDIO_SB_OFT_ADDR_MASK = bp_window s")
  case True
  then show ?thesis using assms by (simp add: cyw_set_backplane_window_def)
next
  case False
  then have s': "hw_window s' = (addr AND NOT SBSDIO_SB_OFT_ADDR_MASK) AND NOT 0xff"
      "bp_window s' = addr AND NOT SBSDIO_SB_OFT_ADDR_MASK" "bp_mem s' = bp_mem s"
    using assms(2) unfolding cyw_set_backplane_window_def hw_window_def window_bytes[symmetric]
    by (auto simp: write_window_reg_def transfer_def Let_def split: if_splits prod.splits list.splits)
  then show ?thesis unfolding coherent_def window_low_bits by (simp add: window_of_window)
qed

lemma set_window_no_faults:
  assumes "faults s = []"
  shows "\<exists>s'. cyw_set_backplane_window addr s = (ok, s') \<and> faults s' = []"
  using assms by (simp add: cyw_set_backplane_window_def write_window_reg_def transfer_def Let_def)

lemma reached_address:
  assumes "hw_window s = addr AND NOT SBSDIO_SB_OFT_ADDR_MASK"
  shows "reached s (addr AND SBSDIO_SB_OFT_ADDR_MASK) = addr"
    and "reached s ((addr AND SBSDIO_SB_OFT_ADDR_MASK) OR SBSDIO_SB_ACCESS_2_4B_FLAG) = addr"
proof -
  have f: "bit SBSDIO_SB_ACCESS_2_4B_FLAG n \<longleftrightarrow> n = 15" for n
    using flag_bit[OF SBSDIO_SB_ACCESS_2_4B_FLAG_def, of n] by simp
  show "reached s (addr AND SBSDIO_SB_OFT_ADDR_MASK) = addr"
    unfolding reached_def assms
    by (rule bit_word_eqI) (auto simp: bit_or_iff bit_and_iff bit_not_iff)
  show "reached s ((addr AND SBSDIO_SB_OFT_ADDR_MASK) OR SBSDIO_SB_ACCESS_2_4B_FLAG) = addr"
    unfolding reached_def assms
    by (rule bit_word_eqI) (auto simp: bit_or_iff bit_and_iff bit_not_iff f offset_bits)
qed

section \<open>Storing in pieces\<close>

lemma store_bytes_append:
  assumes "length xs + length ys \<le> 2 ^ 32"
  shows "store_bytes (a + of_nat (length xs)) ys (store_bytes a xs m) = store_bytes a (xs @ ys) m"
proof (cases "ys = []")
  case True
  then show ?thesis by (simp add: store_bytes_def)
next
  case False
  then have small: "length xs < 2 ^ 32" using assms by (cases ys) simp_all
  show ?thesis
  proof
    fix x
    define d where "d = x - a"
    have d: "x - (a + of_nat (length xs)) = d - of_nat (length xs)" by (simp add: d_def algebra_simps)
    have n: "unat (of_nat (length xs) :: u32) = length xs"
      using small by (simp add: unat_of_nat take_bit_nat_eq_self)
    show "store_bytes (a + of_nat (length xs)) ys (store_bytes a xs m) x = store_bytes a (xs @ ys) m x"
    proof (cases "unat d < length xs")
      case True
      then have "unat (d - of_nat (length xs)) = 2 ^ 32 + unat d - length xs"
        using n small by (simp add: unat_sub_if_size word_size word_less_nat_alt not_le)
      then have "\<not> unat (d - of_nat (length xs)) < length ys" using assms by simp
      then show ?thesis using True by (simp add: store_bytes_def d d_def[symmetric] nth_append)
    next
      case False
      then have "unat (d - of_nat (length xs)) = unat d - length xs"
        using n by (simp add: unat_sub_if_size word_size word_less_nat_alt not_le)
      then show ?thesis using False by (auto simp: store_bytes_def d d_def[symmetric] nth_append)
    qed
  qed
qed

lemma store_bytes_Nil [simp]: "store_bytes a [] m = m"
  by (simp add: store_bytes_def)

section \<open>Block writes\<close>

lemma fold_store:
  assumes "\<And>i. i < n \<Longrightarrow> g i = a + of_nat i" "n \<le> length bs" "n \<le> 2 ^ 32"
  shows "fold (\<lambda>i m. m(g i := bs ! i)) [0..<n] m = store_bytes a (take n bs) m"
  using assms
proof (induction n)
  case (Suc n)
  have n: "unat (of_nat n :: u32) = n" using Suc.prems(3) by (simp add: unat_of_nat take_bit_nat_eq_self)
  have "fold (\<lambda>i m. m(g i := bs ! i)) [0..<Suc n] m = (store_bytes a (take n bs) m)(a + of_nat n := bs ! n)"
    using Suc.IH Suc.prems by (simp del: fun_upd_apply)
  also have "\<dots> = store_bytes a (take (Suc n) bs) m"
  proof
    fix x
    have "x = a + of_nat n \<longleftrightarrow> unat (x - a) = n"
    proof
      assume "unat (x - a) = n"
      then have "x - a = of_nat n" using word_unat_eq_iff[of "x - a" "of_nat n"] n by simp
      then show "x = a + of_nat n" by (simp add: algebra_simps)
    qed (simp add: n)
    then show "((store_bytes a (take n bs) m)(a + of_nat n := bs ! n)) x = store_bytes a (take (Suc n) bs) m x"
      using Suc.prems(2) by (auto simp: store_bytes_def min_def less_Suc_eq)
  qed
  finally show ?case .
qed simp

lemma and_swap: "w AND (x AND m) = (w AND m) AND (x :: u32)"
  by (simp add: and.assoc and.commute and.left_commute)

lemma reached_count:
  assumes "hw_window s = addr AND NOT SBSDIO_SB_OFT_ADDR_MASK" "unat (addr AND SBSDIO_SB_OFT_ADDR_MASK) + i < 0x8000"
  shows "reached s ((addr AND SBSDIO_SB_OFT_ADDR_MASK) + of_nat i) = addr + of_nat i"
proof -
  let ?o = "addr AND SBSDIO_SB_OFT_ADDR_MASK" and ?w = "addr AND NOT SBSDIO_SB_OFT_ADDR_MASK"
  have m: "SBSDIO_SB_OFT_ADDR_MASK = mask 15" by (simp add: SBSDIO_SB_OFT_ADDR_MASK_def mask_eq_exp_minus_1)
  have u: "unat (?o + of_nat i) = unat ?o + i"
    using assms(2) by (simp add: unat_word_ariths unat_of_nat take_bit_nat_eq_self)
  have "(?o + of_nat i) AND SBSDIO_SB_OFT_ADDR_MASK = ?o + of_nat i"
  proof -
    have "unat (take_bit 15 (?o + of_nat i)) = unat (?o + of_nat i)"
      using u assms(2) by (simp only: unsigned_take_bit_eq) (simp add: take_bit_nat_eq_self)
    then have "take_bit 15 (?o + of_nat i) = ?o + of_nat i" by (simp only: word_unat_eq_iff)
    then show ?thesis by (simp only: m take_bit_eq_mask)
  qed
  moreover have "?w AND (?o + of_nat i) = 0"
  proof -
    have "?w AND (?o + of_nat i) = ?w AND ((?o + of_nat i) AND SBSDIO_SB_OFT_ADDR_MASK)" by (simp only: calculation)
    also have "\<dots> = (?w AND SBSDIO_SB_OFT_ADDR_MASK) AND (?o + of_nat i)" by (rule and_swap)
    also have "\<dots> = 0" by (subst window_of_window) simp
    finally show ?thesis .
  qed
  then have "?w OR (?o + of_nat i) = ?w + (?o + of_nat i)" by (simp add: disjunctive_add_eq_or)
  moreover have "?w + ?o = addr"
  proof -
    have "?w AND ?o = 0" by (rule bit_word_eqI) (auto simp: bit_simps)
    then have "?w OR ?o = ?w + ?o" by (simp add: disjunctive_add_eq_or)
    moreover have "?w OR ?o = addr" by (rule bit_word_eqI) (auto simp: bit_simps)
    ultimately show ?thesis by simp
  qed
  ultimately show ?thesis unfolding reached_def assms(1) by (simp add: add.assoc)
qed

lemma f1_write_ext_ok:
  assumes "faults s = []" "coherent s" "bp_window s = addr AND NOT SBSDIO_SB_OFT_ADDR_MASK"
    and "unat (addr AND SBSDIO_SB_OFT_ADDR_MASK) + length bs \<le> 0x8000"
  shows "f1_write_ext (addr AND SBSDIO_SB_OFT_ADDR_MASK) bs s = (True, s\<lparr>bp_mem := store_bytes addr bs (bp_mem s)\<rparr>)"
proof -
  have "window_bytes_at s (addr AND SBSDIO_SB_OFT_ADDR_MASK) bs m = store_bytes addr bs m" for m
    unfolding window_bytes_at_def
    by (subst fold_store[where a = addr]) (use assms in \<open>simp_all add: coherent_def reached_count\<close>)
  then show ?thesis using assms(1) by (simp add: f1_write_ext_def transfer_def)
qed

lemma write_block_loop_ok:
  assumes "faults s = []" "coherent s" "dn \<le> length buf" "length buf \<le> 2 ^ 32"
    and "bp_mem s = store_bytes addr (take dn buf) m"
  shows "\<exists>s'. write_block_loop addr buf dn s = (ok, s') \<and> bp_mem s' = store_bytes addr buf m \<and> coherent s'
    \<and> faults s' = []"
  using assms
proof (induction addr buf dn s rule: write_block_loop.induct)
  case (1 addr buf dn s)
  show ?case
  proof (cases "dn < length buf")
    case False
    then show ?thesis using 1(2-) by (subst write_block_loop.simps) auto
  next
    case True
    define chunk where "chunk = bp_chunk addr (length buf) dn"
    define a where "a = addr + of_nat dn"
    from set_window_no_faults[OF 1(2), of a]
    obtain s1 where s1: "cyw_set_backplane_window a s = (ok, s1)" "faults s1 = []" by blast
    have c1: "coherent s1" "bp_window s1 = a AND NOT SBSDIO_SB_OFT_ADDR_MASK" "bp_mem s1 = bp_mem s"
      using set_window_ok[OF 1(3) s1(1)] by simp_all
    define s2 where "s2 = s1\<lparr>bp_mem := store_bytes a (take chunk (drop dn buf)) (bp_mem s1)\<rparr>"
    have le: "chunk \<le> length buf - dn" by (simp add: chunk_def bp_chunk_le)
    have "unat (a AND SBSDIO_SB_OFT_ADDR_MASK) + chunk \<le> 0x8000"
      using offset_less[of a] by (simp add: chunk_def bp_chunk_def a_def)
    then have w: "f1_write_ext (a AND SBSDIO_SB_OFT_ADDR_MASK) (take chunk (drop dn buf)) s1 = (True, s2)"
      unfolding s2_def using le by (intro f1_write_ext_ok[OF s1(2) c1(1,2)]) simp
    have "bp_mem s2 = store_bytes addr (take dn buf @ take chunk (drop dn buf)) m"
    proof -
      have "bp_mem s2 = store_bytes (addr + of_nat (length (take dn buf))) (take chunk (drop dn buf))
          (store_bytes addr (take dn buf) m)"
        using True 1(6) c1(3) by (simp add: s2_def a_def)
      also have "\<dots> = store_bytes addr (take dn buf @ take chunk (drop dn buf)) m"
        by (rule store_bytes_append) (use True 1(5) le in simp)
      finally show ?thesis .
    qed
    then have mem: "bp_mem s2 = store_bytes addr (take (dn + chunk) buf) m" by (simp add: take_add)
    have s2: "faults s2 = []" "coherent s2"
      using s1(2) c1(1) by (simp_all add: s2_def coherent_def hw_window_def)
    have step: "write_block_loop addr buf dn s = write_block_loop addr buf (dn + chunk) s2"
      using True s1(1) w by (subst write_block_loop.simps) (simp add: Let_def chunk_def[symmetric] a_def[symmetric])
    show ?thesis unfolding step
      by (rule 1(1)[OF True chunk_def s1(1)[unfolded a_def, symmetric] refl _ w[unfolded a_def, symmetric] refl _ s2])
         (use le True 1(5) mem in \<open>simp_all\<close>)
  qed
qed

text \<open>C17: The firmware download path. From a coherent window and without bus faults a
  block write returns and stores exactly the buffer: byte i of it at the
  address plus i, whatever windows the range crosses, and nothing else of the
  backplane; and the window stays coherent.\<close>

theorem bp_write_block_stores:
  assumes "faults s = []" "coherent s" "length buf \<le> 2 ^ 32"
  shows "\<exists>s'. cyw_bp_write_block addr buf s = (ok, s') \<and> coherent s'
    \<and> (\<forall>i<length buf. bp_mem s' (addr + of_nat i) = buf ! i)
    \<and> (\<forall>x. length buf \<le> unat (x - addr) \<longrightarrow> bp_mem s' x = bp_mem s x)"
proof -
  from write_block_loop_ok[OF assms(1,2), of 0 buf addr "bp_mem s"] assms(3)
  obtain s' where s': "write_block_loop addr buf 0 s = (ok, s')" "bp_mem s' = store_bytes addr buf (bp_mem s)"
    "coherent s'" by auto
  have "unat (of_nat i :: u32) = i" if "i < length buf" for i
    using that assms(3) by (simp add: unat_of_nat take_bit_nat_eq_self)
  then have "\<forall>i<length buf. bp_mem s' (addr + of_nat i) = buf ! i"
    using s'(2) by (simp add: store_bytes_def)
  moreover have "\<forall>x. length buf \<le> unat (x - addr) \<longrightarrow> bp_mem s' x = bp_mem s x"
    using s'(2) by (simp add: store_bytes_def)
  ultimately show ?thesis using s' by (auto simp: cyw_bp_write_block_def)
qed

definition fresh_sdio :: sdio where
  "fresh_sdio = \<lparr>hw_low = 0, hw_mid = 0, hw_high = 0, bp_mem = (\<lambda>_. 0), bp_window = 0, faults = []\<rparr>"

lemma fresh_coherent: "coherent fresh_sdio" "faults fresh_sdio = []"
  by (simp_all add: coherent_def hw_window_def fresh_sdio_def)

theorem bp_write_block_stores_witness:
  "\<exists>s'. cyw_bp_write_block 0x19fffe [1, 2, 3, 4] fresh_sdio = (ok, s') \<and> bp_mem s' (0x19fffe + of_nat 3) = 4"
  using bp_write_block_stores[OF fresh_coherent(2,1), of "[1, 2, 3, 4]" "0x19fffe"] by fastforce

section \<open>Single accesses, and a window write that fails half way\<close>

lemma load_store32: "load32 (store_bytes a (le32 v) m) a = v"
proof -
  have "store_bytes a (le32 v) m a = le32 v ! 0" "store_bytes a (le32 v) m (a + 1) = le32 v ! 1"
    "store_bytes a (le32 v) m (a + 2) = le32 v ! 2" "store_bytes a (le32 v) m (a + 3) = le32 v ! 3"
    by (simp_all add: store_bytes_def)
  then have "[store_bytes a (le32 v) m a, store_bytes a (le32 v) m (a + 1), store_bytes a (le32 v) m (a + 2),
      store_bytes a (le32 v) m (a + 3)] = le32 v" by (simp add: le32_def)
  then show ?thesis using rd_le32_append[of 0 "[]" v "[]"] by (simp add: load32_def)
qed

lemma bp_write32_ok:
  assumes "faults s = []" "coherent s"
  shows "coherent (cyw_bp_write32 addr v s) \<and> faults (cyw_bp_write32 addr v s) = []
    \<and> bp_mem (cyw_bp_write32 addr v s) = store_bytes addr (le32 v) (bp_mem s)"
proof -
  from set_window_no_faults[OF assms(1), of addr]
  obtain s1 where s1: "cyw_set_backplane_window addr s = (ok, s1)" "faults s1 = []" by blast
  note c1 = set_window_ok[OF assms(2) s1(1)]
  then have "reached s1 ((addr AND SBSDIO_SB_OFT_ADDR_MASK) OR SBSDIO_SB_ACCESS_2_4B_FLAG) = addr"
    by (intro reached_address(2)) (simp add: coherent_def)
  then show ?thesis using s1 c1
    by (auto simp: cyw_bp_write32_def f1_write_def transfer_def coherent_def hw_window_def window_of_window)
qed

lemma bp_read32_ok:
  assumes "faults s = []" "coherent s"
  shows "fst (cyw_bp_read32 bad addr s) = load32 (bp_mem s) addr
    \<and> coherent (snd (cyw_bp_read32 bad addr s)) \<and> faults (snd (cyw_bp_read32 bad addr s)) = []
    \<and> bp_mem (snd (cyw_bp_read32 bad addr s)) = bp_mem s"
proof -
  from set_window_no_faults[OF assms(1), of addr]
  obtain s1 where s1: "cyw_set_backplane_window addr s = (ok, s1)" "faults s1 = []" by blast
  note c1 = set_window_ok[OF assms(2) s1(1)]
  then have "reached s1 ((addr AND SBSDIO_SB_OFT_ADDR_MASK) OR SBSDIO_SB_ACCESS_2_4B_FLAG) = addr"
    by (intro reached_address(2)) (simp add: coherent_def)
  then show ?thesis using s1 c1
    by (auto simp: cyw_bp_read32_def f1_read_4_def transfer_def coherent_def hw_window_def window_of_window)
qed

lemma bp_write_read: "faults s = [] \<Longrightarrow> coherent s \<Longrightarrow> fst (cyw_bp_read32 bad addr (cyw_bp_write32 addr v s)) = v"
  using bp_write32_ok[of s addr v] bp_read32_ok[of "cyw_bp_write32 addr v s" bad addr] by (simp add: load_store32)

text \<open>The low byte of the window decides whether two windows differ.\<close>

lemma hw_window_low: "(ucast (drop_bit 8 (hw_window s)) :: u8) = hw_low s"
proof (rule bit_word_eqI)
  fix n assume "n < LENGTH(8)"
  then show "bit (ucast (drop_bit 8 (hw_window s)) :: u8) n = bit (hw_low s) n"
    by (auto simp: hw_window_def bit_simps)
qed

text \<open>A window change whose second register write fails returns an error and leaves
  the driver's copy as it was, while the chip has taken the first byte. The copy
  is then wrong: a later write to an address in the window the copy names sets
  no window, meets no fault, and lands somewhere else.\<close>

theorem window_desync:
  assumes "coherent s" "faults s = [False, True]"
    and "ucast (drop_bit 8 (addr AND NOT SBSDIO_SB_OFT_ADDR_MASK)) \<noteq> hw_low s"
    and "cyw_set_backplane_window addr s = (r, s')"
    and "b AND NOT SBSDIO_SB_OFT_ADDR_MASK = bp_window s"
  shows "r = fail EIO \<and> bp_window s' = bp_window s \<and> \<not> coherent s' \<and> bp_mem s' = bp_mem s
    \<and> (\<exists>x. x \<noteq> b \<and> bp_mem (cyw_bp_write32 b v s') = store_bytes x (le32 v) (bp_mem s))"
proof -
  let ?nw = "addr AND NOT SBSDIO_SB_OFT_ADDR_MASK"
  let ?low = "ucast (drop_bit 8 ?nw) :: u8"
  have low: "(ucast (drop_bit 8 ?nw AND 0xff) :: u8) = ?low"
  proof -
    have m: "(0xff :: u32) = mask 8" by (simp add: mask_eq_exp_minus_1)
    show ?thesis unfolding m
      by (rule bit_word_eqI, goal_cases) (auto simp: bit_ucast_iff bit_and_iff mask_bit32)
  qed
  have differ: "?nw \<noteq> bp_window s"
    using assms(1,3) hw_window_low[of s] unfolding coherent_def by metis
  define nw where "nw = ?nw"
  have s': "r = fail EIO" "s' = s\<lparr>hw_low := ?low, faults := []\<rparr>"
    using assms(2,4) differ low unfolding cyw_set_backplane_window_def nw_def[symmetric]
    by (auto simp: write_window_reg_def transfer_def Let_def)
  have "hw_low s' \<noteq> hw_low s" using assms(3) by (simp add: s')
  then have hw: "hw_window s' \<noteq> hw_window s" using hw_window_low by metis
  have cached: "bp_window s' = bp_window s" by (simp add: s')
  let ?x = "reached s' ((b AND SBSDIO_SB_OFT_ADDR_MASK) OR SBSDIO_SB_ACCESS_2_4B_FLAG)"
  have b: "b = reached s ((b AND SBSDIO_SB_OFT_ADDR_MASK) OR SBSDIO_SB_ACCESS_2_4B_FLAG)"
    using reached_address(2)[of s b] assms(1,5) by (simp add: coherent_def)
  have "bp_mem (cyw_bp_write32 b v s') = store_bytes ?x (le32 v) (bp_mem s)"
    using assms(5) by (simp add: cyw_bp_write32_def cyw_set_backplane_window_def cached f1_write_def transfer_def)
       (simp add: s')
  moreover have "?x \<noteq> b"
  proof
    assume eq: "?x = b"
    let ?o = "((b AND SBSDIO_SB_OFT_ADDR_MASK) OR SBSDIO_SB_ACCESS_2_4B_FLAG) AND SBSDIO_SB_OFT_ADDR_MASK"
    have same: "hw_window s' OR ?o = hw_window s OR ?o" using eq b by (simp add: reached_def)
    have "?nw AND SBSDIO_SB_OFT_ADDR_MASK = 0" by (simp add: and.assoc)
    have bits: "\<not> bit (hw_low s) n \<and> \<not> bit (hw_low s') n" if "n < 7" for n
    proof -
      have "\<not> bit (hw_window s) (n + 8)"
      proof -
        have "\<not> bit (bp_window s AND SBSDIO_SB_OFT_ADDR_MASK) (n + 8)"
          using assms(1) by (simp add: coherent_def)
        then show ?thesis using that assms(1) by (simp add: coherent_def bit_and_iff offset_bits)
      qed
      moreover have "bit (hw_low s) n = bit (hw_window s) (n + 8)"
        unfolding hw_window_low[of s, symmetric] using that by (simp add: bit_ucast_iff bit_drop_bit_eq add.commute)
      moreover have "\<not> bit ?low n" using that by (simp add: bit_ucast_iff bit_drop_bit_eq bit_and_iff bit_not_iff offset_bits)
      ultimately show ?thesis by (simp add: s')
    qed
    have b7: "bit (hw_low t) 7 = bit (hw_window t) 15" for t
      unfolding hw_window_low[of t, symmetric] by (simp add: bit_ucast_iff bit_drop_bit_eq)
    have "bit (hw_window s') 15 = bit (hw_window s) 15"
    proof -
      have "\<not> bit ?o 15" by (simp add: bit_and_iff offset_bits)
      then show ?thesis using arg_cong[OF same, of "\<lambda>w. bit w 15"] by (simp add: bit_or_iff)
    qed
    then have "hw_low s' = hw_low s"
    proof (intro bit_word_eqI)
      fix n assume "n < LENGTH(8)"
      then show "bit (hw_window s') 15 = bit (hw_window s) 15 \<Longrightarrow> bit (hw_low s') n = bit (hw_low s) n"
        using bits[of n] b7 by (cases "n < 7"; cases "n = 7") auto
    qed
    then show False using \<open>hw_low s' \<noteq> hw_low s\<close> by simp
  qed
  moreover have "\<not> coherent s'" using hw assms(1) cached by (simp add: coherent_def)
  ultimately show ?thesis using s' cached by auto
qed

text \<open>From the window of the enumeration space to that of the firmware image.\<close>

theorem window_desync_witness:
  "\<exists>x. x \<noteq> 0x18000660 \<and> bp_mem (cyw_bp_write32 0x18000660 4
     (snd (cyw_set_backplane_window 0x198000
        (fresh_sdio\<lparr>hw_high := 0x18, bp_window := 0x18000000, faults := [False, True]\<rparr>))))
     = store_bytes x (le32 4) (\<lambda>_. 0)"
proof -
  let ?s = "fresh_sdio\<lparr>hw_high := 0x18, bp_window := 0x18000000, faults := [False, True]\<rparr>"
  have c: "coherent ?s" by (simp add: coherent_def hw_window_def fresh_sdio_def SBSDIO_SB_OFT_ADDR_MASK_def)
  show ?thesis
    using window_desync[OF c _ _ surjective_pairing, of "0x198000" "0x18000660" 4]
    by (simp add: fresh_sdio_def SBSDIO_SB_OFT_ADDR_MASK_def)
qed

section \<open>Clock and ready polls\<close>

definition SBSDIO_ALP_AVAIL :: u8 where "SBSDIO_ALP_AVAIL = push_bit 6 1"

text \<open>The loop over at most n reads of the clock register; reg i is what read i of it
  answers, an error or a value.\<close>

fun alp_poll :: "(nat \<Rightarrow> u8 result) \<Rightarrow> nat \<Rightarrow> nat \<Rightarrow> rc" where
  "alp_poll reg i 0 = fail ETIMEDOUT"
| "alp_poll reg i (Suc n) =
     (case reg i of Inl e \<Rightarrow> fail e
      | Inr csr \<Rightarrow> if csr AND SBSDIO_ALP_AVAIL \<noteq> 0 then ok else alp_poll reg (i + 1) n)"

definition cyw_sdio_enable_clock :: "rc \<Rightarrow> (nat \<Rightarrow> u8 result) \<Rightarrow> rc" where
  "cyw_sdio_enable_clock request reg = (case request of Some e \<Rightarrow> fail e | None \<Rightarrow> alp_poll reg 0 50)"

text \<open>Here a read that fails is only a read that did not show the bit.\<close>

fun f2_poll :: "(nat \<Rightarrow> u8 result) \<Rightarrow> nat \<Rightarrow> nat \<Rightarrow> rc" where
  "f2_poll reg i 0 = fail ETIMEDOUT"
| "f2_poll reg i (Suc n) =
     (case reg i of Inr iordy \<Rightarrow> if iordy AND push_bit 2 1 \<noteq> 0 then ok else f2_poll reg (i + 1) n
      | Inl e \<Rightarrow> f2_poll reg (i + 1) n)"

definition cyw_sdio_f2_ready :: "(nat \<Rightarrow> u8 result) \<Rightarrow> rc" where
  "cyw_sdio_f2_ready reg = f2_poll reg 0 500"

section \<open>The ARM core\<close>

definition CYW_SI_ENUM_BASE :: u32 where "CYW_SI_ENUM_BASE = 0x18000000"

definition CYW_ARM_CORE_BASE :: u32 where "CYW_ARM_CORE_BASE = 0x18002000"

definition CYW_ARM_WRAP_BASE :: u32 where "CYW_ARM_WRAP_BASE = 0x18102000"

definition CYW_D11_WRAP_BASE :: u32 where "CYW_D11_WRAP_BASE = 0x18101000"

definition CC_CHIPCTL_ADDR :: u32 where "CC_CHIPCTL_ADDR = 0x660"

definition CC_CHIPCTL_DATA :: u32 where "CC_CHIPCTL_DATA = 0x664"

definition SD_REG_INTSTATUS :: u32 where "SD_REG_INTSTATUS = 0x20"

definition BCMA_IOCTL :: u32 where "BCMA_IOCTL = 0x408"

definition BCMA_RESET_CTL :: u32 where "BCMA_RESET_CTL = 0x800"

definition BCMA_IOCTL_CLK :: u32 where "BCMA_IOCTL_CLK = 1"

definition BCMA_IOCTL_FGC :: u32 where "BCMA_IOCTL_FGC = 2"

definition BCMA_IOCTL_CPUHALT :: u32 where "BCMA_IOCTL_CPUHALT = 0x20"

definition BCMA_RESET_CTL_RESET :: u32 where "BCMA_RESET_CTL_RESET = 1"

definition BCMA_D11_IOCTL_PHYRESET :: u32 where "BCMA_D11_IOCTL_PHYRESET = 4"

definition BCMA_D11_IOCTL_PHYCLOCKEN :: u32 where "BCMA_D11_IOCTL_PHYCLOCKEN = 8"

text \<open>A sequence of backplane accesses, reads that only flush a write included.\<close>

datatype bp_op = BpWrite u32 u32 | BpRead u32

primrec bp_do :: "u32 \<Rightarrow> bp_op \<Rightarrow> sdio \<Rightarrow> sdio" where
  "bp_do bad (BpWrite a v) s = cyw_bp_write32 a v s"
| "bp_do bad (BpRead a) s = snd (cyw_bp_read32 bad a s)"

definition bp_ops :: "u32 \<Rightarrow> bp_op list \<Rightarrow> sdio \<Rightarrow> sdio" where
  "bp_ops bad os s = fold (bp_do bad) os s"

definition arm_halt_ops :: "bp_op list" where
  "arm_halt_ops =
     [BpWrite (CYW_D11_WRAP_BASE + BCMA_IOCTL) (BCMA_D11_IOCTL_PHYRESET OR BCMA_D11_IOCTL_PHYCLOCKEN OR BCMA_IOCTL_FGC),
      BpWrite (CYW_D11_WRAP_BASE + BCMA_RESET_CTL) BCMA_RESET_CTL_RESET,
      BpWrite (CYW_D11_WRAP_BASE + BCMA_RESET_CTL) 0,
      BpWrite (CYW_D11_WRAP_BASE + BCMA_IOCTL) BCMA_D11_IOCTL_PHYCLOCKEN,
      BpWrite (CYW_ARM_WRAP_BASE + BCMA_IOCTL) (BCMA_IOCTL_FGC OR BCMA_IOCTL_CLK OR BCMA_IOCTL_CPUHALT),
      BpRead (CYW_ARM_WRAP_BASE + BCMA_IOCTL),
      BpWrite (CYW_ARM_WRAP_BASE + BCMA_RESET_CTL) 0,
      BpWrite (CYW_ARM_WRAP_BASE + BCMA_IOCTL) (BCMA_IOCTL_CLK OR BCMA_IOCTL_CPUHALT)]"

definition cyw_arm_halt :: "u32 \<Rightarrow> sdio \<Rightarrow> sdio" where
  "cyw_arm_halt bad s = bp_ops bad arm_halt_ops s"

definition arm_release_ops :: "u32 \<Rightarrow> u32 \<Rightarrow> bp_op list" where
  "arm_release_ops core_base rstvec =
     [BpWrite (CYW_SI_ENUM_BASE + CC_CHIPCTL_ADDR) 4, BpWrite (CYW_SI_ENUM_BASE + CC_CHIPCTL_DATA) 2]
     @ (if core_base \<noteq> 0 then [BpWrite (core_base + SD_REG_INTSTATUS) 0xFFFFFFFF] else [])
     @ (if rstvec \<noteq> 0 then [BpWrite 0 rstvec] else [])
     @ [BpWrite (CYW_ARM_WRAP_BASE + BCMA_IOCTL) (BCMA_IOCTL_FGC OR BCMA_IOCTL_CLK OR BCMA_IOCTL_CPUHALT),
        BpRead (CYW_ARM_WRAP_BASE + BCMA_IOCTL),
        BpWrite (CYW_ARM_WRAP_BASE + BCMA_RESET_CTL) BCMA_RESET_CTL_RESET,
        BpWrite (CYW_ARM_WRAP_BASE + BCMA_IOCTL) BCMA_IOCTL_CPUHALT,
        BpWrite (CYW_ARM_WRAP_BASE + BCMA_IOCTL) (BCMA_IOCTL_FGC OR BCMA_IOCTL_CLK),
        BpRead (CYW_ARM_WRAP_BASE + BCMA_IOCTL),
        BpWrite (CYW_ARM_WRAP_BASE + BCMA_RESET_CTL) 0,
        BpWrite (CYW_ARM_WRAP_BASE + BCMA_IOCTL) BCMA_IOCTL_CLK,
        BpRead (CYW_ARM_WRAP_BASE + BCMA_IOCTL),
        BpRead (CYW_ARM_WRAP_BASE + BCMA_IOCTL),
        BpRead (CYW_ARM_WRAP_BASE + BCMA_RESET_CTL)]"

definition cyw_arm_release :: "u32 \<Rightarrow> u32 \<Rightarrow> u32 \<Rightarrow> sdio \<Rightarrow> sdio" where
  "cyw_arm_release bad core_base rstvec s = bp_ops bad (arm_release_ops core_base rstvec) s"

text \<open>The size of the tightly coupled memory: corecap is the capability word and
  bankinfo i the information the core shows for bank i.\<close>

definition bank_size :: "u32 \<Rightarrow> u32" where
  "bank_size bxinfo =
     (let blksize = (if bxinfo AND 0x200 \<noteq> 0 then drop_bit 3 8192 else 8192)
      in ((bxinfo AND 0x7f) + 1) * blksize)"

definition cyw_cr4_ram_size :: "u32 \<Rightarrow> (nat \<Rightarrow> u32) \<Rightarrow> u32" where
  "cyw_cr4_ram_size corecap bankinfo =
     (let nab = corecap AND 0x00f; nbb = drop_bit 4 (corecap AND 0x0f0)
      in fold (\<lambda>idx memsize. memsize + bank_size (bankinfo idx)) [0..<unat (nab + nbb)] 0)"

section \<open>The enumeration ROM\<close>

definition BCMA_EROM_ENTRY_ISVALID :: u32 where "BCMA_EROM_ENTRY_ISVALID = 1"

definition BCMA_EROM_ENTRY_TYPE_MASK :: u32 where "BCMA_EROM_ENTRY_TYPE_MASK = 6"

definition BCMA_EROM_ENTRY_TYPE_MPORT :: u32 where "BCMA_EROM_ENTRY_TYPE_MPORT = 2"

definition BCMA_EROM_ENTRY_TYPE_REGION :: u32 where "BCMA_EROM_ENTRY_TYPE_REGION = 4"

definition BHND_COREID_SDIOD :: u32 where "BHND_COREID_SDIOD = 0x829"

lemmas erom_defs = BCMA_EROM_ENTRY_ISVALID_def BCMA_EROM_ENTRY_TYPE_MASK_def BCMA_EROM_ENTRY_TYPE_MPORT_def
  BCMA_EROM_ENTRY_TYPE_REGION_def BHND_COREID_SDIOD_def

definition erom_valid :: "u32 \<Rightarrow> bool" where
  "erom_valid e \<longleftrightarrow> e AND BCMA_EROM_ENTRY_ISVALID \<noteq> 0"

definition erom_type :: "u32 \<Rightarrow> u32" where
  "erom_type e = e AND BCMA_EROM_ENTRY_TYPE_MASK"

definition erom_mport :: "u32 \<Rightarrow> bool" where
  "erom_mport e \<longleftrightarrow> erom_valid e \<and> erom_type e = BCMA_EROM_ENTRY_TYPE_MPORT"

text \<open>Looking for the next master port descriptor has no bound in the code. The
  word at an address is rom of it; None is a walk that never ends.\<close>

partial_function (option) mport_next :: "(u32 \<Rightarrow> u32) \<Rightarrow> u32 \<Rightarrow> u32 option" where
  "mport_next rom addr = (if erom_mport (rom addr) then Some (addr + 4) else mport_next rom (addr + 4))"

fun mport_skip :: "(u32 \<Rightarrow> u32) \<Rightarrow> nat \<Rightarrow> u32 \<Rightarrow> u32 option" where
  "mport_skip rom 0 addr = Some addr"
| "mport_skip rom (Suc n) addr = (case mport_next rom addr of None \<Rightarrow> None | Some a \<Rightarrow> mport_skip rom n a)"

text \<open>The outer loop, with the number of entries still allowed and whether the last
  core was the SDIO core. Some 0 is "not found".\<close>

fun erom_loop :: "(u32 \<Rightarrow> u32) \<Rightarrow> nat \<Rightarrow> u32 \<Rightarrow> bool \<Rightarrow> u32 option" where
  "erom_loop rom 0 addr in_sdiod = Some 0"
| "erom_loop rom (Suc n) addr in_sdiod =
     (let entry = rom addr; addr = addr + 4 in
      if entry AND 0xf = 0xf then Some 0
      else if \<not> erom_valid entry then erom_loop rom n addr in_sdiod
      else if erom_type entry = 0 then
        (let corid = drop_bit 8 (entry AND 0x000fff00);
             coreb = rom addr;
             nmp = drop_bit 4 (coreb AND 0x1f0)
         in case mport_skip rom (unat nmp) (addr + 4) of
              None \<Rightarrow> None
            | Some a \<Rightarrow> erom_loop rom n a (corid = BHND_COREID_SDIOD))
      else if erom_type entry = BCMA_EROM_ENTRY_TYPE_REGION then
        (let rtype = drop_bit 6 (entry AND 0xc0);
             port = drop_bit 8 (entry AND 0xf00);
             rsz = drop_bit 4 (entry AND 0x30);
             base = entry AND 0xfffff000;
             addr = (if rsz = 3 then addr + 4 else addr)
         in if in_sdiod \<and> rtype = 0 \<and> port = 0 then Some base else erom_loop rom n addr in_sdiod)
      else erom_loop rom n addr in_sdiod)"

definition cyw_erom_find_sdio_core_base :: "(u32 \<Rightarrow> u32) \<Rightarrow> u32 option" where
  "cyw_erom_find_sdio_core_base rom =
     (let erom_base = rom (CYW_SI_ENUM_BASE + 0xfc) in
      if erom_base = 0 \<or> erom_base = 0xffffffff then Some 0
      else erom_loop rom 512 erom_base False)"

section \<open>When the walk over the ROM ends\<close>

text \<open>The first descriptor found is the first in address order, and one is found
  exactly when there is one.\<close>

lemma mport_next_found:
  "erom_mport (rom (addr + 4 * of_nat n)) \<Longrightarrow> \<exists>a. mport_next rom addr = Some a"
proof (induction n arbitrary: addr)
  case 0
  then show ?case by (subst mport_next.simps) simp
next
  case (Suc n)
  have "addr + 4 * of_nat (Suc n) = (addr + 4) + 4 * of_nat n" by (simp add: algebra_simps)
  then have "\<exists>a. mport_next rom (addr + 4) = Some a" using Suc by metis
  then show ?case by (subst mport_next.simps) simp
qed

lemma mport_next_only:
  assumes "mport_next rom addr = Some a"
  shows "\<exists>n. erom_mport (rom (addr + 4 * of_nat n)) \<and> a = addr + 4 * of_nat (Suc n)
    \<and> (\<forall>k<n. \<not> erom_mport (rom (addr + 4 * of_nat k)))"
proof (rule mport_next.raw_induct [where P = "\<lambda>rom addr a. \<exists>n. erom_mport (rom (addr + 4 * of_nat n))
      \<and> a = addr + 4 * of_nat (Suc n) \<and> (\<forall>k<n. \<not> erom_mport (rom (addr + 4 * of_nat k)))", OF _ assms])
  fix f :: "(u32 \<Rightarrow> u32) \<Rightarrow> u32 \<Rightarrow> u32 option" and rom addr a
  assume IH: "\<And>rom addr a. f rom addr = Some a \<Longrightarrow> \<exists>n. erom_mport (rom (addr + 4 * of_nat n))
      \<and> a = addr + 4 * of_nat (Suc n) \<and> (\<forall>k<n. \<not> erom_mport (rom (addr + 4 * of_nat k)))"
    and eq: "(if erom_mport (rom addr) then Some (addr + 4) else f rom (addr + 4)) = Some a"
  show "\<exists>n. erom_mport (rom (addr + 4 * of_nat n)) \<and> a = addr + 4 * of_nat (Suc n)
      \<and> (\<forall>k<n. \<not> erom_mport (rom (addr + 4 * of_nat k)))"
  proof (cases "erom_mport (rom addr)")
    case True
    then show ?thesis using eq by (intro exI[of _ 0]) simp
  next
    case False
    then have "f rom (addr + 4) = Some a" using eq by simp
    from IH[OF this] obtain n where n: "erom_mport (rom (addr + 4 + 4 * of_nat n))"
      "a = addr + 4 + 4 * of_nat (Suc n)" "\<forall>k<n. \<not> erom_mport (rom (addr + 4 + 4 * of_nat k))" by blast
    have sh: "addr + 4 + 4 * of_nat k = addr + 4 * of_nat (Suc k)" for k by (simp add: algebra_simps)
    have "\<forall>k<Suc n. \<not> erom_mport (rom (addr + 4 * of_nat k))"
    proof (intro allI impI)
      fix k assume "k < Suc n"
      then show "\<not> erom_mport (rom (addr + 4 * of_nat k))" using n(3) False sh by (cases k) auto
    qed
    then show ?thesis using n(1,2) sh by (intro exI[of _ "Suc n"]) (simp add: algebra_simps)
  qed
qed

lemma mport_next_ends:
  "(\<exists>a. mport_next rom addr = Some a) \<longleftrightarrow> (\<exists>k. erom_mport (rom (addr + 4 * of_nat k)))"
  using mport_next_found mport_next_only by metis

lemma mport_next_stuck: "(\<And>a. \<not> erom_mport (rom a)) \<Longrightarrow> mport_next rom a = None"
  using mport_next_only[of rom a] by (cases "mport_next rom a") auto

lemma mport_skip_stuck: "(\<And>a. \<not> erom_mport (rom a)) \<Longrightarrow> 0 < k \<Longrightarrow> mport_skip rom k addr = None"
  by (cases k) (simp_all add: mport_next_stuck)

definition erom_nmp :: "u32 \<Rightarrow> u32" where
  "erom_nmp coreb = drop_bit 4 (coreb AND 0x1f0)"

text \<open>The limit on the entries of the outer loop does not bound the walk. When the
  descriptor at the cursor is a core that announces master ports, and no word
  of the table is a master port descriptor (every word after the core reads all
  ones, say, as it does when the bus fails), the walk does not return, and with
  it the attach.\<close>

theorem erom_walk_may_spin:
  assumes "erom_valid (rom addr)" "rom addr AND 0xf \<noteq> 0xf" "erom_type (rom addr) = 0"
    and "erom_nmp (rom (addr + 4)) \<noteq> 0"
    and "\<And>a. \<not> erom_mport (rom a)"
  shows "erom_loop rom (Suc n) addr in_sdiod = None"
proof -
  have k: "0 < unat (erom_nmp (rom (addr + 4)))" using assms(4) by (simp add: unat_gt_0)
  show ?thesis
    unfolding erom_loop.simps Let_def erom_nmp_def[symmetric]
    using assms(1-3) by (simp add: mport_skip_stuck[OF assms(5) k])
qed

theorem erom_walk_may_spin_witness:
  "erom_loop (\<lambda>a. if a = 0x100 then 0x82901 else if a = 0x104 then 0x11 else 0xffffffff) 512 0x100 False = None"
proof -
  let ?rom = "\<lambda>a::u32. (if a = 0x100 then 0x82901 else if a = 0x104 then 0x11 else 0xffffffff :: u32)"
  have n: "\<not> erom_mport (?rom a)" for a
    by (simp add: erom_mport_def erom_valid_def erom_type_def erom_defs)
  have "erom_loop ?rom (Suc 511) 0x100 False = None"
    by (rule erom_walk_may_spin[where rom = ?rom, OF _ _ _ _ n])
      (simp_all add: erom_valid_def erom_type_def erom_defs erom_nmp_def)
  then show ?thesis by simp
qed

section \<open>Attach and detach\<close>

definition CYW_CHIP_ID_43455 :: u16 where "CYW_CHIP_ID_43455 = 0x4345"

definition CYW_RAM_BASE :: u32 where "CYW_RAM_BASE = 0x00198000"

definition KSO_EN :: u8 where "KSO_EN = 1"

text \<open>What the bus and the chip answer during an attach, and the fields of the softc
  and of the chip that attach and detach change; bp_trace is the backplane
  writes so far.\<close>

record sdio_env =
  blksize_rc :: rc
  enable_rc :: rc
  kso_read_err :: bool
  kso_write_err :: bool
  alp_request :: rc
  alp_reg :: "nat \<Rightarrow> u8 result"
  chipid_reg :: u32
  cc3 :: u32
  rom_words :: "u32 \<Rightarrow> u32"
  corecap :: u32
  bankinfo :: "nat \<Rightarrow> u32"
  f0_lo_rc :: rc
  f0_hi_rc :: rc

record sdio_softc =
  f1_enabled :: bool
  f2_enabled :: bool
  sleepcsr :: u8
  chip_id :: u16
  chip_rev :: u8
  sr_capable :: bool
  sdio_core_base :: u32
  ram_base :: u32
  ram_size :: u32
  sdio_attached :: bool
  alp_csr :: u8
  bp_trace :: "bp_op list"

definition kso_init :: "sdio_env \<Rightarrow> sdio_softc \<Rightarrow> sdio_softc" where
  "kso_init env s =
     (if \<not> kso_read_err env \<and> sleepcsr s AND KSO_EN = 0 \<and> \<not> kso_write_err env
      then s\<lparr>sleepcsr := sleepcsr s OR KSO_EN\<rparr> else s)"

text \<open>The scan of the banks of the memory, with the index writes it makes.\<close>

definition cr4_bank_writes :: "u32 \<Rightarrow> bp_op list" where
  "cr4_bank_writes cap =
     map (\<lambda>idx. BpWrite (CYW_ARM_CORE_BASE + 0x40) (of_nat idx))
       [0..<unat ((cap AND 0x00f) + drop_bit 4 (cap AND 0x0f0))]"

text \<open>None is an attach that never returns, in the walk over the enumeration ROM.\<close>

definition cyw_sdio_attach :: "sdio_env \<Rightarrow> sdio_softc \<Rightarrow> (rc \<times> sdio_softc) option" where
  "cyw_sdio_attach env s =
     (if blksize_rc env \<noteq> ok then Some (blksize_rc env, s)
      else if enable_rc env \<noteq> ok then Some (enable_rc env, s)
      else
        let s = kso_init env (s\<lparr>f1_enabled := True\<rparr>);
            r = cyw_sdio_enable_clock (alp_request env) (alp_reg env)
        in if r \<noteq> ok then Some (r, s)
        else
          let s = s\<lparr>chip_id := ucast (chipid_reg env AND 0xffff),
                    chip_rev := ucast (drop_bit 16 (chipid_reg env) AND 0xf)\<rparr>
          in if chip_id s \<noteq> CYW_CHIP_ID_43455 then Some (fail ENXIO, s)
          else
            let s = s\<lparr>bp_trace := bp_trace s @ [BpWrite (CYW_SI_ENUM_BASE + CC_CHIPCTL_ADDR) 3]\<rparr>;
                s = s\<lparr>sr_capable := cc3 env AND push_bit 2 1 \<noteq> 0\<rparr>
            in (case cyw_erom_find_sdio_core_base (rom_words env) of
                  None \<Rightarrow> None
                | Some base \<Rightarrow>
                    let s = s\<lparr>sdio_core_base := base, ram_base := CYW_RAM_BASE,
                              ram_size := cyw_cr4_ram_size (corecap env) (bankinfo env)\<rparr>;
                        s = s\<lparr>bp_trace := bp_trace s @ cr4_bank_writes (corecap env)\<rparr>
                    in if f0_lo_rc env \<noteq> ok then Some (f0_lo_rc env, s)
                    else if f0_hi_rc env \<noteq> ok then Some (f0_hi_rc env, s)
                    else Some (ok, s\<lparr>bp_trace := bp_trace s @ arm_halt_ops, sdio_attached := True\<rparr>)))"

definition cyw_sdio_detach :: "sdio_softc \<Rightarrow> sdio_softc" where
  "cyw_sdio_detach s =
     (if \<not> sdio_attached s then s
      else s\<lparr>bp_trace := bp_trace s @ arm_halt_ops, alp_csr := 0, f2_enabled := False, f1_enabled := False,
             sdio_attached := False\<rparr>)"

lemma kso_init_fields [simp]:
  "sdio_attached (kso_init env s) = sdio_attached s" "f1_enabled (kso_init env s) = f1_enabled s"
  "bp_trace (kso_init env s) = bp_trace s"
  by (simp_all add: kso_init_def)

text \<open>A failed attach has not set the attached flag; from the enable of function 1
  on, it leaves the function enabled.\<close>

lemma sdio_attach_failed:
  assumes "cyw_sdio_attach env s = Some (fail e, s')" "\<not> sdio_attached s"
  shows "\<not> sdio_attached s'" "cyw_sdio_detach s' = s'"
    "blksize_rc env = ok \<Longrightarrow> enable_rc env = ok \<Longrightarrow> f1_enabled s'"
  using assms
  by (auto simp: cyw_sdio_attach_def cyw_sdio_detach_def Let_def split: if_splits option.splits)

lemma sdio_attach_ok:
  assumes "cyw_sdio_attach env s = Some (ok, s')"
  shows "sdio_attached s' \<and> f1_enabled s' \<and> chip_id s' = CYW_CHIP_ID_43455 \<and> ram_base s' = CYW_RAM_BASE
    \<and> ram_size s' = cyw_cr4_ram_size (corecap env) (bankinfo env)
    \<and> cyw_erom_find_sdio_core_base (rom_words env) = Some (sdio_core_base s')"
  using assms
  by (auto simp: cyw_sdio_attach_def Let_def split: if_splits option.splits)

end
