(* ===== verification/CywSdpcm.thy ===== *)
theory CywSdpcm
  imports CywSdio
begin

text \<open>
  The SDPCM layer of the CYW43455 driver (src/cyw43455_sdpcm.c and the receive half
  of src/cyw43455_fwil.c): one frame read out of the packet FIFO with its checks
  and its recovery, control responses matched to the transaction that waits,
  data frames cut out of their headers, and the drain task. What the device has
  queued is a byte stream; which reads fail and what the interrupt status
  answers are scripts in the state.
\<close>

section \<open>The packet FIFO\<close>

definition CYW_SDPCM_HDR_LEN :: nat where "CYW_SDPCM_HDR_LEN = 12"

definition CYW_SDPCM_MAX_FRAME :: nat where "CYW_SDPCM_MAX_FRAME = 2048"

definition CYW_SDPCM_BUF_SIZE :: nat where "CYW_SDPCM_BUF_SIZE = CYW_SDPCM_MAX_FRAME + CYW_F2_BLKSIZE"

definition CYW_F2_MAX_BYTE_XFER :: nat where "CYW_F2_MAX_BYTE_XFER = 448"

definition I_HMB_SW_MASK :: u32 where "I_HMB_SW_MASK = 0xf0"

definition I_XMTDATA_AVAIL :: u32 where "I_XMTDATA_AVAIL = push_bit 23 1"

lemmas sdpcm_consts = CYW_SDPCM_HDR_LEN_def CYW_SDPCM_MAX_FRAME_def CYW_SDPCM_BUF_SIZE_def CYW_F2_MAX_BYTE_XFER_def
  CYW_F2_BLKSIZE_def

text \<open>The stream holds what the device has queued (a FIFO read beyond it gives
  zeros); read_fails the outcomes of the reads to come, an empty list being a
  bus without faults; int_reads what the interrupt status answers, 0 when the
  list is empty; int_acks the bits written back; the rest are fields of the
  softc.\<close>

record sdpcm =
  stream :: bytes
  read_fails :: "errno option list"
  core_known :: bool
  int_reads :: "u32 list"
  int_acks :: "u32 list"
  sdpcm_rx_max :: u8
  sdpcm_tx_seq :: u8
  rx_ok_count :: u64
  rx_eio_count :: u64
  rx_eagain_count :: u64

definition f2_read :: "nat \<Rightarrow> sdpcm \<Rightarrow> bytes result \<times> sdpcm" where
  "f2_read n s =
     (let (f, s) = (case read_fails s of [] \<Rightarrow> (ok, s) | f # fs \<Rightarrow> (f, s\<lparr>read_fails := fs\<rparr>))
      in case f of
           Some e \<Rightarrow> (Inl e, s)
         | None \<Rightarrow> (Inr (take n (stream s @ replicate n 0)), s\<lparr>stream := drop n (stream s)\<rparr>))"

definition write_at :: "nat \<Rightarrow> bytes \<Rightarrow> bytes \<Rightarrow> bytes" where
  "write_at pos bs buf = take pos buf @ bs @ drop (pos + length bs) buf"

section \<open>Reading one frame\<close>

definition intr_any :: "u32 \<Rightarrow> bool" where
  "intr_any intstatus \<longleftrightarrow> intstatus AND (I_HMB_SW_MASK OR I_XMTDATA_AVAIL) \<noteq> 0"

definition intr_gate :: "sdpcm \<Rightarrow> bool \<times> sdpcm" where
  "intr_gate s =
     (if \<not> core_known s then (True, s)
      else
        let intstatus = (case int_reads s of [] \<Rightarrow> 0 | v # vs \<Rightarrow> v); s = s\<lparr>int_reads := tl (int_reads s)\<rparr> in
        if \<not> intr_any intstatus then (False, s)
        else if intstatus AND I_HMB_SW_MASK \<noteq> 0
             then (True, s\<lparr>int_acks := int_acks s @ [intstatus AND I_HMB_SW_MASK]\<rparr>)
             else (True, s))"

text \<open>After a failed read the driver counts it and flushes the frame; flush is what
  the device then still has queued.\<close>

definition f2_failed :: "(bytes \<Rightarrow> bytes) \<Rightarrow> sdpcm \<Rightarrow> sdpcm" where
  "f2_failed flush s = s\<lparr>rx_eio_count := rx_eio_count s + 1, stream := flush (stream s)\<rparr>"

definition f2_chunk :: "nat \<Rightarrow> nat" where
  "f2_chunk remaining = (if CYW_F2_MAX_BYTE_XFER < remaining then CYW_F2_MAX_BYTE_XFER else remaining)"

function read_tail :: "(bytes \<Rightarrow> bytes) \<Rightarrow> nat \<Rightarrow> nat \<Rightarrow> bytes \<Rightarrow> sdpcm \<Rightarrow> rc \<times> bytes \<times> sdpcm" where
  "read_tail flush dst remaining buf s =
     (if remaining = 0 then (ok, buf, s)
      else let chunk = f2_chunk remaining; (r, s) = f2_read chunk s
           in case r of
                Inl e \<Rightarrow> (fail e, buf, f2_failed flush s)
              | Inr bs \<Rightarrow> read_tail flush (dst + chunk) (remaining - chunk) (write_at dst bs buf) s)"
  by pat_completeness auto
termination
  by (relation "measure (\<lambda>(_, _, remaining, _, _). remaining)")
    (auto simp: f2_chunk_def CYW_F2_MAX_BYTE_XFER_def)

declare read_tail.simps [simp del]

definition tail_len :: "nat \<Rightarrow> nat" where
  "tail_len flen = roundup (flen - CYW_F2_BLKSIZE) CYW_F2_BLKSIZE"

definition eagain :: "sdpcm \<Rightarrow> sdpcm" where
  "eagain s = s\<lparr>rx_eagain_count := rx_eagain_count s + 1\<rparr>"

text \<open>buf is the receive buffer, whose old contents remain where nothing is read.\<close>

definition cyw_sdpcm_recv_one :: "(bytes \<Rightarrow> bytes) \<Rightarrow> bytes \<Rightarrow> sdpcm \<Rightarrow> u16 result \<times> bytes \<times> sdpcm" where
  "cyw_sdpcm_recv_one flush buf s =
     (let (go, s) = intr_gate s in
      if \<not> go then (Inl EAGAIN, buf, s)
      else let (r, s) = f2_read CYW_F2_BLKSIZE s in
      case r of
        Inl e \<Rightarrow> (Inl e, buf, f2_failed flush s)
      | Inr bs \<Rightarrow>
          let buf = write_at 0 bs buf; flen = rd_le16 buf 0; len_inv = rd_le16 buf 2
          in if flen = 0 \<and> len_inv = 0 then (Inl EAGAIN, buf, s)
          else if NOT (flen XOR len_inv) \<noteq> 0 then (Inl EAGAIN, buf, eagain s)
          else if flen = 0xFFFF \<or> unat flen < CYW_SDPCM_HDR_LEN then (Inl EAGAIN, buf, eagain s)
          else if CYW_SDPCM_MAX_FRAME < unat flen then (Inl EINVAL, buf, s)
          else let (r, buf, s) = (if CYW_F2_BLKSIZE < unat flen
                                  then read_tail flush CYW_F2_BLKSIZE (tail_len (unat flen)) buf s
                                  else (ok, buf, s))
          in case r of
               Some e \<Rightarrow> (Inl e, buf, s)
             | None \<Rightarrow> (Inr flen, buf, s\<lparr>sdpcm_rx_max := buf ! 9, rx_ok_count := rx_ok_count s + 1\<rparr>))"

section \<open>The recovery from a failed read\<close>

text \<open>The poll until the byte count of the frame is zero; rbc i is what read i of it
  answers, tries the attempts left. A count that changes restores the attempts;
  None is a poll that never ends, Some True a drained FIFO and Some False a
  timeout.\<close>

partial_function (option) rbc_poll :: "(nat \<Rightarrow> u16) \<Rightarrow> nat \<Rightarrow> nat \<Rightarrow> u16 \<Rightarrow> bool option" where
  "rbc_poll rbc i tries lastrbc =
     (if tries = 0 then Some False
      else if rbc i = 0 then Some True
      else if rbc i \<noteq> lastrbc then rbc_poll rbc (i + 1) (0xffff - 1) (rbc i)
      else rbc_poll rbc (i + 1) (tries - 1) lastrbc)"

definition cyw_rxfail :: "(nat \<Rightarrow> u16) \<Rightarrow> bool option" where
  "cyw_rxfail rbc = rbc_poll rbc 0 0xffff 0xffff"

text \<open>A poll whose count is zero at some read, or stays the same from some read on,
  ends.\<close>

lemma rbc_poll_constant:
  assumes "\<forall>j\<ge>i. rbc j = c"
  shows "\<exists>b. rbc_poll rbc i tries lst = Some b"
proof -
  have same: "\<exists>b. rbc_poll rbc i tries c = Some b" if "\<forall>j\<ge>i. rbc j = c" for i tries
    using that
  proof (induction tries arbitrary: i)
    case (Suc n)
    then show ?case by (subst rbc_poll.simps) auto
  qed (auto simp: rbc_poll.simps)
  show ?thesis
  proof (cases "tries = 0 \<or> c = 0 \<or> lst = c")
    case True
    then show ?thesis
    proof (cases "lst = c")
      case True
      then show ?thesis using assms same by blast
    next
      case False
      then have "tries = 0 \<or> rbc i = 0" using True assms by auto
      then show ?thesis by (subst rbc_poll.simps) auto
    qed
  next
    case False
    then show ?thesis using assms same[of "i + 1" "0xffff - 1"] by (subst rbc_poll.simps) auto
  qed
qed

lemma rbc_poll_ends:
  assumes "i \<le> n" "rbc n = 0 \<or> (\<forall>j\<ge>n. rbc j = rbc n)"
  shows "\<exists>b. rbc_poll rbc i tries lst = Some b"
  using assms
proof (induction "n - i" arbitrary: i tries lst)
  case 0
  then have "i = n" by simp
  then show ?case
  proof (cases "rbc n = 0")
    case True
    then show ?thesis using \<open>i = n\<close> by (subst rbc_poll.simps) auto
  next
    case False
    then show ?thesis using 0(3) \<open>i = n\<close> rbc_poll_constant by blast
  qed
next
  case (Suc m)
  then have "m = n - (i + 1)" "i + 1 \<le> n" by simp_all
  note IH = Suc.hyps(1)[OF this(1,2) Suc.prems(2)]
  show ?case by (subst rbc_poll.simps) (use IH in auto)
qed

lemma unat_eq_iff: "unat (v :: u16) = unat w \<longleftrightarrow> v = w"
  by (simp add: word_unat_eq_iff)

lemma descending_settles:
  assumes "\<And>i. f (Suc i) \<le> (f i :: nat)"
  shows "\<exists>n. \<forall>j\<ge>n. f j = f n"
proof -
  define v where "v = (LEAST x. x \<in> range f)"
  have "v \<in> range f" unfolding v_def by (rule LeastI[of _ "f 0"]) simp
  then obtain n where n: "f n = v" by auto
  have "f j \<le> f n" if "n \<le> j" for j using lift_Suc_antimono_le[of f, OF assms that] .
  moreover have "v \<le> f j" for j unfolding v_def by (rule Least_le) simp
  ultimately show ?thesis using n by (metis le_antisym)
qed

text \<open>A FIFO that only drains: when the byte count the device reports never grows,
  the recovery returns.\<close>

theorem rxfail_returns:
  assumes "\<And>i. rbc (Suc i) \<le> rbc i"
  shows "\<exists>drained. cyw_rxfail rbc = Some drained"
proof -
  have "unat (rbc (Suc i)) \<le> unat (rbc i)" for i using assms by (simp add: word_le_nat_alt)
  from descending_settles[of "\<lambda>i. unat (rbc i)", OF this] obtain n
    where "\<forall>j\<ge>n. unat (rbc j) = unat (rbc n)" by auto
  then have "\<forall>j\<ge>n. rbc j = rbc n" using unat_eq_iff by blast
  then show ?thesis unfolding cyw_rxfail_def using rbc_poll_ends[of 0 n rbc] by blast
qed

theorem rxfail_returns_witness: "\<exists>drained. cyw_rxfail (\<lambda>i. if i = 0 then 90 else 0) = Some drained"
  by (rule rxfail_returns) simp

text \<open>But a count that keeps changing restores the attempts for ever.\<close>

lemma rbc_poll_result:
  assumes "rbc_poll rbc i tries lst = Some b"
  shows "tries = 0 \<or> rbc i = 0 \<or> (tries = 1 \<and> rbc i = lst) \<or> (\<exists>j\<ge>i. rbc j = 0 \<or> rbc (Suc j) = rbc j)"
proof (rule rbc_poll.raw_induct [where P = "\<lambda>rbc i tries lst b. tries = 0 \<or> rbc i = 0 \<or> (tries = 1 \<and> rbc i = lst)
      \<or> (\<exists>j\<ge>i. rbc j = 0 \<or> rbc (Suc j) = rbc j)", OF _ assms])
  fix f :: "(nat \<Rightarrow> u16) \<Rightarrow> nat \<Rightarrow> nat \<Rightarrow> u16 \<Rightarrow> bool option" and rbc i tries lst b
  let ?Q = "\<lambda>rbc i tries lst. tries = (0 :: nat) \<or> rbc i = (0 :: u16) \<or> (tries = 1 \<and> rbc i = lst)
      \<or> (\<exists>j\<ge>i. rbc j = 0 \<or> rbc (Suc j) = rbc j)"
  assume IH: "\<And>rbc i tries lst b. f rbc i tries lst = Some b \<Longrightarrow> ?Q rbc i tries lst"
    and eq: "(if tries = 0 then Some False else if rbc i = 0 then Some True
      else if rbc i \<noteq> lst then f rbc (i + 1) (0xffff - 1) (rbc i) else f rbc (i + 1) (tries - 1) lst) = Some b"
  show "?Q rbc i tries lst"
  proof (cases "tries = 0 \<or> rbc i = 0")
    case False
    show ?thesis
    proof (cases "rbc i = lst")
      case True
      then have "f rbc (i + 1) (tries - 1) lst = Some b" using eq False by simp
      from IH[OF this] consider "tries - 1 = 0" | "rbc (i + 1) = 0" | "rbc (Suc i) = rbc i"
        | j where "i + 1 \<le> j" "rbc j = 0 \<or> rbc (Suc j) = rbc j" using True by auto
      then show ?thesis
      proof cases
        case 1
        then show ?thesis using False True by simp
      next
        case 4
        then have "i \<le> j" by simp
        then show ?thesis using 4(2) by blast
      qed (use le_add1 in \<open>blast+\<close>)
    next
      case False
      then have "f rbc (i + 1) (0xffff - 1) (rbc i) = Some b" using eq \<open>\<not> (tries = 0 \<or> rbc i = 0)\<close> by simp
      from IH[OF this] have "rbc (i + 1) = 0 \<or> (\<exists>j\<ge>i + 1. rbc j = 0 \<or> rbc (Suc j) = rbc j)" by auto
      then show ?thesis by (meson le_add1 order_trans)
    qed
  qed auto
qed

lemma rxfail_spins:
  assumes "\<And>i. rbc i \<noteq> 0 \<and> rbc (Suc i) \<noteq> rbc i"
  shows "cyw_rxfail rbc = None"
  using rbc_poll_result[of rbc 0 "0xffff" "0xffff"] assms
  by (cases "cyw_rxfail rbc") (auto simp: cyw_rxfail_def)

section \<open>What one read leaves in the buffer\<close>

lemma length_write_at [simp]: "pos + length bs \<le> length buf \<Longrightarrow> length (write_at pos bs buf) = length buf"
  by (simp add: write_at_def)

lemma write_at_twice:
  "pos + length xs + length ys \<le> length buf \<Longrightarrow>
   write_at (pos + length xs) ys (write_at pos xs buf) = write_at pos (xs @ ys) buf"
  by (simp add: write_at_def ac_simps)

lemma take_write_at: "pos + length bs \<le> length buf \<Longrightarrow> take (pos + length bs) (write_at pos bs buf) = take pos buf @ bs"
  by (simp add: write_at_def)

lemma f2_read_length: "f2_read n s = (Inr bs, s') \<Longrightarrow> length bs = n"
  by (auto simp: f2_read_def Let_def split: list.splits option.splits)

lemma f2_chunk_bounds: "f2_chunk n \<le> n" "f2_chunk n \<le> CYW_F2_MAX_BYTE_XFER"
  by (simp_all add: f2_chunk_def)

lemma read_tail_length:
  assumes "dst + remaining \<le> length buf" "read_tail flush dst remaining buf s = (r, buf', s')"
  shows "length buf' = length buf"
  using assms
proof (induction flush dst remaining buf s arbitrary: r buf' s' rule: read_tail.induct)
  case (1 flush dst remaining buf s)
  show ?case
  proof (cases "remaining = 0")
    case True
    then show ?thesis using 1(3) by (simp add: read_tail.simps)
  next
    case False
    obtain r1 s1 where r1: "f2_read (f2_chunk remaining) s = (r1, s1)" by (cases "f2_read (f2_chunk remaining) s")
    show ?thesis
    proof (cases r1)
      case (Inl e)
      then show ?thesis using 1(3) False r1 by (simp add: read_tail.simps)
    next
      case (Inr bs)
      then have l: "length bs = f2_chunk remaining" using f2_read_length r1 by simp
      have le: "f2_chunk remaining \<le> remaining" by (rule f2_chunk_bounds)
      have run: "read_tail flush (dst + f2_chunk remaining) (remaining - f2_chunk remaining) (write_at dst bs buf) s1
          = (r, buf', s')"
        using 1(3) False r1 Inr by (subst (asm) read_tail.simps) (simp add: Let_def)
      have "length buf' = length (write_at dst bs buf)"
        by (rule 1(1)[OF False refl r1[symmetric] refl Inr _ run]) (use le l 1(2) in simp)
      then show ?thesis using le l 1(2) by simp
    qed
  qed
qed

lemma read_tail_ok:
  assumes "read_fails s = []" "remaining \<le> length (stream s)" "dst + remaining \<le> length buf"
  shows "read_tail flush dst remaining buf s
    = (ok, write_at dst (take remaining (stream s)) buf, s\<lparr>stream := drop remaining (stream s)\<rparr>)"
  using assms
proof (induction flush dst remaining buf s rule: read_tail.induct)
  case (1 flush dst remaining buf s)
  show ?case
  proof (cases "remaining = 0")
    case True
    then show ?thesis by (simp add: read_tail.simps write_at_def)
  next
    case False
    define c where "c = f2_chunk remaining"
    have c: "c \<le> remaining" by (simp add: c_def f2_chunk_bounds)
    have r: "f2_read c s = (Inr (take c (stream s)), s\<lparr>stream := drop c (stream s)\<rparr>)"
      using 1(2,3) c by (simp add: f2_read_def)
    let ?s1 = "s\<lparr>stream := drop c (stream s)\<rparr>" and ?b1 = "write_at dst (take c (stream s)) buf"
    have "read_tail flush (dst + c) (remaining - c) ?b1 ?s1 = (ok, write_at (dst + c) (take (remaining - c) (stream ?s1)) ?b1,
        ?s1\<lparr>stream := drop (remaining - c) (stream ?s1)\<rparr>)"
      unfolding c_def
      by (rule 1(1)[OF False refl r[unfolded c_def, symmetric] refl]) (use 1(2-4) c in \<open>simp_all add: c_def\<close>)
    moreover have "write_at (dst + c) (take (remaining - c) (drop c (stream s))) ?b1 = write_at dst (take remaining (stream s)) buf"
    proof -
      have l: "length (take c (stream s)) = c" using c 1(3) by simp
      have "take c (stream s) @ take (remaining - c) (drop c (stream s)) = take remaining (stream s)"
        using c by (metis le_add_diff_inverse take_add)
      then show ?thesis using write_at_twice[of dst "take c (stream s)" "take (remaining - c) (drop c (stream s))" buf] c l 1(3,4)
        by simp
    qed
    ultimately show ?thesis using False r c
      by (subst read_tail.simps) (simp add: c_def[symmetric])
  qed
qed

lemma tail_fits:
  assumes "flen \<le> CYW_SDPCM_MAX_FRAME"
  shows "CYW_F2_BLKSIZE + tail_len flen \<le> CYW_SDPCM_BUF_SIZE"
proof -
  have "(flen - 64 + 64 - 1) div 64 \<le> (2048 :: nat) div 64"
    using assms by (intro div_le_mono) (simp add: sdpcm_consts)
  then show ?thesis using assms by (simp add: tail_len_def roundup_def sdpcm_consts)
qed

lemma recv_one_cases:
  assumes "cyw_sdpcm_recv_one flush buf s = (r, buf', s')" "length buf = CYW_SDPCM_BUF_SIZE"
  shows "length buf' = CYW_SDPCM_BUF_SIZE" "r = Inr flen \<Longrightarrow> CYW_SDPCM_HDR_LEN \<le> unat flen \<and> unat flen \<le> CYW_SDPCM_MAX_FRAME"
proof -
  obtain go s1 where g: "intr_gate s = (go, s1)" by (cases "intr_gate s")
  obtain rh s2 where h: "f2_read CYW_F2_BLKSIZE s1 = (rh, s2)" by (cases "f2_read CYW_F2_BLKSIZE s1")
  have "length buf' = CYW_SDPCM_BUF_SIZE \<and> (r = Inr flen \<longrightarrow> CYW_SDPCM_HDR_LEN \<le> unat flen \<and> unat flen \<le> CYW_SDPCM_MAX_FRAME)"
  proof (cases "go \<and> (\<exists>bs. rh = Inr bs)")
    case False
    then show ?thesis using assms g h
      by (cases rh) (auto simp: cyw_sdpcm_recv_one_def split: if_splits)
  next
    case True
    then obtain bs where rh: "rh = Inr bs" and go by auto
    define b1 where "b1 = write_at 0 bs buf"
    define fl where "fl = rd_le16 b1 0"
    have l1: "length b1 = CYW_SDPCM_BUF_SIZE"
      using f2_read_length[of CYW_F2_BLKSIZE s1 bs s2] h rh assms(2) by (simp add: b1_def sdpcm_consts)
    show ?thesis
    proof (cases "CYW_SDPCM_HDR_LEN \<le> unat fl \<and> unat fl \<le> CYW_SDPCM_MAX_FRAME")
      case False
      then show ?thesis using assms(1) g h rh \<open>go\<close> l1
        by (auto simp: cyw_sdpcm_recv_one_def b1_def[symmetric] fl_def[symmetric] Let_def split: if_splits)
    next
      case True
      obtain rt b2 s3 where t: "read_tail flush CYW_F2_BLKSIZE (tail_len (unat fl)) b1 s2 = (rt, b2, s3)"
        by (cases "read_tail flush CYW_F2_BLKSIZE (tail_len (unat fl)) b1 s2")
      have "length b2 = CYW_SDPCM_BUF_SIZE"
        using read_tail_length[OF _ t] tail_fits[of "unat fl"] True l1 by simp
      then show ?thesis using assms(1) g h rh \<open>go\<close> l1 t True
        by (auto simp: cyw_sdpcm_recv_one_def b1_def[symmetric] fl_def[symmetric] Let_def split: if_splits option.splits)
    qed
  qed
  then show "length buf' = CYW_SDPCM_BUF_SIZE"
    "r = Inr flen \<Longrightarrow> CYW_SDPCM_HDR_LEN \<le> unat flen \<and> unat flen \<le> CYW_SDPCM_MAX_FRAME" by simp_all
qed

section \<open>A frame received whole\<close>

text \<open>A frame as the device sends it, and the bytes it takes in the FIFO.\<close>

definition wf_frame :: "bytes \<Rightarrow> bool" where
  "wf_frame fr \<longleftrightarrow> CYW_SDPCM_HDR_LEN \<le> length fr \<and> length fr \<le> CYW_SDPCM_MAX_FRAME
     \<and> rd_le16 fr 0 = of_nat (length fr) \<and> rd_le16 fr 2 = NOT (of_nat (length fr))"

definition padded :: "bytes \<Rightarrow> bytes \<Rightarrow> bool" where
  "padded fr pad \<longleftrightarrow> length fr + length pad = roundup (length fr) CYW_F2_BLKSIZE"

lemma gate_keeps:
  assumes "intr_gate s = (go, s1)"
  shows "stream s1 = stream s \<and> read_fails s1 = read_fails s \<and> rx_ok_count s1 = rx_ok_count s"
  using assms by (auto simp: intr_gate_def Let_def split: if_splits)

lemma padded_tail:
  assumes "wf_frame fr" "padded fr pad"
  shows "length (fr @ pad) = CYW_F2_BLKSIZE + (if CYW_F2_BLKSIZE < length fr then tail_len (length fr) else 0)"
proof (cases "CYW_F2_BLKSIZE < length fr")
  case True
  define k where "k = length fr - 65"
  have k: "length fr = 64 + Suc k" using True by (simp add: k_def sdpcm_consts)
  have "(64 + Suc k + 64 - 1 :: nat) = (Suc k + 64 - 1) + 64" by simp
  then have "(64 + Suc k + 64 - 1) div 64 = (Suc k + 64 - 1) div (64 :: nat) + 1" by simp
  then show ?thesis using True assms(2) k by (simp add: padded_def roundup_def tail_len_def sdpcm_consts)
next
  case False
  then have "(length fr + 64 - 1) div 64 = 1"
    using assms(1) by (intro div_nat_eqI) (simp_all add: wf_frame_def sdpcm_consts)
  then show ?thesis using False assms(2) by (simp add: padded_def roundup_def sdpcm_consts)
qed

lemma rd_le16_take: "i + 1 < n \<Longrightarrow> i + 1 < length xs \<Longrightarrow> take n xs = take n ys \<Longrightarrow> n \<le> length ys \<Longrightarrow> rd_le16 xs i = rd_le16 ys i"
  by (metis Suc_eq_plus1 Suc_lessD nth_take rd_le16_def)

lemma recv_one_frame:
  assumes "intr_gate s = (True, s1)" "read_fails s = []" "length buf = CYW_SDPCM_BUF_SIZE"
    and "wf_frame fr" "padded fr pad" "stream s = fr @ pad @ rest"
  shows "\<exists>buf'. cyw_sdpcm_recv_one flush buf s = (Inr (of_nat (length fr)), buf',
      s1\<lparr>stream := rest, sdpcm_rx_max := fr ! 9, rx_ok_count := rx_ok_count s1 + 1\<rparr>)
    \<and> take (length fr) buf' = fr \<and> length buf' = CYW_SDPCM_BUF_SIZE"
proof -
  let ?n = "length fr"
  define w where "w = fr @ pad"
  have wf: "12 \<le> ?n" "?n \<le> 2048" "rd_le16 fr 0 = of_nat ?n" "rd_le16 fr 2 = NOT (of_nat ?n)"
    using assms(4) by (simp_all add: wf_frame_def sdpcm_consts)
  have s1: "stream s1 = w @ rest" "read_fails s1 = []" using gate_keeps[OF assms(1)] assms(2,6) by (simp_all add: w_def)
  have wl: "length w = 64 + (if 64 < ?n then tail_len ?n else 0)"
    using padded_tail[OF assms(4,5)] unfolding w_def by (simp only: CYW_F2_BLKSIZE_def)
  define s2 where "s2 = s1\<lparr>stream := drop 64 (stream s1)\<rparr>"
  have l64: "64 \<le> length w" using wl by simp
  have h: "f2_read CYW_F2_BLKSIZE s1 = (Inr (take 64 w), s2)"
    using s1 l64 by (simp add: f2_read_def CYW_F2_BLKSIZE_def s2_def)
  define b1 where "b1 = write_at 0 (take 64 w) buf"
  have lb: "length buf = 2112" using assms(3) by (simp add: sdpcm_consts)
  have b1: "take 64 b1 = take 64 w" "length b1 = 2112"
    using l64 lb by (simp_all add: b1_def write_at_def)
  have hdr: "rd_le16 b1 i = rd_le16 fr i" if "i + 1 < 12" for i
  proof -
    have "rd_le16 b1 i = rd_le16 w i"
      by (rule rd_le16_take[where n = 64]) (use that b1 l64 in simp_all)
    also have "\<dots> = rd_le16 fr i" using that wf(1) by (simp add: rd_le16_earlier w_def)
    finally show ?thesis .
  qed
  have fl: "rd_le16 b1 0 = of_nat ?n" "rd_le16 b1 2 = NOT (of_nat ?n)" using hdr wf(3,4) by simp_all
  have un: "unat (of_nat ?n :: u16) = ?n" using wf(2) by (simp add: unat_of_nat take_bit_nat_eq_self)
  have nz: "(of_nat ?n :: u16) \<noteq> 0" "(of_nat ?n :: u16) \<noteq> 0xFFFF" using un wf(1,2) by (metis unat_0 not_numeral_le_zero, fastforce)
  have inv: "NOT ((of_nat ?n :: u16) XOR NOT (of_nat ?n)) = 0" by (rule bit_word_eqI) (auto simp: bit_simps)
  define b2 where "b2 = (if 64 < ?n then write_at 64 (take (tail_len ?n) (drop 64 w)) b1 else b1)"
  define s3 where "s3 = s1\<lparr>stream := rest\<rparr>"
  have tail: "(if CYW_F2_BLKSIZE < ?n then read_tail flush CYW_F2_BLKSIZE (tail_len ?n) b1 s2 else (ok, b1, s2)) = (ok, b2, s3)"
  proof (cases "64 < ?n")
    case True
    have st: "stream s2 = drop 64 w @ rest" using s1 l64 by (simp add: s2_def)
    have lt: "length (drop 64 w) = tail_len ?n" using wl True by (simp)
    have "64 + tail_len ?n \<le> length b1" using tail_fits[of ?n] wf(2) b1(2) by (simp add: sdpcm_consts)
    then have "read_tail flush 64 (tail_len ?n) b1 s2 = (ok, write_at 64 (take (tail_len ?n) (stream s2)) b1,
        s2\<lparr>stream := drop (tail_len ?n) (stream s2)\<rparr>)"
      using s1(2) lt st by (intro read_tail_ok) (simp_all add: s2_def)
    moreover have "drop (tail_len ?n) (stream s2) = rest" using st lt by simp
    moreover have "take (tail_len ?n) (stream s2) = take (tail_len ?n) (drop 64 w)" using st lt by simp
    ultimately have "read_tail flush 64 (tail_len ?n) b1 s2 = (ok, b2, s2\<lparr>stream := rest\<rparr>)"
      using True by (simp only: b2_def if_True)
    then show ?thesis using True by (simp add: CYW_F2_BLKSIZE_def s3_def s2_def)
  next
    case False
    then have "length w = 64" using wl by simp
    then have "drop 64 (w @ rest) = rest" by (metis append_eq_conv_conj)
    then show ?thesis using False s1(1) by (simp add: CYW_F2_BLKSIZE_def b2_def s3_def s2_def)
  qed
  have b2: "take (length w) b2 = w" "length b2 = 2112"
  proof -
    have t: "64 < ?n \<Longrightarrow> take (tail_len ?n) (drop 64 w) = drop 64 w" using wl by (simp)
    have l: "64 < ?n \<Longrightarrow> 64 + length (drop 64 w) \<le> length b1"
      using tail_fits[of ?n] wf(2) b1(2) wl by (simp add: sdpcm_consts)
    show "take (length w) b2 = w"
    proof (cases "64 < ?n")
      case True
      have "take (64 + length (drop 64 w)) b2 = take 64 b1 @ drop 64 w"
        using take_write_at[OF l[OF True]] True t by (simp add: b2_def)
      moreover have "64 + length (drop 64 w) = length w" using l64 by (simp)
      ultimately show ?thesis using b1(1) by (metis append_take_drop_id)
    next
      case False
      then have "length w = 64" using wl by simp
      then show ?thesis using False b1(1) by (simp add: b2_def)
    qed
    show "length b2 = 2112" using l t b1(2) by (simp add: b2_def)
  qed
  have frame: "take ?n b2 = fr"
  proof -
    have "take ?n b2 = take ?n (take (length w) b2)" by (simp add: w_def)
    then show ?thesis unfolding b2(1) by (simp add: w_def)
  qed
  have "take ?n b2 ! 9 = b2 ! 9" by (rule nth_take) (use wf(1) in simp)
  then have "b2 ! 9 = fr ! 9" by (simp only: frame)
  moreover have "cyw_sdpcm_recv_one flush buf s = (Inr (of_nat ?n), b2, s3\<lparr>sdpcm_rx_max := b2 ! 9, rx_ok_count := rx_ok_count s3 + 1\<rparr>)"
    using assms(1) h fl un nz inv wf tail[unfolded CYW_F2_BLKSIZE_def]
    by (cases "64 < ?n") (simp_all add: cyw_sdpcm_recv_one_def b1_def[symmetric] Let_def sdpcm_consts)
  ultimately show ?thesis using frame b2(2) by (auto simp: s3_def sdpcm_consts)
qed

section \<open>Control responses and data frames\<close>

definition CYW_BCDC_HDR_LEN :: nat where "CYW_BCDC_HDR_LEN = 16"

definition BCDC_DCMD_ERROR :: u32 where "BCDC_DCMD_ERROR = 1"

text \<open>The fields of the softc that hold the transaction in progress; the response
  buffer, when there is one, has the size of its list.\<close>

record xaction =
  ioctl_waiting :: bool
  ioctl_wait_id :: u16
  ioctl_get :: bool
  ioctl_resp_buf :: "bytes option"
  ioctl_result :: rc
  ioctl_fw_status :: u32

text \<open>The copy into the response buffer: avail is a size of 64 bits and wraps below
  zero; after is the memory behind the receive buffer.\<close>

definition copy_response :: "bytes \<Rightarrow> bytes \<Rightarrow> nat \<Rightarrow> nat \<Rightarrow> bytes \<Rightarrow> bytes" where
  "copy_response after buf flen pp resp =
     (let avail = unat (of_nat flen - of_nat pp :: u64);
          n = min (length resp) avail
      in take n (drop pp (buf @ after)) @ drop n resp)"

definition cyw_sdpcm_deliver_ctrl :: "bytes \<Rightarrow> bytes \<Rightarrow> nat \<Rightarrow> xaction \<Rightarrow> xaction" where
  "cyw_sdpcm_deliver_ctrl after buf flen t =
     (if flen < CYW_SDPCM_HDR_LEN + CYW_BCDC_HDR_LEN then t
      else
        let bch = unat (buf ! 7);
            flags = rd_le32 buf (bch + 8);
            rsp_id = ucast (drop_bit 16 flags AND 0xffff)
        in if \<not> ioctl_waiting t \<or> rsp_id \<noteq> ioctl_wait_id t then t
        else
          let t = (if flags AND BCDC_DCMD_ERROR \<noteq> 0
                   then t\<lparr>ioctl_result := fail EIO, ioctl_fw_status := rd_le32 buf (bch + 12)\<rparr>
                   else if ioctl_get t
                   then t\<lparr>ioctl_resp_buf := map_option (copy_response after buf flen (bch + CYW_BCDC_HDR_LEN)) (ioctl_resp_buf t),
                          ioctl_result := ok\<rparr>
                   else t\<lparr>ioctl_result := ok\<rparr>)
          in t\<lparr>ioctl_waiting := False\<rparr>)"

definition ETHER_HDR_LEN :: nat where "ETHER_HDR_LEN = 14"

text \<open>The payload of a data frame; mbuf is whether the allocation succeeds.\<close>

definition cyw_sdpcm_copy_data :: "bool \<Rightarrow> bytes \<Rightarrow> nat \<Rightarrow> bytes option" where
  "cyw_sdpcm_copy_data mbuf buf flen =
     (let data_offset = unat (buf ! 7) in
      if flen < data_offset + 4 then None
      else
        let bdc = data_offset; frame = bdc + 4 + unat (buf ! (bdc + 3)) * 4 in
        if flen < frame then None
        else if flen - frame < ETHER_HDR_LEN then None
        else if \<not> mbuf then None
        else Some (take (flen - frame) (drop frame buf)))"

section \<open>The drain task\<close>

text \<open>The transaction, the frames cut out for the stack and the events handed to the
  event layer (the buffer and the length of the frame), in order.\<close>

record rx =
  io :: xaction
  rxq :: "bytes list"
  rx_events :: "(bytes \<times> nat) list"

definition sdpcm_demux :: "bytes \<Rightarrow> bool \<Rightarrow> bytes \<Rightarrow> nat \<Rightarrow> rx \<Rightarrow> rx" where
  "sdpcm_demux after mbuf buf flen x =
     (let chan = buf ! 5 AND 0x0f in
      if chan = 0 then x\<lparr>io := cyw_sdpcm_deliver_ctrl after buf flen (io x)\<rparr>
      else if chan = 1 then x\<lparr>rx_events := rx_events x @ [(buf, flen)]\<rparr>
      else if chan = 2 then
        (case cyw_sdpcm_copy_data mbuf buf flen of None \<Rightarrow> x | Some m \<Rightarrow> x\<lparr>rxq := rxq x @ [m]\<rparr>)
      else x)"

lemma f2_read_stream: "f2_read n s = (r, s') \<Longrightarrow> length (stream s') \<le> length (stream s)"
  by (auto simp: f2_read_def Let_def split: list.splits option.splits)

lemma read_tail_stream:
  "read_tail flush dst remaining buf s = (ok, buf', s') \<Longrightarrow> length (stream s') \<le> length (stream s)"
proof (induction flush dst remaining buf s arbitrary: buf' s' rule: read_tail.induct)
  case (1 flush dst remaining buf s)
  show ?case
  proof (cases "remaining = 0")
    case True
    then show ?thesis using 1(2) by (simp add: read_tail.simps)
  next
    case False
    obtain r1 s1 where r1: "f2_read (f2_chunk remaining) s = (r1, s1)" by (cases "f2_read (f2_chunk remaining) s")
    then obtain bs where bs: "r1 = Inr bs"
      using 1(2) False by (cases r1) (simp_all add: read_tail.simps)
    have run: "read_tail flush (dst + f2_chunk remaining) (remaining - f2_chunk remaining) (write_at dst bs buf) s1
        = (ok, buf', s')"
      using 1(2) False r1 bs by (subst (asm) read_tail.simps) (simp add: Let_def)
    have "length (stream s') \<le> length (stream s1)"
      by (rule 1(1)[OF False refl r1[symmetric] refl bs run])
    then show ?thesis using f2_read_stream[OF r1] by simp
  qed
qed

text \<open>A received frame has taken at least one byte out of the FIFO: an empty one reads
  as zeros, which is "nothing there".\<close>

lemma recv_one_consumes:
  assumes "cyw_sdpcm_recv_one flush buf s = (Inr flen, buf', s')"
  shows "length (stream s') < length (stream s)"
proof -
  obtain go s1 where g: "intr_gate s = (go, s1)" by (cases "intr_gate s")
  obtain rh s2 where h: "f2_read CYW_F2_BLKSIZE s1 = (rh, s2)" by (cases "f2_read CYW_F2_BLKSIZE s1")
  have go: "go" using assms g by (cases go) (simp_all add: cyw_sdpcm_recv_one_def)
  then obtain bs where bs: "rh = Inr bs" using assms g h by (cases rh) (simp_all add: cyw_sdpcm_recv_one_def)
  have read: "bs = take 64 (stream s1 @ replicate 64 0)" "stream s2 = drop 64 (stream s1)"
    using h bs by (auto simp: f2_read_def CYW_F2_BLKSIZE_def Let_def split: list.splits option.splits)
  define b1 where "b1 = write_at 0 bs buf"
  have "stream s1 \<noteq> []"
  proof
    assume "stream s1 = []"
    then have "bs = replicate 64 0" using read by simp
    then have "rd_le16 b1 0 = 0" "rd_le16 b1 2 = 0"
      by (simp_all add: b1_def write_at_def rd_le16_def nth_append)
    then show False using assms g go h bs by (simp add: cyw_sdpcm_recv_one_def b1_def[symmetric])
  qed
  then have "length (stream s2) < length (stream s)" using read(2) gate_keeps[OF g] by (cases "stream s1") simp_all
  moreover have "length (stream s') \<le> length (stream s2)"
    using assms g go h bs read_tail_stream[of flush CYW_F2_BLKSIZE "tail_len (unat (rd_le16 b1 0))" b1 s2]
    by (auto simp: cyw_sdpcm_recv_one_def b1_def[symmetric] Let_def split: if_splits prod.splits option.splits)
  ultimately show ?thesis by simp
qed

function sdpcm_drain :: "(bytes \<Rightarrow> bytes) \<Rightarrow> bytes \<Rightarrow> (nat \<Rightarrow> bool) \<Rightarrow> nat \<Rightarrow> bytes \<Rightarrow> sdpcm \<Rightarrow> rx \<Rightarrow> sdpcm \<times> rx" where
  "sdpcm_drain flush after mbuf i buf s x =
     (case cyw_sdpcm_recv_one flush buf s of
        (Inl e, buf, s) \<Rightarrow> (s, x)
      | (Inr flen, buf, s) \<Rightarrow>
          sdpcm_drain flush after mbuf (i + 1) buf s (sdpcm_demux after (mbuf i) buf (unat flen) x))"
  by pat_completeness auto
termination
proof (relation "measure (\<lambda>(_, _, _, _, _, s, _). length (stream s))", goal_cases)
  case (2 flush after mbuf i buf s x r p flen buf' s')
  then have "cyw_sdpcm_recv_one flush buf s = (Inr flen, buf', s')" by simp
  from recv_one_consumes[OF this] show ?case by simp
qed simp

declare sdpcm_drain.simps [simp del]

section \<open>What a drain hands on\<close>

definition fr_chan :: "bytes \<Rightarrow> u8" where
  "fr_chan fr = fr ! 5 AND 0x0f"

definition data_payload :: "bytes \<Rightarrow> bytes option" where
  "data_payload fr = (if fr_chan fr = 2 then cyw_sdpcm_copy_data True fr (length fr) else None)"

text \<open>The data path looks at nothing behind the frame.\<close>

lemma copy_data_take:
  assumes "take (length fr) buf = fr" "12 \<le> length fr" "length fr \<le> length buf"
  shows "cyw_sdpcm_copy_data m buf (length fr) = cyw_sdpcm_copy_data m fr (length fr)"
proof -
  have n: "buf ! i = fr ! i" if "i < length fr" for i using that assms by (metis nth_take)
  let ?o = "unat (fr ! 7)"
  have o: "buf ! 7 = fr ! 7" using n assms(2) by simp
  show ?thesis
  proof (cases "length fr < ?o + 4")
    case True
    then show ?thesis by (simp add: cyw_sdpcm_copy_data_def o)
  next
    case False
    then have b: "buf ! (?o + 3) = fr ! (?o + 3)" using n by simp
    have "take (length fr - k) (drop k buf) = take (length fr - k) (drop k fr)" for k
      using assms(1) by (metis drop_take take_drop take_take min.idem)
    then show ?thesis by (simp add: cyw_sdpcm_copy_data_def o b Let_def)
  qed
qed

text \<open>The interrupt status shows data for at least the next n reads of it.\<close>

definition gate_open :: "nat \<Rightarrow> sdpcm \<Rightarrow> bool" where
  "gate_open n s \<longleftrightarrow> (core_known s \<longrightarrow> n \<le> length (int_reads s)
     \<and> (\<forall>v\<in>set (int_reads s). intr_any v))"

lemma gate_open_step:
  assumes "gate_open (Suc n) s"
  shows "\<exists>s1. intr_gate s = (True, s1) \<and> gate_open n s1 \<and> rx_ok_count s1 = rx_ok_count s"
proof (cases "core_known s")
  case True
  then obtain v vs where v: "int_reads s = v # vs" using assms by (cases "int_reads s") (simp_all add: gate_open_def)
  then have any: "intr_any v" "\<forall>v\<in>set vs. intr_any v" "n \<le> length vs"
    using assms True by (simp_all add: gate_open_def)
  define c where "c = v AND I_HMB_SW_MASK"
  let ?s1 = "if c \<noteq> 0 then s\<lparr>int_reads := vs, int_acks := int_acks s @ [c]\<rparr> else s\<lparr>int_reads := vs\<rparr>"
  have "intr_gate s = (True, ?s1)"
    using v any(1) True unfolding intr_gate_def Let_def by (simp add: c_def)
  moreover have "gate_open n ?s1" "rx_ok_count ?s1 = rx_ok_count s"
    using any(2,3) by (simp_all add: gate_open_def)
  ultimately show ?thesis by blast
qed (use assms in \<open>simp add: gate_open_def intr_gate_def\<close>)

lemma recv_one_empty:
  assumes "stream s = []" "read_fails s = []" "length buf = CYW_SDPCM_BUF_SIZE"
  shows "\<exists>buf' s'. cyw_sdpcm_recv_one flush buf s = (Inl EAGAIN, buf', s') \<and> stream s' = []
    \<and> rx_ok_count s' = rx_ok_count s"
proof -
  obtain go s1 where g: "intr_gate s = (go, s1)" by (cases "intr_gate s")
  then have s1: "stream s1 = []" "read_fails s1 = []" "rx_ok_count s1 = rx_ok_count s"
    using assms gate_keeps by simp_all
  have "rd_le16 (write_at 0 (replicate 64 0) buf) 0 = 0" "rd_le16 (write_at 0 (replicate 64 0) buf) 2 = 0"
    by (simp_all add: write_at_def rd_le16_def nth_append)
  then show ?thesis using g s1
    by (cases go) (simp_all add: cyw_sdpcm_recv_one_def f2_read_def CYW_F2_BLKSIZE_def)
qed

definition stream_of :: "(bytes \<times> bytes) list \<Rightarrow> bytes" where
  "stream_of fps = concat (map (\<lambda>(fr, pad). fr @ pad) fps)"

text \<open>The frame an event record stands for.\<close>

definition frame_of :: "bytes \<times> nat \<Rightarrow> bytes \<times> nat" where
  "frame_of e = (take (snd e) (fst e), snd e)"

lemma frame_of_pair [simp]: "frame_of (b, n) = (take n b, n)"
  by (simp add: frame_of_def)

text \<open>One frame handed on, as far as the data and the events are concerned.\<close>

lemma demux_frame:
  assumes "take (length fr) buf = fr" "wf_frame fr" "length fr \<le> length buf"
  shows "rxq (sdpcm_demux after True buf (length fr) x) = rxq x @ (case data_payload fr of None \<Rightarrow> [] | Some m \<Rightarrow> [m])
    \<and> map frame_of (rx_events (sdpcm_demux after True buf (length fr) x))
      = map frame_of (rx_events x) @ (if fr_chan fr = 1 then [(fr, length fr)] else [])"
proof -
  have l: "12 \<le> length fr" using assms(2) by (simp add: wf_frame_def sdpcm_consts)
  then have "buf ! 5 = fr ! 5" using assms(1) nth_take[of 5 "length fr" buf] by simp
  then show ?thesis
    using assms(1) copy_data_take[OF assms(1) l assms(3), of True]
    by (auto simp: sdpcm_demux_def data_payload_def fr_chan_def Let_def split: option.splits)
qed

lemma drain_frames:
  assumes "stream s = stream_of fps" "read_fails s = []" "gate_open (length fps) s"
    and "\<forall>(fr, pad) \<in> set fps. wf_frame fr \<and> padded fr pad" "length buf = CYW_SDPCM_BUF_SIZE"
    and "sdpcm_drain flush after (\<lambda>_. True) i buf s x = (s', x')"
  shows "stream s' = [] \<and> rx_ok_count s' = rx_ok_count s + of_nat (length fps)
    \<and> rxq x' = rxq x @ List.map_filter data_payload (map fst fps)
    \<and> map frame_of (rx_events x')
      = map frame_of (rx_events x) @ map (\<lambda>fr. (fr, length fr)) (filter (\<lambda>fr. fr_chan fr = 1) (map fst fps))"
  using assms
proof (induction fps arbitrary: i buf s x)
  case Nil
  then have "stream s = []" by (simp add: stream_of_def)
  from recv_one_empty[OF this Nil(2,5), of flush] obtain b t
    where "cyw_sdpcm_recv_one flush buf s = (Inl EAGAIN, b, t)" "stream t = []" "rx_ok_count t = rx_ok_count s" by blast
  then show ?case using Nil(6) by (subst (asm) sdpcm_drain.simps) (simp add: List.map_filter_simps)
next
  case (Cons fp fps)
  obtain fr pad where fp: "fp = (fr, pad)" by (cases fp)
  have wf: "wf_frame fr" "padded fr pad" using Cons(5) fp by auto
  have st: "stream s = fr @ pad @ stream_of fps" using Cons(2) fp by (simp add: stream_of_def)
  obtain s1 where s1: "intr_gate s = (True, s1)" "gate_open (length fps) s1" "rx_ok_count s1 = rx_ok_count s"
    using gate_open_step[of "length fps" s] Cons(4) by auto
  obtain b where b: "cyw_sdpcm_recv_one flush buf s = (Inr (of_nat (length fr)), b,
      s1\<lparr>stream := stream_of fps, sdpcm_rx_max := fr ! 9, rx_ok_count := rx_ok_count s1 + 1\<rparr>)"
    "take (length fr) b = fr" "length b = CYW_SDPCM_BUF_SIZE"
    using recv_one_frame[OF s1(1) Cons(3,6) wf st] by blast
  let ?s2 = "s1\<lparr>stream := stream_of fps, sdpcm_rx_max := fr ! 9, rx_ok_count := rx_ok_count s1 + 1\<rparr>"
  have un: "unat (of_nat (length fr) :: u16) = length fr"
    using wf(1) by (simp add: wf_frame_def sdpcm_consts unat_of_nat take_bit_nat_eq_self)
  let ?x = "sdpcm_demux after True b (length fr) x"
  have run: "sdpcm_drain flush after (\<lambda>_. True) (i + 1) b ?s2 ?x = (s', x')"
    using Cons(7) b(1) un by (subst (asm) sdpcm_drain.simps) simp
  have le: "length fr \<le> length b" using wf(1) b(3) by (simp add: wf_frame_def sdpcm_consts)
  have g: "gate_open (length fps) ?s2" "read_fails ?s2 = []"
    using s1 gate_keeps[OF s1(1)] Cons(3) by (simp_all add: gate_open_def)
  show ?case
    using Cons.IH[OF _ g(2,1) _ b(3) run] Cons(5) demux_frame[OF b(2) wf(1) le, of after x] s1(3) fp
    by (auto simp: List.map_filter_simps algebra_simps split: option.splits)
qed


definition a_frame :: bytes where
  "a_frame = le16 30 @ le16 (NOT 30) @ [0, 2, 0, 12, 0, 5, 0, 0] @ [0, 0, 0, 0] @ replicate 14 7"

definition idle_sdpcm :: sdpcm where
  "idle_sdpcm = \<lparr>stream = [], read_fails = [], core_known = True, int_reads = [], int_acks = [],
     sdpcm_rx_max = 4, sdpcm_tx_seq = 0, rx_ok_count = 0, rx_eio_count = 0, rx_eagain_count = 0\<rparr>"

definition idle_rx :: rx where
  "idle_rx = \<lparr>io = \<lparr>ioctl_waiting = False, ioctl_wait_id = 0, ioctl_get = False, ioctl_resp_buf = None,
     ioctl_result = ok, ioctl_fw_status = 0\<rparr>, rxq = [], rx_events = []\<rparr>"

lemma a_frame_wf: "wf_frame a_frame" "padded a_frame (replicate 34 0)" "fr_chan a_frame = 2"
  "data_payload a_frame = Some (replicate 14 7)" "length a_frame = 30"
proof -
  show l: "length a_frame = 30" by (simp add: a_frame_def)
  have "rd_le16 a_frame 0 = 30" unfolding a_frame_def using rd_le16_append[of 0 "[]"] by simp
  moreover have "rd_le16 a_frame 2 = NOT 30" unfolding a_frame_def by (rule rd_le16_append) simp
  ultimately show "wf_frame a_frame" by (simp add: wf_frame_def l sdpcm_consts)
  show "padded a_frame (replicate 34 0)" by (simp add: padded_def l roundup_def CYW_F2_BLKSIZE_def)
  show "fr_chan a_frame = 2" "data_payload a_frame = Some (replicate 14 7)"
    by (simp_all add: data_payload_def fr_chan_def cyw_sdpcm_copy_data_def l)
      (simp_all add: a_frame_def le16_def Let_def ETHER_HDR_LEN_def)
qed


section \<open>Which response reaches the waiting caller\<close>

definition ctrl_id :: "bytes \<Rightarrow> u16" where
  "ctrl_id fr = ucast (drop_bit 16 (rd_le32 fr (unat (fr ! 7) + 8)) AND 0xffff)"

text \<open>A control frame that is no answer to the waiting transaction changes nothing; nor
  does any after the answer.\<close>

lemma deliver_other:
  assumes "\<not> ioctl_waiting t \<or> ctrl_id fr \<noteq> ioctl_wait_id t"
  shows "cyw_sdpcm_deliver_ctrl after fr n t = t"
  using assms by (auto simp: cyw_sdpcm_deliver_ctrl_def ctrl_id_def Let_def)

lemma deliver_done:
  "ioctl_waiting (cyw_sdpcm_deliver_ctrl after fr n t) \<Longrightarrow> cyw_sdpcm_deliver_ctrl after fr n t = t"
  by (auto simp: cyw_sdpcm_deliver_ctrl_def Let_def split: if_splits)

definition deliver_all :: "bytes \<Rightarrow> bytes list \<Rightarrow> xaction \<Rightarrow> xaction" where
  "deliver_all after frs t = fold (\<lambda>fr. cyw_sdpcm_deliver_ctrl after fr (length fr)) frs t"

lemma deliver_all_idle: "\<not> ioctl_waiting t \<Longrightarrow> deliver_all after frs t = t"
  by (induction frs arbitrary: t) (simp_all add: deliver_all_def deliver_other)

lemma deliver_all_others: "\<forall>fr\<in>set frs. ctrl_id fr \<noteq> ioctl_wait_id t \<Longrightarrow> deliver_all after frs t = t"
  by (induction frs arbitrary: t) (simp_all add: deliver_all_def deliver_other)

lemma deliver_all_append: "deliver_all after (xs @ ys) t = deliver_all after ys (deliver_all after xs t)"
  by (simp add: deliver_all_def)

text \<open>The copy of a response whose header lies in the frame: exactly what the frame
  holds behind the header, as far as the buffer has room.\<close>

lemma copy_response_inside:
  assumes "pp \<le> flen" "flen \<le> length buf" "flen < 2 ^ 64"
  shows "copy_response after buf flen pp resp
    = take (length resp) (drop pp (take flen buf)) @ drop (length (drop pp (take flen buf))) resp"
proof -
  have "(of_nat flen - of_nat pp :: u64) = of_nat (flen - pp)" using assms(1) by (simp add: of_nat_diff)
  moreover have "unat (of_nat (flen - pp) :: u64) = flen - pp"
    using assms(3) by (simp add: unat_of_nat take_bit_nat_eq_self)
  ultimately have "unat (of_nat flen - of_nat pp :: u64) = flen - pp" by metis
  moreover have "length (drop pp (take flen buf)) = flen - pp" using assms(2) by simp
  ultimately show ?thesis using assms
    by (simp only: copy_response_def Let_def) (simp add: drop_take min_def)
qed

section \<open>The report of a failed read\<close>

text \<open>The counters of the report, and when a line was printed last; ticks and hz are C ints,
  whose difference wraps.\<close>

record eio_diag =
  eio_count :: u64
  last_eio_ticks :: u32
  last_print_ticks :: u32

definition cyw_rx_eio_diag :: "u32 \<Rightarrow> u32 \<Rightarrow> eio_diag \<Rightarrow> bool \<times> eio_diag" where
  "cyw_rx_eio_diag ticks hz d =
     (let d = d\<lparr>eio_count := eio_count d + 1, last_eio_ticks := ticks\<rparr> in
      if last_print_ticks d \<noteq> 0 \<and> ticks - last_print_ticks d <s hz then (False, d)
      else (True, d\<lparr>last_print_ticks := ticks\<rparr>))"

text \<open>After a line at a tick other than 0 there is no other for a second, while every
  failure is counted.\<close>

lemma eio_rate:
  assumes "cyw_rx_eio_diag t hz d = (True, d1)" "t \<noteq> 0" "t' - t <s hz"
  shows "cyw_rx_eio_diag t' hz d1 = (False, d1\<lparr>eio_count := eio_count d + 2, last_eio_ticks := t'\<rparr>)"
  using assms by (auto simp: cyw_rx_eio_diag_def Let_def split: if_splits)

end
