(* ===== verification/CywFwil.thy ===== *)
theory CywFwil
  imports CywSdpcm
begin

text \<open>
  The firmware request layer of the CYW43455 driver (src/cyw43455_fwil.c): the frame
  of a request, the transmit credit, the path that polls the FIFO before the
  receive task runs and the path that sleeps on it afterwards, and the public
  calls built on them. What the SDIO write answers, the credit values that the
  task stores while a caller waits and the control frames that arrive before
  the timeout are parameters.
\<close>

section \<open>The frame of a request\<close>

definition BCDC_DCMD_SET :: u32 where "BCDC_DCMD_SET = 2"

definition BCDC_DCMD_ID_SHIFT :: nat where "BCDC_DCMD_ID_SHIFT = 16"

definition CYW_SDPCM_CHAN_CTRL :: u8 where "CYW_SDPCM_CHAN_CTRL = 0"

definition WLC_GET_VAR :: u32 where "WLC_GET_VAR = 262"

definition WLC_SET_VAR :: u32 where "WLC_SET_VAR = 263"

definition ALIGN4 :: "nat \<Rightarrow> nat" where
  "ALIGN4 x = (x + 3) div 4 * 4"

text \<open>A name comes with its NUL; the data area of a GET is zero.\<close>

definition name_bytes :: "bytes option \<Rightarrow> bytes" where
  "name_bytes name = (case name of None \<Rightarrow> [] | Some n \<Rightarrow> n @ [0])"

definition fil_payload :: "u32 \<Rightarrow> bytes option \<Rightarrow> bytes \<Rightarrow> bytes" where
  "fil_payload bcdc_flags name buf =
     name_bytes name @ (if bcdc_flags AND BCDC_DCMD_SET \<noteq> 0 then buf else replicate (length buf) 0)"

definition fil_framelen :: "bytes option \<Rightarrow> bytes \<Rightarrow> nat" where
  "fil_framelen name buf = ALIGN4 (CYW_SDPCM_HDR_LEN + CYW_BCDC_HDR_LEN + (length (name_bytes name) + length buf))"

definition fil_frame :: "u32 \<Rightarrow> u32 \<Rightarrow> bytes option \<Rightarrow> bytes \<Rightarrow> u16 \<Rightarrow> u8 \<Rightarrow> bytes" where
  "fil_frame cmd bcdc_flags name buf xid seq =
     (let payload = fil_payload bcdc_flags name buf; framelen = fil_framelen name buf;
          body = le16 (of_nat framelen) @ le16 (NOT (of_nat framelen))
            @ [seq, CYW_SDPCM_CHAN_CTRL, 0, of_nat CYW_SDPCM_HDR_LEN, 0, 0, 0, 0]
            @ le32 cmd @ le32 (of_nat (length payload))
            @ le32 (bcdc_flags OR push_bit BCDC_DCMD_ID_SHIFT (ucast xid)) @ le32 0 @ payload
      in body @ replicate (framelen - length body) 0)"

section \<open>Credits\<close>

definition tx_credit :: "u8 \<Rightarrow> u8 \<Rightarrow> bool" where
  "tx_credit rx_max tx_seq \<longleftrightarrow> 0 < rx_max - tx_seq"

section \<open>The state of the layer\<close>

record fil =
  bus :: sdpcm
  ioctl_id :: u16
  xact :: xaction
  sent :: "bytes list"
  doorbells :: nat
  sdpcm_running :: bool

record fil_env =
  fl_flush :: "bytes \<Rightarrow> bytes"
  fl_after :: bytes
  write_rc :: rc
  rx_seen :: "nat \<Rightarrow> u8"
  arrivals :: "bytes list"

definition ring_doorbell :: "fil \<Rightarrow> fil" where
  "ring_doorbell s = (if core_known (bus s) then s\<lparr>doorbells := doorbells s + 1\<rparr> else s)"

section \<open>The polling path\<close>

text \<open>At most n polls for a credit, then for the answer; the frames that are not the
  answer are dropped.\<close>

fun credit_poll :: "fil_env \<Rightarrow> nat \<Rightarrow> bytes \<Rightarrow> sdpcm \<Rightarrow> rc \<times> bytes \<times> sdpcm" where
  "credit_poll env 0 rsp s = (ok, rsp, s)"
| "credit_poll env (Suc n) rsp s =
     (if tx_credit (sdpcm_rx_max s) (sdpcm_tx_seq s) then (ok, rsp, s)
      else case cyw_sdpcm_recv_one (fl_flush env) rsp s of
             (Inl e, rsp, s) \<Rightarrow> if e \<noteq> EAGAIN then (fail e, rsp, s) else credit_poll env n rsp s
           | (Inr flen, rsp, s) \<Rightarrow> credit_poll env n rsp s)"

definition resp_match :: "u16 \<Rightarrow> bytes \<Rightarrow> nat \<Rightarrow> bool" where
  "resp_match xid rsp flen \<longleftrightarrow> CYW_SDPCM_HDR_LEN + CYW_BCDC_HDR_LEN \<le> flen
     \<and> rsp ! 5 AND 0x0f = CYW_SDPCM_CHAN_CTRL \<and> ctrl_id rsp = xid"

definition resp_take :: "fil_env \<Rightarrow> bool \<Rightarrow> bytes \<Rightarrow> nat \<Rightarrow> bytes \<Rightarrow> rc \<times> bytes" where
  "resp_take env get rsp flen buf =
     (let bch = unat (rsp ! 7) in
      if rd_le32 rsp (bch + 8) AND BCDC_DCMD_ERROR \<noteq> 0 then (fail EIO, buf)
      else if get then (ok, copy_response (fl_after env) rsp flen (bch + CYW_BCDC_HDR_LEN) buf)
      else (ok, buf))"

fun resp_poll :: "fil_env \<Rightarrow> u16 \<Rightarrow> bool \<Rightarrow> nat \<Rightarrow> bytes \<Rightarrow> bytes \<Rightarrow> sdpcm \<Rightarrow> rc \<times> bytes \<times> sdpcm" where
  "resp_poll env xid get 0 rsp buf s = (fail ETIMEDOUT, buf, s)"
| "resp_poll env xid get (Suc n) rsp buf s =
     (case cyw_sdpcm_recv_one (fl_flush env) rsp s of
        (Inl e, rsp, s) \<Rightarrow> if e = EAGAIN then resp_poll env xid get n rsp buf s else (fail e, buf, s)
      | (Inr flen, rsp, s) \<Rightarrow>
          if \<not> resp_match xid rsp (unat flen) then resp_poll env xid get n rsp buf s
          else (case resp_take env get rsp (unat flen) buf of (r, buf) \<Rightarrow> (r, buf, s)))"

definition fil_boot :: "fil_env \<Rightarrow> u32 \<Rightarrow> u32 \<Rightarrow> bytes option \<Rightarrow> bytes \<Rightarrow> fil \<Rightarrow> rc \<times> bytes \<times> fil" where
  "fil_boot env cmd bcdc_flags name buf s =
     (let xid = ioctl_id s;
          frame = fil_frame cmd bcdc_flags name buf xid (sdpcm_tx_seq (bus s));
          (r, rsp, b) = credit_poll env 100 (replicate CYW_SDPCM_BUF_SIZE 0) (bus s);
          s = s\<lparr>bus := b\<rparr>
      in if r \<noteq> ok then (r, buf, s)
         else if \<not> tx_credit (sdpcm_rx_max (bus s)) (sdpcm_tx_seq (bus s)) then (fail ENOBUFS, buf, s)
         else
           let s = s\<lparr>bus := (bus s)\<lparr>sdpcm_tx_seq := sdpcm_tx_seq (bus s) + 1\<rparr>\<rparr>
           in if write_rc env \<noteq> ok then (write_rc env, buf, s)
              else
                let s = ring_doorbell (s\<lparr>sent := sent s @ [frame]\<rparr>);
                    (r, buf, b) = resp_poll env xid (bcdc_flags AND BCDC_DCMD_SET = 0) 300 rsp buf (bus s)
                in (r, buf, s\<lparr>bus := b\<rparr>))"

section \<open>The sleeping path\<close>

text \<open>The credit is looked at up to 200 times and once more; rx_seen i is the value
  look i finds.\<close>

fun credit_wait :: "(nat \<Rightarrow> u8) \<Rightarrow> u8 \<Rightarrow> nat \<Rightarrow> nat \<Rightarrow> nat" where
  "credit_wait seen seq i 0 = i"
| "credit_wait seen seq i (Suc n) = (if tx_credit (seen i) seq then i + 1 else credit_wait seen seq (i + 1) n)"

definition fil_runtime :: "fil_env \<Rightarrow> u32 \<Rightarrow> u32 \<Rightarrow> bytes option \<Rightarrow> bytes \<Rightarrow> fil \<Rightarrow> rc \<times> bytes \<times> fil" where
  "fil_runtime env cmd bcdc_flags name buf s =
     (let xid = ioctl_id s; seq = sdpcm_tx_seq (bus s) in
      if \<not> tx_credit (rx_seen env (credit_wait (rx_seen env) seq 0 200)) seq then (fail ENOBUFS, buf, s)
      else
        let frame = fil_frame cmd bcdc_flags name buf xid seq;
            s = s\<lparr>bus := (bus s)\<lparr>sdpcm_tx_seq := seq + 1\<rparr>,
                  xact := (xact s)\<lparr>ioctl_waiting := True, ioctl_wait_id := xid,
                    ioctl_get := (bcdc_flags AND BCDC_DCMD_SET = 0), ioctl_resp_buf := Some buf,
                    ioctl_result := fail ETIMEDOUT\<rparr>\<rparr>
        in if write_rc env \<noteq> ok then (write_rc env, buf, s\<lparr>xact := (xact s)\<lparr>ioctl_waiting := False\<rparr>\<rparr>)
           else
             let s = ring_doorbell (s\<lparr>sent := sent s @ [frame]\<rparr>);
                 t = deliver_all (fl_after env) (arrivals env) (xact s);
                 t = (if ioctl_waiting t then t\<lparr>ioctl_waiting := False\<rparr> else t)
             in (ioctl_result t, the (ioctl_resp_buf t), s\<lparr>xact := t\<rparr>))"

text \<open>The result, the buffer of the caller and the state.\<close>

definition cyw_fil_txrx :: "fil_env \<Rightarrow> u32 \<Rightarrow> u32 \<Rightarrow> bytes option \<Rightarrow> bytes \<Rightarrow> fil \<Rightarrow> rc \<times> bytes \<times> fil" where
  "cyw_fil_txrx env cmd bcdc_flags name buf s =
     (let s = s\<lparr>ioctl_id := ioctl_id s + 1\<rparr> in
      if sdpcm_running s then fil_runtime env cmd bcdc_flags name buf s
      else fil_boot env cmd bcdc_flags name buf s)"

section \<open>The public calls\<close>

definition cyw_fil_iovar_data_get :: "fil_env \<Rightarrow> bytes \<Rightarrow> bytes \<Rightarrow> fil \<Rightarrow> rc \<times> bytes \<times> fil" where
  "cyw_fil_iovar_data_get env name buf s = cyw_fil_txrx env WLC_GET_VAR 0 (Some name) buf s"

definition cyw_fil_iovar_data_set :: "fil_env \<Rightarrow> bytes \<Rightarrow> bytes \<Rightarrow> fil \<Rightarrow> rc \<times> fil" where
  "cyw_fil_iovar_data_set env name buf s =
     (let (r, _, s) = cyw_fil_txrx env WLC_SET_VAR BCDC_DCMD_SET (Some name) buf s in (r, s))"

definition cyw_fil_bsscfg_data_set :: "fil_env \<Rightarrow> bytes \<Rightarrow> bytes \<Rightarrow> fil \<Rightarrow> rc \<times> fil" where
  "cyw_fil_bsscfg_data_set env name buf s = cyw_fil_iovar_data_set env name buf s"

text \<open>The value is written only on success: val is what the caller had.\<close>

definition cyw_fil_iovar_int_get :: "fil_env \<Rightarrow> bytes \<Rightarrow> u32 \<Rightarrow> fil \<Rightarrow> rc \<times> u32 \<times> fil" where
  "cyw_fil_iovar_int_get env name val s =
     (let (r, tmp, s) = cyw_fil_iovar_data_get env name (le32 0) s
      in (r, if r = ok then rd_le32 tmp 0 else val, s))"

definition cyw_fil_iovar_int_set :: "fil_env \<Rightarrow> bytes \<Rightarrow> u32 \<Rightarrow> fil \<Rightarrow> rc \<times> fil" where
  "cyw_fil_iovar_int_set env name val s = cyw_fil_iovar_data_set env name (le32 val) s"

definition cyw_fil_bsscfg_int_set :: "fil_env \<Rightarrow> bytes \<Rightarrow> u32 \<Rightarrow> fil \<Rightarrow> rc \<times> fil" where
  "cyw_fil_bsscfg_int_set env name val s = cyw_fil_bsscfg_data_set env name (le32 val) s"

definition cyw_fil_cmd_data_get :: "fil_env \<Rightarrow> u32 \<Rightarrow> bytes \<Rightarrow> fil \<Rightarrow> rc \<times> bytes \<times> fil" where
  "cyw_fil_cmd_data_get env cmd buf s = cyw_fil_txrx env cmd 0 None buf s"

definition cyw_fil_cmd_data_set :: "fil_env \<Rightarrow> u32 \<Rightarrow> bytes \<Rightarrow> fil \<Rightarrow> rc \<times> fil" where
  "cyw_fil_cmd_data_set env cmd buf s =
     (let (r, _, s) = cyw_fil_txrx env cmd BCDC_DCMD_SET None buf s in (r, s))"

definition cyw_fil_cmd_int_set :: "fil_env \<Rightarrow> u32 \<Rightarrow> u32 \<Rightarrow> fil \<Rightarrow> rc \<times> fil" where
  "cyw_fil_cmd_int_set env cmd val s = cyw_fil_cmd_data_set env cmd (le32 val) s"

section \<open>What the firmware reads out of a request\<close>

text \<open>The device side of the format: command, direction, transaction id, sequence
  number and payload, None if the lengths or the channel are wrong.\<close>

definition fw_decode :: "bytes \<Rightarrow> (u32 \<times> bool \<times> u16 \<times> u8 \<times> bytes) option" where
  "fw_decode fr =
     (let off = unat (fr ! 7); plen = unat (rd_le32 fr (off + 4)) in
      if rd_le16 fr 0 = of_nat (length fr) \<and> rd_le16 fr 2 = NOT (of_nat (length fr)) \<and> fr ! 5 AND 0x0f = 0
         \<and> off + 16 + plen \<le> length fr
      then Some (rd_le32 fr off, rd_le32 fr (off + 8) AND BCDC_DCMD_SET \<noteq> 0, ucast (drop_bit 16 (rd_le32 fr (off + 8))),
                 fr ! 4, take plen (drop (off + 16) fr))
      else None)"

lemma ALIGN4_bounds: "n \<le> ALIGN4 n" "ALIGN4 n < n + 4" "ALIGN4 n mod 4 = 0"
  unfolding ALIGN4_def by presburger+

lemma fil_payload_length: "length (fil_payload fl name buf) = length (name_bytes name) + length buf"
  by (simp add: fil_payload_def)

lemma flag_fields:
  assumes "fl = 0 \<or> fl = BCDC_DCMD_SET"
  shows "(fl OR push_bit 16 (ucast (xid :: u16))) AND BCDC_DCMD_SET = fl"
    and "(ucast (drop_bit 16 (fl OR push_bit 16 (ucast xid))) :: u16) = xid"
proof -
  have two: "bit (2 :: u32) n \<longleftrightarrow> n = 1" for n
    using flag_bit[of "2 :: u32" 1 n] by simp
  show "(fl OR push_bit 16 (ucast (xid :: u16))) AND BCDC_DCMD_SET = fl"
    using assms by (intro bit_word_eqI) (auto simp: BCDC_DCMD_SET_def bit_simps two)
  show "(ucast (drop_bit 16 (fl OR push_bit 16 (ucast xid))) :: u16) = xid"
    using assms by (intro bit_word_eqI) (auto simp: BCDC_DCMD_SET_def bit_simps two)
qed

lemma fil_frame_parts:
  assumes "fr = fil_frame cmd fl name buf xid seq"
  obtains pre rest where
    "fr = pre @ le32 cmd @ le32 (of_nat (length (fil_payload fl name buf))) @ le32 (fl OR push_bit 16 (ucast xid))
       @ le32 0 @ fil_payload fl name buf @ rest"
    "pre = le16 (of_nat (fil_framelen name buf)) @ le16 (NOT (of_nat (fil_framelen name buf))) @ [seq, 0, 0, 12, 0, 0, 0, 0]"
    "length fr = fil_framelen name buf" "length rest < 4"
proof -
  define payload where "payload = fil_payload fl name buf"
  define framelen where "framelen = fil_framelen name buf"
  define pre where "pre = le16 (of_nat framelen) @ le16 (NOT (of_nat framelen)) @ [seq, 0, 0, 12, 0, 0, 0, 0]"
  define body where "body = pre @ le32 cmd @ le32 (of_nat (length payload)) @ le32 (fl OR push_bit 16 (ucast xid)) @ le32 0 @ payload"
  define rest where "rest = (replicate (framelen - length body) 0 :: bytes)"
  have fr: "fr = body @ rest"
    by (simp add: assms fil_frame_def Let_def body_def pre_def payload_def framelen_def rest_def CYW_SDPCM_CHAN_CTRL_def
        CYW_SDPCM_HDR_LEN_def BCDC_DCMD_ID_SHIFT_def)
  have "length body = 28 + (length (name_bytes name) + length buf)"
    by (simp add: body_def pre_def payload_def fil_payload_length)
  moreover have "framelen = ALIGN4 (28 + (length (name_bytes name) + length buf))"
    by (simp add: framelen_def fil_framelen_def CYW_SDPCM_HDR_LEN_def CYW_BCDC_HDR_LEN_def)
  ultimately have l: "length fr = framelen" "length rest < 4"
    using ALIGN4_bounds[of "28 + (length (name_bytes name) + length buf)"] by (simp_all add: fr rest_def)
  show thesis
    by (rule that[of pre rest]) (use fr l in \<open>simp_all add: body_def pre_def payload_def framelen_def\<close>)
qed

text \<open>The firmware reads out of a frame what was put in.\<close>

lemma fil_frame_decodes:
  assumes "fl = 0 \<or> fl = BCDC_DCMD_SET" "fil_framelen name buf < 2 ^ 16"
  shows "fw_decode (fil_frame cmd fl name buf xid seq)
    = Some (cmd, fl = BCDC_DCMD_SET, xid, seq, fil_payload fl name buf)"
proof -
  define fr where "fr = fil_frame cmd fl name buf xid seq"
  define pl where "pl = fil_payload fl name buf"
  obtain pre rest where fr: "fr = pre @ le32 cmd @ le32 (of_nat (length pl)) @ le32 (fl OR push_bit 16 (ucast xid))
       @ le32 0 @ pl @ rest"
    and pre: "pre = le16 (of_nat (fil_framelen name buf)) @ le16 (NOT (of_nat (fil_framelen name buf))) @ [seq, 0, 0, 12, 0, 0, 0, 0]"
    and len: "length fr = fil_framelen name buf"
    using fil_frame_parts[OF fr_def] unfolding pl_def by metis
  have l12: "length pre = 12" by (simp add: pre)
  have len2: "length fr = 28 + length pl + length rest" by (simp add: fr l12)
  then have "length pl < 2 ^ 16" using len assms(2) by simp
  then have plen: "unat (of_nat (length pl) :: u32) = length pl" by (simp add: unat_of_nat take_bit_nat_eq_self)
  have "rd_le16 fr 0 = of_nat (length fr)" unfolding len unfolding fr pre using rd_le16_append[of 0 "[]"] by simp
  moreover have "rd_le16 fr 2 = NOT (of_nat (length fr))"
    unfolding len unfolding fr pre using rd_le16_append[of 2 "le16 (of_nat (fil_framelen name buf))"] by simp
  moreover have "fr ! 4 = seq" "fr ! 5 = 0" "fr ! 7 = 12" unfolding fr pre by (simp_all add: le16_def)
  moreover have "rd_le32 fr 12 = cmd" unfolding fr by (rule rd_le32_append) (simp add: l12)
  moreover have "rd_le32 fr 16 = of_nat (length pl)"
    unfolding fr using rd_le32_append[of 16 "pre @ le32 cmd"] l12 by simp
  moreover have "rd_le32 fr 20 = fl OR push_bit 16 (ucast xid)"
    unfolding fr using rd_le32_append[of 20 "pre @ le32 cmd @ le32 (of_nat (length pl))"] l12 by simp
  moreover have "take (length pl) (drop 28 fr) = pl" unfolding fr by (simp add: l12)
  ultimately show ?thesis
    using flag_fields[OF assms(1), of xid] plen len2 assms(1)
    by (auto simp: fw_decode_def fr_def[symmetric] pl_def[symmetric] Let_def BCDC_DCMD_SET_def)
qed

text \<open>C22: What goes out is what the firmware reads: the command, the direction, the
  transaction id, the sequence number and the payload (name and data) come back
  out of the frame of a request, as long as its length fits the 16-bit field.\<close>

theorem request_roundtrip:
  assumes "fl = 0 \<or> fl = BCDC_DCMD_SET" "fil_framelen name buf < 2 ^ 16"
  shows "fw_decode (fil_frame cmd fl name buf xid seq)
    = Some (cmd, fl = BCDC_DCMD_SET, xid, seq, fil_payload fl name buf)"
  using assms by (rule fil_frame_decodes)

theorem request_roundtrip_witness:
  "fw_decode (fil_frame WLC_GET_VAR 0 (Some [118, 101, 114]) [0, 0, 0, 0] 7 3)
     = Some (WLC_GET_VAR, False, 7, 3, [118, 101, 114, 0, 0, 0, 0, 0])"
  using request_roundtrip[of 0 "Some [118, 101, 114]" "[0, 0, 0, 0]" WLC_GET_VAR 7 3]
  by (simp add: fil_framelen_def ALIGN4_def name_bytes_def CYW_SDPCM_HDR_LEN_def CYW_BCDC_HDR_LEN_def fil_payload_def
      BCDC_DCMD_SET_def)

section \<open>A call while the receive task runs\<close>

lemma deliver_all_find:
  assumes "ioctl_waiting t" "\<forall>fr\<in>set frs. 28 \<le> length fr"
  shows "deliver_all after frs t = (case List.find (\<lambda>fr. ctrl_id fr = ioctl_wait_id t) frs of
      None \<Rightarrow> t | Some fr \<Rightarrow> cyw_sdpcm_deliver_ctrl after fr (length fr) t)"
  using assms
proof (induction frs)
  case (Cons fr frs)
  show ?case
  proof (cases "ctrl_id fr = ioctl_wait_id t")
    case True
    then have "\<not> ioctl_waiting (cyw_sdpcm_deliver_ctrl after fr (length fr) t)"
      using Cons.prems by (simp add: cyw_sdpcm_deliver_ctrl_def ctrl_id_def Let_def CYW_SDPCM_HDR_LEN_def CYW_BCDC_HDR_LEN_def)
    then show ?thesis using True deliver_all_idle by (simp add: deliver_all_def)
  next
    case False
    then have "deliver_all after (fr # frs) t = deliver_all after frs t"
      by (simp add: deliver_all_def deliver_other)
    then show ?thesis using Cons False by simp
  qed
qed (simp add: deliver_all_def)

text \<open>The answer a control frame is: an error, or the data behind the header.\<close>

definition ctrl_answer :: "bool \<Rightarrow> bytes \<Rightarrow> bytes \<Rightarrow> rc \<times> bytes" where
  "ctrl_answer get fr buf =
     (let bch = unat (fr ! 7); d = drop (bch + 16) fr in
      if rd_le32 fr (bch + 8) AND BCDC_DCMD_ERROR \<noteq> 0 then (fail EIO, buf)
      else if get then (ok, take (length buf) d @ drop (length d) buf)
      else (ok, buf))"

definition ctrl_inside :: "bytes \<Rightarrow> bool" where
  "ctrl_inside fr \<longleftrightarrow> 28 \<le> length fr \<and> unat (fr ! 7) + 16 \<le> length fr \<and> length fr \<le> CYW_SDPCM_MAX_FRAME"

lemma credit_wait_credit:
  assumes "\<And>i. tx_credit (seen i) seq"
  shows "tx_credit (seen (credit_wait seen seq i n)) seq"
  using assms by (cases n) simp_all

text \<open>C23: A call made while the receive task runs, with a credit and a write that goes
  through, sends one frame with its own transaction id, and answers by the first
  of the control frames that arrive in time whose id is that of the call: the
  error of the firmware, or the data of the response as far as they and the
  buffer reach. Frames of other calls, before it or after it, change nothing.
  Without such a frame it times out and the buffer is unchanged; and in either
  case nothing waits any more, so an answer that comes later is dropped.\<close>

theorem runtime_call_answered:
  assumes "sdpcm_running s" "\<And>i. tx_credit (rx_seen env i) (sdpcm_tx_seq (bus s))" "write_rc env = ok"
    and "\<forall>fr\<in>set (arrivals env). ctrl_inside fr"
    and "cyw_fil_txrx env cmd fl name buf s = (r, buf', s')"
  shows "(r, buf') = (case List.find (\<lambda>fr. ctrl_id fr = ioctl_id s + 1) (arrivals env) of
           None \<Rightarrow> (fail ETIMEDOUT, buf) | Some fr \<Rightarrow> ctrl_answer (fl AND BCDC_DCMD_SET = 0) fr buf)
    \<and> sent s' = sent s @ [fil_frame cmd fl name buf (ioctl_id s + 1) (sdpcm_tx_seq (bus s))]
    \<and> \<not> ioctl_waiting (xact s') \<and> ioctl_id s' = ioctl_id s + 1"
proof -
  define t where "t = (xact s)\<lparr>ioctl_waiting := True, ioctl_wait_id := ioctl_id s + 1,
    ioctl_get := (fl AND BCDC_DCMD_SET = 0), ioctl_resp_buf := Some buf, ioctl_result := fail ETIMEDOUT\<rparr>"
  define t' where "t' = deliver_all (fl_after env) (arrivals env) t"
  have cr: "tx_credit (rx_seen env (credit_wait (rx_seen env) (sdpcm_tx_seq (bus s)) 0 200)) (sdpcm_tx_seq (bus s))"
    by (rule credit_wait_credit) (rule assms(2))
  have run: "r = ioctl_result t'" "buf' = the (ioctl_resp_buf t')"
    "sent s' = sent s @ [fil_frame cmd fl name buf (ioctl_id s + 1) (sdpcm_tx_seq (bus s))]"
    "\<not> ioctl_waiting (xact s')" "ioctl_id s' = ioctl_id s + 1"
    using assms(5,1,3) cr
    by (auto simp: cyw_fil_txrx_def fil_runtime_def Let_def ring_doorbell_def t'_def t_def split: if_splits)
  have all: "t' = (case List.find (\<lambda>fr. ctrl_id fr = ioctl_id s + 1) (arrivals env) of
      None \<Rightarrow> t | Some fr \<Rightarrow> cyw_sdpcm_deliver_ctrl (fl_after env) fr (length fr) t)"
    unfolding t'_def using assms(4) by (subst deliver_all_find) (auto simp: t_def ctrl_inside_def)
  have "(ioctl_result t', the (ioctl_resp_buf t')) = (case List.find (\<lambda>fr. ctrl_id fr = ioctl_id s + 1) (arrivals env) of
           None \<Rightarrow> (fail ETIMEDOUT, buf) | Some fr \<Rightarrow> ctrl_answer (fl AND BCDC_DCMD_SET = 0) fr buf)"
  proof (cases "List.find (\<lambda>fr. ctrl_id fr = ioctl_id s + 1) (arrivals env)")
    case None
    then show ?thesis using all by (simp add: t_def)
  next
    case (Some fr)
    then have fr: "fr \<in> set (arrivals env)" "ctrl_id fr = ioctl_id s + 1" by (auto simp: find_Some_iff)
    then have i: "28 \<le> length fr" "unat (fr ! 7) + 16 \<le> length fr" "length fr < 2 ^ 64"
      using assms(4) by (auto simp: ctrl_inside_def CYW_SDPCM_MAX_FRAME_def)
    have "copy_response (fl_after env) fr (length fr) (unat (fr ! 7) + 16) buf
        = take (length buf) (drop (unat (fr ! 7) + 16) fr) @ drop (length (drop (unat (fr ! 7) + 16) fr)) buf"
      using copy_response_inside[OF i(2) order_refl i(3)] by simp
    then show ?thesis using Some all i fr(2)
      by (simp add: t_def cyw_sdpcm_deliver_ctrl_def ctrl_answer_def ctrl_id_def Let_def CYW_SDPCM_HDR_LEN_def CYW_BCDC_HDR_LEN_def)
  qed
  then show ?thesis using run by simp
qed

text \<open>A response with the data 9, 8, 7, 6 to the transaction 1.\<close>

definition a_reply :: bytes where
  "a_reply = (le16 32 @ le16 (NOT 32) @ [0, 0, 0, 12, 0, 5, 0, 0] @ le32 262 @ le32 4) @ le32 0x10000 @ le32 0 @ [9, 8, 7, 6]"

lemma a_reply_facts:
  "length a_reply = 32" "a_reply ! 7 = 12" "a_reply ! 5 = 0" "a_reply ! 9 = 5" "rd_le32 a_reply 20 = 0x10000"
  "drop 28 a_reply = [9, 8, 7, 6]" "ctrl_id a_reply = 1" "rd_le16 a_reply 0 = 32" "rd_le16 a_reply 2 = NOT 32"
proof -
  show "length a_reply = 32" "drop 28 a_reply = [9, 8, 7, 6]" by (simp_all add: a_reply_def)
  show o: "a_reply ! 7 = 12" "a_reply ! 5 = 0" "a_reply ! 9 = 5" by (simp_all add: a_reply_def le16_def)
  show f: "rd_le32 a_reply 20 = 0x10000" unfolding a_reply_def by (rule rd_le32_append) simp
  show "ctrl_id a_reply = 1" by (simp add: ctrl_id_def o f)
  show "rd_le16 a_reply 0 = 32" unfolding a_reply_def using rd_le16_append[of 0 "[]"] by simp
  show "rd_le16 a_reply 2 = NOT 32"
    unfolding a_reply_def append.assoc by (rule rd_le16_append) simp
qed

definition idle_fil :: "bool \<Rightarrow> fil" where
  "idle_fil run = \<lparr>bus = idle_sdpcm, ioctl_id = 0, xact = io idle_rx, sent = [], doorbells = 0, sdpcm_running = run\<rparr>"

definition quiet_env :: "bytes list \<Rightarrow> fil_env" where
  "quiet_env frs = \<lparr>fl_flush = id, fl_after = [], write_rc = ok, rx_seen = (\<lambda>_. 4), arrivals = frs\<rparr>"

theorem runtime_call_answered_witness:
  "\<exists>s'. cyw_fil_iovar_data_get (quiet_env [a_frame, a_reply]) [118] [0, 0] (idle_fil True) = (ok, [9, 8], s')"
proof -
  obtain r b s' where c: "cyw_fil_txrx (quiet_env [a_frame, a_reply]) WLC_GET_VAR 0 (Some [118]) [0, 0] (idle_fil True) = (r, b, s')"
    by (cases "cyw_fil_txrx (quiet_env [a_frame, a_reply]) WLC_GET_VAR 0 (Some [118]) [0, 0] (idle_fil True)")
  have other: "ctrl_id a_frame \<noteq> 1"
    by (simp add: ctrl_id_def a_frame_def le16_def rd_le32_def)
  have in1: "ctrl_inside a_frame"
    using a_frame_wf(5) by (simp add: ctrl_inside_def CYW_SDPCM_MAX_FRAME_def) (simp add: a_frame_def le16_def)
  have in2: "ctrl_inside a_reply" by (simp add: ctrl_inside_def a_reply_facts CYW_SDPCM_MAX_FRAME_def)
  have "(r, b) = (case List.find (\<lambda>fr. ctrl_id fr = ioctl_id (idle_fil True) + 1) (arrivals (quiet_env [a_frame, a_reply])) of
           None \<Rightarrow> (fail ETIMEDOUT, [0, 0]) | Some fr \<Rightarrow> ctrl_answer (0 AND BCDC_DCMD_SET = 0) fr [0, 0])"
    using runtime_call_answered[OF _ _ _ _ c] in1 in2
    by (auto simp: idle_fil_def quiet_env_def idle_sdpcm_def tx_credit_def)
  then have "(r, b) = (ok, [9, 8])"
    using other by (simp add: idle_fil_def quiet_env_def a_reply_facts ctrl_answer_def Let_def BCDC_DCMD_ERROR_def)
  then show ?thesis using c by (auto simp: cyw_fil_iovar_data_get_def)
qed

section \<open>A call before the receive task runs\<close>

lemma rd_le32_take: "i + 3 < n \<Longrightarrow> n \<le> length xs \<Longrightarrow> take n xs = ys \<Longrightarrow> rd_le32 xs i = rd_le32 ys i"
  by (auto simp: rd_le32_def)

text \<open>Looking at the buffer is looking at the frame in it.\<close>

lemma resp_buffer:
  assumes "take (length fr) rsp = fr" "length fr \<le> length rsp" "ctrl_inside fr"
  shows "resp_match xid rsp (length fr) \<longleftrightarrow> fr_chan fr = 0 \<and> ctrl_id fr = xid"
    and "resp_take env get rsp (length fr) buf = ctrl_answer get fr buf"
proof -
  have n: "rsp ! i = fr ! i" if "i < length fr" for i using that assms(1) by (metis nth_take)
  have i: "28 \<le> length fr" "unat (fr ! 7) + 16 \<le> length fr" "length fr < 2 ^ 64"
    using assms(3) by (auto simp: ctrl_inside_def CYW_SDPCM_MAX_FRAME_def)
  have o: "rsp ! 7 = fr ! 7" "rsp ! 5 = fr ! 5" using n i(1) by simp_all
  have f: "rd_le32 rsp (unat (fr ! 7) + 8) = rd_le32 fr (unat (fr ! 7) + 8)"
    by (rule rd_le32_take[OF _ assms(2,1)]) (use i in simp)
  show "resp_match xid rsp (length fr) \<longleftrightarrow> fr_chan fr = 0 \<and> ctrl_id fr = xid"
    using i(1) by (simp add: resp_match_def fr_chan_def ctrl_id_def o f CYW_SDPCM_HDR_LEN_def CYW_BCDC_HDR_LEN_def
        CYW_SDPCM_CHAN_CTRL_def)
  have "copy_response (fl_after env) rsp (length fr) (unat (fr ! 7) + 16) buf
      = take (length buf) (drop (unat (fr ! 7) + 16) fr) @ drop (length (drop (unat (fr ! 7) + 16) fr)) buf"
    using copy_response_inside[OF i(2) assms(2) i(3)] assms(1) by simp
  then show "resp_take env get rsp (length fr) buf = ctrl_answer get fr buf"
    by (simp add: resp_take_def ctrl_answer_def o f Let_def CYW_BCDC_HDR_LEN_def)
qed

lemma resp_poll_answers:
  assumes "stream s = stream_of (pre @ (fr, pad) # post)" "read_fails s = []" "gate_open (length pre + 1) s"
    and "\<forall>(fr, pad) \<in> set pre \<union> {(fr, pad)}. wf_frame fr \<and> padded fr pad \<and> ctrl_inside fr"
    and "\<forall>(fr, pad) \<in> set pre. fr_chan fr \<noteq> 0 \<or> ctrl_id fr \<noteq> xid"
    and "fr_chan fr = 0" "ctrl_id fr = xid" "length pre < n" "length rsp = CYW_SDPCM_BUF_SIZE"
  shows "\<exists>s'. resp_poll env xid get n rsp buf s
    = (fst (ctrl_answer get fr buf), snd (ctrl_answer get fr buf), s') \<and> stream s' = stream_of post"
  using assms
proof (induction pre arbitrary: n rsp s)
  case Nil
  obtain m where n: "n = Suc m" using Nil.prems(8) by (cases n) auto
  have st: "stream s = fr @ pad @ stream_of post" using Nil.prems(1) by (simp add: stream_of_def)
  have wf: "wf_frame fr" "padded fr pad" "ctrl_inside fr" using Nil.prems(4) by auto
  obtain s1 where s1: "intr_gate s = (True, s1)" using gate_open_step[of 0 s] Nil.prems(3) by auto
  obtain b where b: "cyw_sdpcm_recv_one (fl_flush env) rsp s = (Inr (of_nat (length fr)), b,
      s1\<lparr>stream := stream_of post, sdpcm_rx_max := fr ! 9, rx_ok_count := rx_ok_count s1 + 1\<rparr>)"
    "take (length fr) b = fr" "length b = CYW_SDPCM_BUF_SIZE"
    using recv_one_frame[OF s1 Nil.prems(2,9) wf(1,2) st] by blast
  have un: "unat (of_nat (length fr) :: u16) = length fr" and le: "length fr \<le> length b"
    using wf(1) b(3) by (simp_all add: wf_frame_def sdpcm_consts unat_of_nat take_bit_nat_eq_self)
  show ?case using resp_buffer[OF b(2) le wf(3)] Nil.prems(6,7) b(1)
    by (simp add: n un split: prod.splits)
next
  case (Cons fp pre)
  obtain f p where fp: "fp = (f, p)" by (cases fp)
  obtain m where n: "n = Suc m" "length pre < m" using Cons.prems(8) by (cases n) auto
  have st: "stream s = f @ p @ stream_of (pre @ (fr, pad) # post)" using Cons.prems(1) fp by (simp add: stream_of_def)
  have wf: "wf_frame f" "padded f p" "ctrl_inside f" using Cons.prems(4) fp by auto
  obtain s1 where s1: "intr_gate s = (True, s1)" "gate_open (length pre + 1) s1"
    using gate_open_step[of "length pre + 1" s] Cons.prems(3) by auto
  let ?s2 = "s1\<lparr>stream := stream_of (pre @ (fr, pad) # post), sdpcm_rx_max := f ! 9, rx_ok_count := rx_ok_count s1 + 1\<rparr>"
  obtain b where b: "cyw_sdpcm_recv_one (fl_flush env) rsp s = (Inr (of_nat (length f)), b, ?s2)"
    "take (length f) b = f" "length b = CYW_SDPCM_BUF_SIZE"
    using recv_one_frame[OF s1(1) Cons.prems(2,9) wf(1,2) st] by blast
  have un: "unat (of_nat (length f) :: u16) = length f" and le: "length f \<le> length b"
    using wf(1) b(3) by (simp_all add: wf_frame_def sdpcm_consts unat_of_nat take_bit_nat_eq_self)
  have "\<not> resp_match xid b (length f)" using resp_buffer(1)[OF b(2) le wf(3)] Cons.prems(5) fp by auto
  then have step: "resp_poll env xid get n rsp buf s = resp_poll env xid get m b buf ?s2"
    using b(1) by (simp add: n un)
  have g: "gate_open (length pre + 1) ?s2" "read_fails ?s2 = []" "stream ?s2 = stream_of (pre @ (fr, pad) # post)"
    using s1(2) gate_keeps[OF s1(1)] Cons.prems(2) by (simp_all add: gate_open_def)
  show ?case unfolding step
    by (rule Cons.IH[OF g(3,2,1) _ _ Cons.prems(6,7) n(2) b(3)]) (use Cons.prems(4,5) in auto)
qed

text \<open>C24: Liveness of the polling path: a call made before the receive task runs, with a
  credit and a write that goes through, returns the answer of the firmware,
  whatever other frames come before it, as long as there are fewer than 300 of
  them. It takes exactly those frames out of the FIFO.\<close>

theorem boot_call_answered:
  assumes "\<not> sdpcm_running s" "tx_credit (sdpcm_rx_max (bus s)) (sdpcm_tx_seq (bus s))" "write_rc env = ok"
    and "stream (bus s) = stream_of (pre @ (fr, pad) # post)" "length pre < 300"
    and "read_fails (bus s) = []" "gate_open (length pre + 1) (bus s)"
    and "\<forall>(fr, pad) \<in> set pre \<union> {(fr, pad)}. wf_frame fr \<and> padded fr pad \<and> ctrl_inside fr"
    and "\<forall>(fr, pad) \<in> set pre. fr_chan fr \<noteq> 0 \<or> ctrl_id fr \<noteq> ioctl_id s + 1"
    and "fr_chan fr = 0" "ctrl_id fr = ioctl_id s + 1"
  shows "\<exists>s'. cyw_fil_txrx env cmd fl name buf s
      = (fst (ctrl_answer (fl AND BCDC_DCMD_SET = 0) fr buf), snd (ctrl_answer (fl AND BCDC_DCMD_SET = 0) fr buf), s')
    \<and> stream (bus s') = stream_of post
    \<and> sent s' = sent s @ [fil_frame cmd fl name buf (ioctl_id s + 1) (sdpcm_tx_seq (bus s))]"
proof -
  let ?b = "(bus s)\<lparr>sdpcm_tx_seq := sdpcm_tx_seq (bus s) + 1\<rparr>"
  have g: "gate_open (length pre + 1) ?b" using assms(7) by (simp add: gate_open_def)
  have l: "length (replicate CYW_SDPCM_BUF_SIZE 0 :: bytes) = CYW_SDPCM_BUF_SIZE" by simp
  have st: "stream ?b = stream_of (pre @ (fr, pad) # post)" and rf: "read_fails ?b = []" using assms(4,6) by simp_all
  obtain b' where poll: "resp_poll env (ioctl_id s + 1) (fl AND BCDC_DCMD_SET = 0) 300 (replicate CYW_SDPCM_BUF_SIZE 0) buf ?b
      = (fst (ctrl_answer (fl AND BCDC_DCMD_SET = 0) fr buf), snd (ctrl_answer (fl AND BCDC_DCMD_SET = 0) fr buf), b')"
    "stream b' = stream_of post"
    using resp_poll_answers[OF st rf g assms(8-11,5) l] by blast
  have credit: "credit_poll env 100 (replicate CYW_SDPCM_BUF_SIZE 0) (bus s) = (ok, replicate CYW_SDPCM_BUF_SIZE 0, bus s)"
    using assms(2) by (simp add: numeral_eq_Suc)
  show ?thesis
    using assms(1-3) credit poll
    by (simp add: cyw_fil_txrx_def fil_boot_def Let_def ring_doorbell_def del: replicate.simps credit_poll.simps resp_poll.simps)
qed

theorem boot_call_answered_witness:
  "\<exists>s'. cyw_fil_iovar_data_get (quiet_env []) [118] [0, 0]
     ((idle_fil False)\<lparr>bus := idle_sdpcm\<lparr>stream := stream_of [(a_frame, replicate 34 0), (a_reply, replicate 32 0)],
        int_reads := [0x800000, 0x800000]\<rparr>\<rparr>) = (ok, [9, 8], s')"
proof -
  let ?s = "(idle_fil False)\<lparr>bus := idle_sdpcm\<lparr>stream := stream_of [(a_frame, replicate 34 0), (a_reply, replicate 32 0)],
        int_reads := [0x800000, 0x800000]\<rparr>\<rparr>"
  have in1: "ctrl_inside a_frame"
    using a_frame_wf(5) by (simp add: ctrl_inside_def CYW_SDPCM_MAX_FRAME_def) (simp add: a_frame_def le16_def)
  have in2: "ctrl_inside a_reply" by (simp add: ctrl_inside_def a_reply_facts CYW_SDPCM_MAX_FRAME_def)
  have wf2: "wf_frame a_reply" by (simp add: wf_frame_def a_reply_facts sdpcm_consts)
  have p2: "padded a_reply (replicate 32 0)" by (simp add: padded_def a_reply_facts roundup_def CYW_F2_BLKSIZE_def)
  have ch: "fr_chan a_reply = 0" by (simp add: fr_chan_def a_reply_facts)
  have g: "gate_open (length [(a_frame, replicate 34 0 :: bytes)] + 1) (bus ?s)"
    by (simp add: gate_open_def intr_any_def I_HMB_SW_MASK_def I_XMTDATA_AVAIL_def)
  have st: "stream (bus ?s) = stream_of ([(a_frame, replicate 34 0)] @ (a_reply, replicate 32 0) # [])"
    by (simp del: replicate.simps)
  have "\<exists>s'. cyw_fil_txrx (quiet_env []) WLC_GET_VAR 0 (Some [118]) [0, 0] ?s
      = (fst (ctrl_answer (0 AND BCDC_DCMD_SET = 0) a_reply [0, 0]), snd (ctrl_answer (0 AND BCDC_DCMD_SET = 0) a_reply [0, 0]), s')
    \<and> stream (bus s') = stream_of []
    \<and> sent s' = sent ?s @ [fil_frame WLC_GET_VAR 0 (Some [118]) [0, 0] (ioctl_id ?s + 1) (sdpcm_tx_seq (bus ?s))]"
  proof (rule boot_call_answered[OF _ _ _ st _ _ g])
    show "ctrl_id a_reply = ioctl_id ?s + 1" by (simp add: a_reply_facts idle_fil_def)
  qed (use in1 in2 wf2 p2 ch a_frame_wf in \<open>simp_all add: idle_fil_def quiet_env_def idle_sdpcm_def tx_credit_def del: replicate.simps\<close>)
  moreover have "ctrl_answer (0 AND BCDC_DCMD_SET = 0) a_reply [0, 0] = (ok, [9, 8])"
    by (simp add: ctrl_answer_def a_reply_facts BCDC_DCMD_ERROR_def Let_def)
  ultimately show ?thesis by (auto simp: cyw_fil_iovar_data_get_def)
qed

section \<open>A response whose header points outside the frame\<close>

text \<open>The header offset of a response is not checked. When the header it names ends
  behind the frame, the count of bytes left wraps, and the whole buffer of the
  caller is filled from behind the frame: from what earlier frames left in the
  receive buffer, and from behind that buffer for a request long enough.\<close>

theorem response_overread:
  assumes "28 \<le> n" "ioctl_waiting t" "ioctl_get t" "ioctl_resp_buf t = Some buf" "ctrl_id rsp = ioctl_wait_id t"
    and "rd_le32 rsp (unat (rsp ! 7) + 8) AND BCDC_DCMD_ERROR = 0"
    and "n < unat (rsp ! 7) + 16" "length buf < 2 ^ 32"
  shows "ioctl_resp_buf (cyw_sdpcm_deliver_ctrl after rsp n t)
      = Some (take (length buf) (drop (unat (rsp ! 7) + 16) (rsp @ after)))
    \<and> ioctl_result (cyw_sdpcm_deliver_ctrl after rsp n t) = ok"
proof -
  let ?pp = "unat (rsp ! 7) + 16"
  have "unat (rsp ! 7) < 2 ^ LENGTH(8)" by (rule unsigned_less)
  then have pp: "?pp < 300" by simp
  then have u: "unat (of_nat n :: u64) = n" "unat (of_nat ?pp :: u64) = ?pp"
    using assms(7) by (simp_all only: unat_of_nat) (simp_all add: take_bit_nat_eq_self)
  have "unat (of_nat n - of_nat ?pp :: u64) = 2 ^ 64 + n - ?pp"
    using u assms(7) by (simp only: unat_sub_if_size word_size) simp
  then have "length buf \<le> unat (of_nat n - of_nat ?pp :: u64)" using pp assms(8) by simp
  then have "copy_response after rsp n ?pp buf = take (length buf) (drop ?pp (rsp @ after))"
    by (simp only: copy_response_def Let_def min_absorb1) simp
  then show ?thesis using assms(1-6)
    by (simp add: cyw_sdpcm_deliver_ctrl_def ctrl_id_def Let_def CYW_SDPCM_HDR_LEN_def CYW_BCDC_HDR_LEN_def)
qed

text \<open>A frame of 28 bytes whose header claims to lie at 20: the two bytes answered are
  the ones at 36 and 37 of the receive buffer.\<close>

theorem response_overread_witness:
  "ioctl_resp_buf (cyw_sdpcm_deliver_ctrl [] (replicate 7 0 @ [20] @ replicate 28 0 @ [5, 6]) 28
     ((io idle_rx)\<lparr>ioctl_waiting := True, ioctl_get := True, ioctl_resp_buf := Some [1, 2]\<rparr>)) = Some [5, 6]"
proof -
  let ?rsp = "replicate 7 0 @ [20] @ replicate 28 0 @ [5, 6] :: bytes"
  let ?t = "(io idle_rx)\<lparr>ioctl_waiting := True, ioctl_get := True, ioctl_resp_buf := Some [1, 2]\<rparr>"
  have o: "?rsp ! 7 = 20" by (simp add: nth_append)
  have f: "rd_le32 ?rsp 28 = 0" by (simp add: rd_le32_def nth_append)
  have "ioctl_resp_buf (cyw_sdpcm_deliver_ctrl [] ?rsp 28 ?t)
      = Some (take (length [1 :: u8, 2]) (drop (unat (?rsp ! 7) + 16) (?rsp @ []))) \<and> ioctl_result (cyw_sdpcm_deliver_ctrl [] ?rsp 28 ?t) = ok"
    by (rule response_overread) (simp_all add: o f ctrl_id_def idle_rx_def del: append_Cons replicate.simps)
  then show ?thesis unfolding o by simp
qed

end
