(* ===== verification/CywRace.thy ===== *)
theory CywRace
  imports CywFwil
begin

text \<open>
  The two senders of the CYW43455 driver: cyw_fil_txrx (src/cyw43455_fwil.c) and
  cyw_tx_data_frame (src/cyw43455_cfg.c) share the credit and the sequence
  number. The first assigns its number under the mutex of the softc, the second
  under the lock of the packet function, and both test the credit before they
  take either lock. Here every access to the shared fields is a step, and a
  schedule says whose step comes next.
\<close>

section \<open>The senders step by step\<close>

text \<open>Where a sender is: outside, past the credit test, with the sequence number read,
  and with it assigned and the shared one advanced.\<close>

datatype place = Outside | Granted | Loaded u8 | Numbered u8

record senders =
  tx_seq :: u8
  rx_max :: u8
  f2_held :: bool
  wire :: "u8 list"
  ctl :: place
  dat :: place

text \<open>The control sender numbers its frame under the mutex and takes the packet lock for
  the write alone; the data sender holds the packet lock from before the read of
  the number until after the write. A step that has to wait for the lock, or is
  not the next of its sender, does not happen: None.\<close>

datatype turn = Ctl | Dat | Credit u8

definition ctl_step :: "senders \<Rightarrow> senders option" where
  "ctl_step s =
     (case ctl s of
        Outside \<Rightarrow> if tx_credit (rx_max s) (tx_seq s) then Some (s\<lparr>ctl := Granted\<rparr>) else None
      | Granted \<Rightarrow> Some (s\<lparr>ctl := Loaded (tx_seq s)\<rparr>)
      | Loaded v \<Rightarrow> Some (s\<lparr>tx_seq := v + 1, ctl := Numbered v\<rparr>)
      | Numbered v \<Rightarrow> if f2_held s then None else Some (s\<lparr>wire := wire s @ [v], ctl := Outside\<rparr>))"

definition dat_step :: "senders \<Rightarrow> senders option" where
  "dat_step s =
     (case dat s of
        Outside \<Rightarrow> if tx_credit (rx_max s) (tx_seq s) then Some (s\<lparr>dat := Granted\<rparr>) else None
      | Granted \<Rightarrow> if f2_held s then None else Some (s\<lparr>f2_held := True, dat := Loaded (tx_seq s)\<rparr>)
      | Loaded v \<Rightarrow> Some (s\<lparr>tx_seq := v + 1, dat := Numbered v\<rparr>)
      | Numbered v \<Rightarrow> Some (s\<lparr>wire := wire s @ [v], f2_held := False, dat := Outside\<rparr>))"

text \<open>A credit comes with a received frame, which is read under the packet lock.\<close>

definition senders_step :: "turn \<Rightarrow> senders \<Rightarrow> senders option" where
  "senders_step t s =
     (case t of Ctl \<Rightarrow> ctl_step s | Dat \<Rightarrow> dat_step s
      | Credit c \<Rightarrow> if f2_held s then None else Some (s\<lparr>rx_max := c\<rparr>))"

fun senders_run :: "turn list \<Rightarrow> senders \<Rightarrow> senders option" where
  "senders_run [] s = Some s"
| "senders_run (t # ts) s = (case senders_step t s of None \<Rightarrow> None | Some s' \<Rightarrow> senders_run ts s')"

definition senders_init :: "u8 \<Rightarrow> u8 \<Rightarrow> senders" where
  "senders_init credit seq = \<lparr>tx_seq = seq, rx_max = credit, f2_held = False, wire = [], ctl = Outside, dat = Outside\<rparr>"

text \<open>One test of the credit at a time: a sender starts only when the other is outside.\<close>

definition exclusive :: "turn \<Rightarrow> senders \<Rightarrow> bool" where
  "exclusive t s \<longleftrightarrow> (t = Ctl \<and> ctl s = Outside \<longrightarrow> dat s = Outside) \<and> (t = Dat \<and> dat s = Outside \<longrightarrow> ctl s = Outside)"

fun exclusive_run :: "turn list \<Rightarrow> senders \<Rightarrow> bool" where
  "exclusive_run [] s \<longleftrightarrow> True"
| "exclusive_run (t # ts) s \<longleftrightarrow> exclusive t s \<and> (case senders_step t s of None \<Rightarrow> True | Some s' \<Rightarrow> exclusive_run ts s')"

section \<open>What the missing exclusion allows\<close>

lemma credit_numbers: "tx_credit 4 0" "tx_credit 4 1" "tx_credit 1 0" "tx_credit 1 2" "tx_credit 2 0" "\<not> tx_credit 1 1"
  by (simp_all add: tx_credit_def word_gt_0)

lemmas senders_simps = senders_step_def ctl_step_def dat_step_def senders_init_def credit_numbers


section \<open>What exclusion would give\<close>

definition numbered_from :: "u8 \<Rightarrow> u8 list \<Rightarrow> bool" where
  "numbered_from seq w \<longleftrightarrow> w = map (\<lambda>i. seq + of_nat i) [0..<length w]"

lemma numbered_snoc:
  assumes "numbered_from seq w"
  shows "numbered_from seq (w @ [seq + of_nat (length w)])"
proof -
  have "map (\<lambda>i. seq + of_nat i) [0..<length (w @ [seq + of_nat (length w)])]
      = map (\<lambda>i. seq + of_nat i) [0..<length w] @ [seq + of_nat (length w)]" by simp
  also have "\<dots> = w @ [seq + of_nat (length w)]" using assms unfolding numbered_from_def by (simp only: append_same_eq)
  finally show ?thesis by (simp only: numbered_from_def)
qed

text \<open>A sender inside holds the next number, and the shared one is that number, or the
  one behind it when it has been assigned.\<close>

fun place_ok :: "u8 \<Rightarrow> place \<Rightarrow> bool" where
  "place_ok n (Loaded v) \<longleftrightarrow> v = n"
| "place_ok n (Numbered v) \<longleftrightarrow> v = n"
| "place_ok n p \<longleftrightarrow> True"

fun bumped :: "place \<Rightarrow> u8" where
  "bumped (Numbered v) = 1"
| "bumped p = 0"

definition senders_inv :: "u8 \<Rightarrow> senders \<Rightarrow> bool" where
  "senders_inv seq s \<longleftrightarrow> numbered_from seq (wire s) \<and> (ctl s = Outside \<or> dat s = Outside)
     \<and> place_ok (seq + of_nat (length (wire s))) (ctl s) \<and> place_ok (seq + of_nat (length (wire s))) (dat s)
     \<and> tx_seq s = seq + of_nat (length (wire s)) + bumped (ctl s) + bumped (dat s)"

lemma senders_inv_step:
  assumes "senders_inv seq s" "exclusive t s" "senders_step t s = Some s'"
  shows "senders_inv seq s'"
proof (cases t)
  case Ctl
  then show ?thesis
    using assms numbered_snoc[of seq "wire s"]
    by (cases "ctl s") (auto simp: senders_inv_def senders_step_def ctl_step_def exclusive_def split: if_splits)
next
  case Dat
  then show ?thesis
    using assms numbered_snoc[of seq "wire s"]
    by (cases "dat s") (auto simp: senders_inv_def senders_step_def dat_step_def exclusive_def split: if_splits)
next
  case (Credit c)
  then show ?thesis using assms by (auto simp: senders_inv_def senders_step_def split: if_splits)
qed

text \<open>Under such an exclusion the numbers on the wire are consecutive, whatever the
  schedule.\<close>

lemma exclusive_in_order:
  "senders_run ts s = Some s' \<Longrightarrow> exclusive_run ts s \<Longrightarrow> senders_inv seq s \<Longrightarrow> numbered_from seq (wire s')"
proof (induction ts arbitrary: s)
  case Nil
  then show ?case by (simp add: senders_inv_def)
next
  case (Cons t ts)
  then obtain s1 where s1: "senders_step t s = Some s1" "senders_run ts s1 = Some s'" by (auto split: option.splits)
  have "exclusive t s" "exclusive_run ts s1" using Cons.prems(2) s1(1) by simp_all
  with Cons.IH[OF s1(2)] senders_inv_step[OF Cons.prems(3) _ s1(1)] show ?case by blast
qed

end
