(* ===== verification/CywFw.thy ===== *)
theory CywFw
  imports CywSdio
begin

text \<open>
  Firmware download of the CYW43455 driver (src/cyw43455_fw.c): the packing of the
  NVRAM text, the writing of the firmware and NVRAM images into the memory of
  the chip, the release of the core with the bring-up of function 2 and the
  wait for the firmware, and the upload of the CLM blob in chunks. The firmware(9)
  images and the answers of the chip are parameters.
\<close>

section \<open>Packing the NVRAM text\<close>

text \<open>The loop over the raw bytes: the packed buffer so far, whether the line is a
  comment and whether it is still empty. 13, 10 and 35 are the carriage return,
  the newline and the hash.\<close>

fun nv_loop :: "bytes \<Rightarrow> bytes \<Rightarrow> bool \<Rightarrow> bool \<Rightarrow> bytes" where
  "nv_loop [] buf in_comment at_bol = buf"
| "nv_loop (c # raw) buf in_comment at_bol =
     (if c = 13 then nv_loop raw buf in_comment at_bol
      else if c = 10 then
        nv_loop raw (if \<not> in_comment \<and> \<not> at_bol \<and> buf \<noteq> [] \<and> last buf \<noteq> 0 then buf @ [0] else buf) False True
      else if at_bol \<and> c = 35 then nv_loop raw buf True False
      else if in_comment then nv_loop raw buf in_comment False
      else nv_loop raw (buf @ [c]) in_comment False)"

text \<open>The final token is terminated, one more NUL ends the list (the buffer is
  allocated zeroed), and the result is padded to a multiple of four.\<close>

definition nv_terminate :: "bytes \<Rightarrow> bytes" where
  "nv_terminate buf = (if buf \<noteq> [] \<and> last buf \<noteq> 0 then buf @ [0] else buf)"

definition nv_pad :: "bytes \<Rightarrow> bytes" where
  "nv_pad buf = buf @ replicate (roundup (length buf) 4 - length buf) 0"

definition nv_token :: "nat \<Rightarrow> u32" where
  "nv_token buflen =
     (let nwords = (of_nat (buflen div 4) :: u32)
      in push_bit 16 (NOT nwords AND 0xffff) OR (nwords AND 0xffff))"

definition cyw_parse_nvram :: "bytes \<Rightarrow> bytes" where
  "cyw_parse_nvram raw =
     (let buf = nv_pad (nv_terminate (nv_loop raw [] False True) @ [0])
      in buf @ le32 (nv_token (length buf)))"

text \<open>The size of the allocation.\<close>

definition nv_alloc :: "nat \<Rightarrow> nat" where
  "nv_alloc rawlen = roundup (rawlen + 2) 4 + 4"

section \<open>A reference: lines, and the ones that count\<close>

fun split_lines :: "bytes \<Rightarrow> bytes \<Rightarrow> bytes list" where
  "split_lines cur [] = [cur]"
| "split_lines cur (c # raw) = (if c = 10 then cur # split_lines [] raw else split_lines (cur @ [c]) raw)"

definition nv_keep :: "bytes \<Rightarrow> bool" where
  "nv_keep l \<longleftrightarrow> l \<noteq> [] \<and> hd l \<noteq> 35"

definition nv_lines :: "bytes \<Rightarrow> bytes list" where
  "nv_lines raw = filter nv_keep (split_lines [] (filter (\<lambda>c. c \<noteq> 13) raw))"

definition nv_pack :: "bytes list \<Rightarrow> bytes" where
  "nv_pack ls = concat (map (\<lambda>l. l @ [0]) ls)"

lemma nv_pack_simps [simp]: "nv_pack [] = []" "nv_pack (l # ls) = l @ [0] @ nv_pack ls"
  by (simp_all add: nv_pack_def)

lemma nv_loop_no_cr: "nv_loop raw buf ic bol = nv_loop (filter (\<lambda>c. c \<noteq> 13) raw) buf ic bol"
  by (induction raw buf ic bol rule: nv_loop.induct) simp_all

lemma nv_keep_Nil [simp]: "\<not> nv_keep []"
  by (simp add: nv_keep_def)

lemma nv_keep_snoc: "nv_keep (cur @ [c]) \<longleftrightarrow> (if cur = [] then c \<noteq> 35 else nv_keep cur)"
  by (auto simp: nv_keep_def)

lemma nv_loop_lines:
  assumes "13 \<notin> set raw" "0 \<notin> set raw" "0 \<notin> set cur" "packed = [] \<or> last packed = 0"
  shows "nv_terminate (nv_loop raw (packed @ (if nv_keep cur then cur else [])) (cur \<noteq> [] \<and> \<not> nv_keep cur) (cur = []))
    = packed @ nv_pack (filter nv_keep (split_lines cur raw))"
  using assms
proof (induction raw arbitrary: cur packed)
  case Nil
  have "cur \<noteq> [] \<Longrightarrow> last cur \<noteq> 0" using Nil.prems(3) by (metis last_in_set)
  then show ?case using Nil.prems(4) by (auto simp: nv_terminate_def nv_keep_def)
next
  case (Cons c raw)
  have nz: "cur \<noteq> [] \<Longrightarrow> last cur \<noteq> 0" using Cons.prems(3) by (metis last_in_set)
  show ?case
  proof (cases "c = 10")
    case True
    have packed: "packed = [] \<or> last packed = 0" by (fact Cons.prems)
    show ?thesis
    proof (cases "nv_keep cur")
      case True
      have "nv_terminate (nv_loop raw ((packed @ cur @ [0]) @ []) False True)
          = (packed @ cur @ [0]) @ nv_pack (filter nv_keep (split_lines [] raw))"
        using Cons.IH[of "[]" "packed @ cur @ [0]"] Cons.prems by simp
      moreover have "cur \<noteq> []" using True by auto
      ultimately show ?thesis using True \<open>c = 10\<close> nz by simp
    next
      case False
      have "nv_terminate (nv_loop raw (packed @ []) False True)
          = packed @ nv_pack (filter nv_keep (split_lines [] raw))"
        using Cons.IH[of "[]" packed] Cons.prems by simp
      then show ?thesis using False \<open>c = 10\<close> packed by auto
    qed
  next
    case False
    have "nv_terminate (nv_loop raw (packed @ (if nv_keep (cur @ [c]) then cur @ [c] else []))
          (\<not> nv_keep (cur @ [c])) False)
        = packed @ nv_pack (filter nv_keep (split_lines (cur @ [c]) raw))"
      using Cons.IH[of "cur @ [c]" packed] Cons.prems by simp
    then show ?thesis using False Cons.prems(1) by (auto simp: nv_keep_snoc split: if_splits)
  qed
qed

lemma nv_content:
  assumes "0 \<notin> set raw"
  shows "nv_terminate (nv_loop raw [] False True) = nv_pack (nv_lines raw)"
  using nv_loop_lines[of "filter (\<lambda>c. c \<noteq> 13) raw" "[]" "[]"] assms
  by (simp add: nv_loop_no_cr[of raw] nv_lines_def nv_keep_def)

text \<open>The length word: the low half counts the words of what precedes it, the high
  half is its complement.\<close>

lemma nv_token_halves:
  "ucast (drop_bit 16 (nv_token n)) = (NOT (ucast (nv_token n)) :: u16)"
  "n div 4 < 2 ^ 16 \<Longrightarrow> unat (ucast (nv_token n) :: u16) = n div 4"
proof -
  have m: "(0xffff :: u32) = mask 16" by (simp add: mask_eq_exp_minus_1)
  have lo: "(ucast (nv_token n) :: u16) = ucast (of_nat (n div 4) :: u32)"
    unfolding nv_token_def Let_def m
    by (rule bit_word_eqI, goal_cases) (auto simp: bit_ucast_iff bit_or_iff bit_and_iff bit_push_bit_iff mask_bit32)
  have "(ucast (drop_bit 16 (nv_token n)) :: u16) = NOT (ucast (of_nat (n div 4) :: u32))"
    unfolding nv_token_def Let_def m
    by (rule bit_word_eqI, goal_cases)
      (auto simp: bit_ucast_iff bit_or_iff bit_and_iff bit_not_iff bit_push_bit_iff bit_drop_bit_eq mask_bit32)
  then show "ucast (drop_bit 16 (nv_token n)) = (NOT (ucast (nv_token n)) :: u16)" by (simp add: lo)
  assume "n div 4 < 2 ^ 16"
  then show "unat (ucast (nv_token n) :: u16) = n div 4"
    by (simp add: lo unsigned_ucast_eq unat_of_nat take_bit_nat_eq_self)
qed

lemma nv_loop_length: "length (nv_loop raw buf ic bol) \<le> length buf + length raw"
proof (induction raw buf ic bol rule: nv_loop.induct)
  case (2 c raw buf in_comment at_bol)
  then show ?case by (auto simp: Let_def split: if_splits)
qed simp

lemma nv_terminate_length: "length (nv_terminate buf) \<le> length buf + 1"
  by (simp add: nv_terminate_def)

lemma length_nv_pad: "length (nv_pad buf) = roundup (length buf) 4"
  using roundup_ge[of 4 "length buf"] by (simp add: nv_pad_def)

lemma roundup_mono: "m \<le> n \<Longrightarrow> roundup m a \<le> roundup n a"
  unfolding roundup_def by (intro mult_le_mono1 div_le_mono diff_le_mono add_le_mono1)

text \<open>The packed text within its allocation.\<close>

lemma parse_length: "length (cyw_parse_nvram raw) \<le> nv_alloc (length raw)"
proof -
  have "length (nv_terminate (nv_loop raw [] False True) @ [0]) \<le> length raw + 2"
    using nv_terminate_length[of "nv_loop raw [] False True"] nv_loop_length[of raw "[]" False True] by simp
  from roundup_mono[OF this, of 4] show ?thesis
    by (simp add: cyw_parse_nvram_def Let_def length_nv_pad nv_alloc_def)
qed

text \<open>Every byte the packer writes lies within its allocation, whatever the text
  holds: the length of the result, token included, is at most the size
  allocated from the length of the text alone.\<close>

theorem nvram_fits: "length (cyw_parse_nvram raw) \<le> nv_alloc (length raw)"
  by (rule parse_length)

text \<open>C19: On a text without NUL bytes the one-pass packer agrees with the reference: the
  lines, without carriage returns, that are neither empty nor comments, each
  followed by a NUL; then at least one more NUL, up to the next multiple of
  four; then the length word, whose halves are complements and whose low half is
  the number of words before it.\<close>

theorem nvram_packed:
  assumes "0 \<notin> set raw"
  shows "\<exists>k token. 1 \<le> k \<and> k \<le> 4 \<and> 4 dvd length (nv_pack (nv_lines raw)) + k
    \<and> cyw_parse_nvram raw = nv_pack (nv_lines raw) @ replicate k 0 @ le32 token
    \<and> ucast (drop_bit 16 token) = (NOT (ucast token) :: u16)
    \<and> (length raw < 0x3fff0 \<longrightarrow> 4 * unat (ucast token :: u16) = length (nv_pack (nv_lines raw)) + k)"
proof -
  define content where "content = nv_pack (nv_lines raw)"
  define size where "size = roundup (length content + 1) 4"
  have size: "length content + 1 \<le> size" "size < length content + 1 + 4" "4 dvd size"
    unfolding size_def by (rule roundup_ge, simp) (rule roundup_less, simp, rule roundup_dvd)
  have pad: "nv_pad (content @ [0]) = content @ replicate (size - length content) 0"
  proof -
    have "size - length content = Suc (size - (length content + 1))" using size(1) by simp
    then show ?thesis by (simp add: nv_pad_def size_def)
  qed
  have parse: "cyw_parse_nvram raw = content @ replicate (size - length content) 0 @ le32 (nv_token size)"
    unfolding cyw_parse_nvram_def nv_content[OF assms] content_def[symmetric] pad Let_def
    using size(1) by simp
  have "size \<le> nv_alloc (length raw)" using parse_length[of raw] size(1) by (simp add: parse)
  then have "length raw < 0x3fff0 \<Longrightarrow> size div 4 < 2 ^ 16"
    using roundup_less[of 4 "length raw + 2"] by (simp add: nv_alloc_def)
  then have token: "length raw < 0x3fff0 \<Longrightarrow> 4 * unat (ucast (nv_token size) :: u16) = size"
    using nv_token_halves(2)[of size] size(3) by simp
  show ?thesis
    unfolding content_def[symmetric]
    by (rule exI[of _ "size - length content"], rule exI[of _ "nv_token size"])
      (use size parse token nv_token_halves(1)[of size] in auto)
qed

text \<open>The lines "#c", "a=1", an empty one and "b", with carriage returns.\<close>

theorem nvram_packed_witness:
  "\<exists>k token. cyw_parse_nvram [35, 99, 13, 10, 97, 61, 49, 10, 13, 10, 98] = [97, 61, 49, 0, 98, 0] @ replicate k 0 @ le32 token
    \<and> 1 \<le> k"
proof -
  have "nv_pack (nv_lines [35, 99, 13, 10, 97, 61, 49, 10, 13, 10, 98]) = [97, 61, 49, 0, 98, 0]"
    by (simp add: nv_lines_def nv_keep_def)
  moreover have "(0 :: u8) \<notin> set [35, 99, 13, 10, 97, 61, 49, 10, 13, 10, 98]" by simp
  ultimately show ?thesis using nvram_packed by metis
qed

section \<open>Writing the images\<close>

text \<open>The images the firmware subsystem finds, or None; the debug flag for the read
  back; what a failing read answers; the geometry found by the attach; the
  outcome of forcing the clock and of enabling function 2; the values two
  control registers hold; and what read i of the mailbox answers.\<close>

record fw_env =
  fw_image :: "bytes option"
  nv_image :: "bytes option"
  dbg_fw :: bool
  bad_word :: u32
  fw_ram_base :: u32
  fw_ram_size :: u32
  fw_core_base :: u32
  force_ht_rc :: rc
  f2_rc :: rc
  devctl_val :: u8
  wakeup_val :: u8
  fw_sr_capable :: bool
  tohost :: "nat \<Rightarrow> u32"

definition fw_readback :: "fw_env \<Rightarrow> sdio \<Rightarrow> sdio" where
  "fw_readback env s =
     (if dbg_fw env
      then bp_ops (bad_word env) [BpRead CYW_RAM_BASE, BpRead (CYW_RAM_BASE + 4), BpRead (CYW_RAM_BASE + 8),
             BpRead (CYW_RAM_BASE + 0x40)] s
      else s)"

text \<open>The answer is the reset vector.\<close>

definition cyw_fw_images_write :: "fw_env \<Rightarrow> sdio \<Rightarrow> u32 result \<times> sdio" where
  "cyw_fw_images_write env s =
     (case fw_image env of
        None \<Rightarrow> (Inl ENOENT, s)
      | Some fw \<Rightarrow>
          if length fw < 4 then (Inl EFTYPE, s)
          else if unat (fw_ram_size env) < length fw then (Inl EFBIG, s)
          else let rstvec = rd_le32 fw 0;
                   (r, s) = cyw_bp_write_block CYW_RAM_BASE fw s
               in case r of
                    Some e \<Rightarrow> (Inl e, s)
                  | None \<Rightarrow>
                      let s = fw_readback env s
                      in case nv_image env of
                           None \<Rightarrow> (Inl ENOENT, s)
                         | Some nv \<Rightarrow>
                             if nv = [] then (Inl EFTYPE, s)
                             else let nvram = cyw_parse_nvram nv;
                                      nvram_addr = fw_ram_base env + fw_ram_size env - of_nat (length nvram);
                                      (r, s) = cyw_bp_write_block nvram_addr nvram s
                                  in case r of
                                       Some e \<Rightarrow> (Inl e, s)
                                     | None \<Rightarrow> (Inr rstvec, s))"

section \<open>The write sequences on a bus without faults\<close>

text \<open>Each access leaves the window coherent and the bus without faults; a write
  stores its four bytes and a read nothing.\<close>

primrec op_mem :: "bp_op \<Rightarrow> (u32 \<Rightarrow> u8) \<Rightarrow> (u32 \<Rightarrow> u8)" where
  "op_mem (BpWrite a v) m = store_bytes a (le32 v) m"
| "op_mem (BpRead a) m = m"

lemma bp_do_ok:
  assumes "faults s = []" "coherent s"
  shows "faults (bp_do bad opn s) = [] \<and> coherent (bp_do bad opn s) \<and> bp_mem (bp_do bad opn s) = op_mem opn (bp_mem s)"
  using bp_write32_ok[OF assms] bp_read32_ok[OF assms] by (cases opn) simp_all

lemma bp_ops_ok:
  assumes "faults s = []" "coherent s"
  shows "faults (bp_ops bad os s) = [] \<and> coherent (bp_ops bad os s) \<and> bp_mem (bp_ops bad os s) = fold op_mem os (bp_mem s)"
  using assms
proof (induction os arbitrary: s)
  case (Cons opn os)
  then show ?case using bp_do_ok[OF Cons.prems, of bad opn] by (simp add: bp_ops_def)
qed (simp add: bp_ops_def)

lemma write_block_ok:
  assumes "faults s = []" "coherent s" "length buf \<le> 2 ^ 32"
  shows "\<exists>s'. cyw_bp_write_block addr buf s = (ok, s') \<and> bp_mem s' = store_bytes addr buf (bp_mem s)
    \<and> coherent s' \<and> faults s' = []"
  using write_block_loop_ok[OF assms(1,2), of 0 buf addr "bp_mem s"] assms(3)
  by (simp add: cyw_bp_write_block_def)

lemma fold_reads: "fold op_mem (map BpRead as) m = m"
  by (induction as) simp_all

lemma fw_readback_ok:
  assumes "faults s = []" "coherent s"
  shows "faults (fw_readback env s) = [] \<and> coherent (fw_readback env s) \<and> bp_mem (fw_readback env s) = bp_mem s"
  using bp_ops_ok[OF assms] assms by (simp add: fw_readback_def)

lemma images_write_ok:
  assumes "faults s = []" "coherent s" "fw_image env = Some fw" "nv_image env = Some nv"
    and "4 \<le> length fw" "length fw \<le> unat (fw_ram_size env)" "nv \<noteq> []" "nv_alloc (length nv) \<le> 2 ^ 32"
  shows "\<exists>s'. cyw_fw_images_write env s = (Inr (rd_le32 fw 0), s') \<and> coherent s' \<and> faults s' = []
    \<and> bp_mem s' = store_bytes (fw_ram_base env + fw_ram_size env - of_nat (length (cyw_parse_nvram nv))) (cyw_parse_nvram nv)
         (store_bytes CYW_RAM_BASE fw (bp_mem s))"
proof -
  have "unat (fw_ram_size env) < 2 ^ LENGTH(32)" by (rule unsigned_less)
  then have "length fw \<le> 2 ^ 32" using assms(6) by simp
  from write_block_ok[OF assms(1,2) this, of CYW_RAM_BASE] obtain s1
    where s1: "cyw_bp_write_block CYW_RAM_BASE fw s = (ok, s1)" "bp_mem s1 = store_bytes CYW_RAM_BASE fw (bp_mem s)"
      "coherent s1" "faults s1 = []" by blast
  define s2 where "s2 = fw_readback env s1"
  have s2: "faults s2 = []" "coherent s2" "bp_mem s2 = store_bytes CYW_RAM_BASE fw (bp_mem s)"
    using fw_readback_ok[OF s1(4,3), of env] s1(2) by (simp_all add: s2_def)
  define nvram where "nvram = cyw_parse_nvram nv"
  define addr where "addr = fw_ram_base env + fw_ram_size env - of_nat (length nvram)"
  have "length nvram \<le> 2 ^ 32" using parse_length[of nv] assms(8) by (simp add: nvram_def)
  from write_block_ok[OF s2(1,2) this, of addr] obtain s3
    where s3: "cyw_bp_write_block addr nvram s2 = (ok, s3)" "bp_mem s3 = store_bytes addr nvram (bp_mem s2)"
      "coherent s3" "faults s3 = []" by blast
  have "cyw_fw_images_write env s = (Inr (rd_le32 fw 0), s3)"
    using assms(3-7) s1(1) s3(1)
    by (simp add: cyw_fw_images_write_def Let_def s2_def[symmetric] nvram_def[symmetric] addr_def[symmetric])
  then show ?thesis using s2(3) s3 by (auto simp: nvram_def addr_def)
qed

lemma unat_of_nat_diff:
  assumes "a < 2 ^ 32" "b < 2 ^ 32"
  shows "unat (of_nat a - of_nat b :: u32) = (if b \<le> a then a - b else a + 2 ^ 32 - b)"
proof -
  have "unat (of_nat a :: u32) = a" "unat (of_nat b :: u32) = b"
    using assms by (simp_all add: unat_of_nat take_bit_nat_eq_self)
  then show ?thesis by (simp add: unat_sub_if_size word_size del: of_nat_diff)
qed

lemma fw_images_stored_layout:
  assumes "faults s = []" "coherent s" "fw_image env = Some fw" "nv_image env = Some nv" "nv \<noteq> []"
    and "4 \<le> length fw" "length fw \<le> unat (fw_ram_size env)" "fw_ram_base env = CYW_RAM_BASE"
    and "nvram = cyw_parse_nvram nv" "nv_alloc (length nv) \<le> unat (fw_ram_size env)"
    and "top_off = unat (fw_ram_size env) - length nvram"
    and "cyw_fw_images_write env s = (r, s')"
  shows "r = Inr (rd_le32 fw 0) \<and> (\<forall>i<length nvram. bp_mem s' (CYW_RAM_BASE + of_nat (top_off + i)) = nvram ! i)
    \<and> (\<forall>i<length fw. bp_mem s' (CYW_RAM_BASE + of_nat i) = (if i < top_off then fw ! i else nvram ! (i - top_off)))"
proof -
  let ?n = "length nvram" and ?size = "unat (fw_ram_size env)"
  have fits: "?n \<le> ?size" using parse_length[of nv] assms(9,10) by simp
  have size: "?size < 2 ^ LENGTH(32)" by (rule unsigned_less)
  have "nv_alloc (length nv) \<le> 2 ^ 32" using assms(10) size by simp
  from images_write_ok[OF assms(1-4,6,7,5) this]
    have s': "r = Inr (rd_le32 fw 0)"
      "bp_mem s' = store_bytes (CYW_RAM_BASE + fw_ram_size env - of_nat ?n) nvram (store_bytes CYW_RAM_BASE fw (bp_mem s))"
    by (auto simp: assms(8,9,12))
  have "fw_ram_size env - of_nat ?n = (of_nat top_off :: u32)"
    using fits by (simp add: assms(11) of_nat_diff word_of_nat_eq_iff)
  then have a: "CYW_RAM_BASE + fw_ram_size env - of_nat ?n = CYW_RAM_BASE + of_nat top_off"
    by (simp add: add_diff_eq[symmetric])
  have off: "CYW_RAM_BASE + of_nat i - (CYW_RAM_BASE + of_nat top_off) = of_nat i - (of_nat top_off :: u32)" for i
    by simp
  have base: "CYW_RAM_BASE + of_nat i - CYW_RAM_BASE = (of_nat i :: u32)" for i by simp
  have u: "unat (of_nat i :: u32) = i" if "i < ?size" for i
    using that size by (simp add: unat_of_nat take_bit_nat_eq_self)
  have sum: "top_off + ?n = ?size" using fits assms(11) by simp
  have d1: "unat (of_nat (top_off + i) - of_nat top_off :: u32) = i" if "i < ?n" for i
    using that sum size by (subst unat_of_nat_diff) simp_all
  have d2: "unat (of_nat i - of_nat top_off :: u32) = (if top_off \<le> i then i - top_off else i + 2 ^ 32 - top_off)"
    if "i < length fw" for i
    using that sum size assms(7) by (subst unat_of_nat_diff) simp_all
  have "\<forall>i<?n. bp_mem s' (CYW_RAM_BASE + of_nat (top_off + i)) = nvram ! i"
    unfolding s'(2) a store_bytes_def off using d1 by simp
  moreover have "\<forall>i<length fw. bp_mem s' (CYW_RAM_BASE + of_nat i) = (if i < top_off then fw ! i else nvram ! (i - top_off))"
    unfolding s'(2) a store_bytes_def off base using d2 u sum size assms(7) by auto
  ultimately show ?thesis using s'(1) by auto
qed

text \<open>On a bus without faults, and with images of which each fits the memory, the
  download succeeds and answers the first word of the firmware as the reset
  vector. The NVRAM then lies at the very top of the memory, and the firmware
  at its base as far as the NVRAM does not cover it: the two sizes are never
  compared together, and where they exceed the memory the end of the firmware
  is overwritten, with success reported all the same.\<close>

theorem fw_images_stored:
  assumes "faults s = []" "coherent s" "fw_image env = Some fw" "nv_image env = Some nv" "nv \<noteq> []"
    and "4 \<le> length fw" "length fw \<le> unat (fw_ram_size env)" "fw_ram_base env = CYW_RAM_BASE"
    and "nvram = cyw_parse_nvram nv" "nv_alloc (length nv) \<le> unat (fw_ram_size env)"
    and "top_off = unat (fw_ram_size env) - length nvram"
  shows "\<exists>s'. cyw_fw_images_write env s = (Inr (rd_le32 fw 0), s')
    \<and> (\<forall>i<length nvram. bp_mem s' (CYW_RAM_BASE + of_nat (top_off + i)) = nvram ! i)
    \<and> (\<forall>i<length fw. bp_mem s' (CYW_RAM_BASE + of_nat i) = (if i < top_off then fw ! i else nvram ! (i - top_off)))"
  using fw_images_stored_layout[OF assms surjective_pairing]
  by (intro exI[of _ "snd (cyw_fw_images_write env s)"]) (auto intro: prod_eqI)

theorem fw_images_stored_witness:
  "\<exists>s'. bp_mem s' (CYW_RAM_BASE + 1) = 2 \<and> bp_mem s' (CYW_RAM_BASE + 2) = 97
    \<and> (\<exists>env. cyw_fw_images_write env fresh_sdio = (Inr (rd_le32 [1, 2, 3, 4] 0), s'))"
proof -
  define env where "env = \<lparr>fw_image = Some [1, 2, 3, 4], nv_image = Some [97], dbg_fw = True, bad_word = 0,
    fw_ram_base = CYW_RAM_BASE, fw_ram_size = 10, fw_core_base = 0, force_ht_rc = ok, f2_rc = ok, devctl_val = 0,
    wakeup_val = 0, fw_sr_capable = True, tohost = (\<lambda>_. 8)\<rparr>"
  have p: "cyw_parse_nvram [97] = [97, 0, 0, 0] @ le32 (nv_token 4)"
    by (simp add: cyw_parse_nvram_def nv_terminate_def nv_pad_def roundup_def Let_def nv_token_def)
  have t: "(2 :: nat) = unat (fw_ram_size env) - length (cyw_parse_nvram [97])"
    by (simp add: p) (simp add: env_def)
  obtain s' where s': "cyw_fw_images_write env fresh_sdio = (Inr (rd_le32 [1, 2, 3, 4] 0), s')"
    "\<forall>i<length [1 :: u8, 2, 3, 4]. bp_mem s' (CYW_RAM_BASE + of_nat i)
          = (if i < 2 then [1, 2, 3, 4] ! i else cyw_parse_nvram [97] ! (i - 2))"
    using fw_images_stored[OF fresh_coherent(2,1), of env "[1, 2, 3, 4]" "[97]", OF _ _ _ _ _ _ refl _ t]
    by (auto simp: nv_alloc_def roundup_def) (auto simp: env_def)
  have "bp_mem s' (CYW_RAM_BASE + 1) = 2" "bp_mem s' (CYW_RAM_BASE + 2) = 97"
    using s'(2)[rule_format, of 1] s'(2)[rule_format, of 2] by (simp_all add: p)
  then show ?thesis using s'(1) by blast
qed

section \<open>Bringing up function 2 and waiting for the firmware\<close>

text \<open>The backplane, whether function 2 is enabled, and the writes to the registers
  of function 1.\<close>

record fw_chip =
  sd :: sdio
  f2_on :: bool
  f1_log :: "(u32 \<times> u8) list"

definition f1_put :: "u32 \<Rightarrow> u8 \<Rightarrow> fw_chip \<Rightarrow> fw_chip" where
  "f1_put a v c = c\<lparr>f1_log := f1_log c @ [(a, v)]\<rparr>"

definition bp_put :: "u32 \<Rightarrow> u32 \<Rightarrow> fw_chip \<Rightarrow> fw_chip" where
  "bp_put a v c = c\<lparr>sd := cyw_bp_write32 a v (sd c)\<rparr>"

definition SD_REG_HOSTINTMASK :: u32 where "SD_REG_HOSTINTMASK = 0x24"

definition SD_REG_TOSBMAILBOXDATA :: u32 where "SD_REG_TOSBMAILBOXDATA = 0x48"

definition SD_REG_TOHOSTMAILBOXDATA :: u32 where "SD_REG_TOHOSTMAILBOXDATA = 0x4c"

definition HMB_DATA_FWREADY :: u32 where "HMB_DATA_FWREADY = 8"

definition SBSDIO_FUNC1_CHIPCLKCSR :: u32 where "SBSDIO_FUNC1_CHIPCLKCSR = 0x1000e"

definition SBSDIO_FORCE_HT :: u8 where "SBSDIO_FORCE_HT = 2"

definition cyw_f2_bringup :: "fw_env \<Rightarrow> fw_chip \<Rightarrow> rc \<times> fw_chip" where
  "cyw_f2_bringup env c =
     (let c = f1_put SBSDIO_FUNC1_CHIPCLKCSR SBSDIO_FORCE_HT c in
      if force_ht_rc env \<noteq> ok then (force_ht_rc env, c)
      else
        let c = (if fw_core_base env \<noteq> 0
                 then bp_put (fw_core_base env + SD_REG_TOSBMAILBOXDATA) (push_bit 16 4) c else c)
        in if f2_rc env \<noteq> ok then (f2_rc env, c)
        else
          let c = c\<lparr>f2_on := True\<rparr>;
              c = f1_put 0x10008 0x40 c;
              c = f1_put 0x10009 (devctl_val env OR 0x10) c;
              c = f1_put 0x1001d 0xc0 c
          in (ok, c))"

definition cyw_sr_init :: "fw_env \<Rightarrow> fw_chip \<Rightarrow> fw_chip" where
  "cyw_sr_init env c =
     (if \<not> fw_sr_capable env then c
      else f1_put SBSDIO_FUNC1_CHIPCLKCSR SBSDIO_FORCE_HT (f1_put 0x1001e (wakeup_val env OR push_bit 1 1) c))"

text \<open>At most n polls of the mailbox from poll i on. Running out of them is only
  logged.\<close>

fun fw_handshake :: "fw_env \<Rightarrow> nat \<Rightarrow> nat \<Rightarrow> fw_chip \<Rightarrow> fw_chip" where
  "fw_handshake env i 0 c = c"
| "fw_handshake env i (Suc n) c =
     (let c = c\<lparr>sd := bp_ops (bad_word env) [BpRead (fw_core_base env + SD_REG_TOHOSTMAILBOXDATA),
                        BpRead (fw_core_base env + SD_REG_INTSTATUS)] (sd c)\<rparr>
      in if tohost env i AND HMB_DATA_FWREADY \<noteq> 0 then c else fw_handshake env (i + 1) n c)"

definition cyw_fw_download :: "fw_env \<Rightarrow> fw_chip \<Rightarrow> rc \<times> fw_chip" where
  "cyw_fw_download env c =
     (let (r, s) = cyw_fw_images_write env (sd c); c = c\<lparr>sd := s\<rparr> in
      case r of
        Inl e \<Rightarrow> (fail e, c)
      | Inr rstvec \<Rightarrow>
          let c = c\<lparr>sd := cyw_arm_release (bad_word env) (fw_core_base env) rstvec (sd c)\<rparr>;
              (r, c) = cyw_f2_bringup env c
          in if r \<noteq> ok then (r, c)
          else
            let c = cyw_sr_init env c
            in if fw_core_base env = 0 then (ok, c)
            else (ok, fw_handshake env 0 200 (bp_put (fw_core_base env + SD_REG_HOSTINTMASK) 0x200000f0 c)))"

section \<open>What the core starts on\<close>

lemma store_keeps_below:
  assumes "unat x < unat a" "unat a + length bs \<le> 2 ^ 32"
  shows "store_bytes a bs m x = m x"
proof -
  have "unat (x - a) = unat x + 2 ^ 32 - unat a" using assms(1) by (simp add: unat_sub_if_size word_size)
  then have "length bs \<le> unat (x - a)" using assms by simp
  then show ?thesis by (simp add: store_bytes_def)
qed

lemma store_keeps_above:
  assumes "unat a + length bs \<le> unat x"
  shows "store_bytes a bs m x = m x"
proof -
  have "unat (x - a) = unat x - unat a" using assms by (simp add: unat_sub_if_size)
  then have "length bs \<le> unat (x - a)" using assms by simp
  then show ?thesis by (simp add: store_bytes_def)
qed

text \<open>A word and a range of addresses that no write of a sequence touches.\<close>

definition op_misses :: "(nat \<Rightarrow> bool) \<Rightarrow> bp_op \<Rightarrow> bool" where
  "op_misses R opn = (case opn of BpRead a \<Rightarrow> True
     | BpWrite a v \<Rightarrow> unat a + 4 \<le> 2 ^ 32 \<and> (\<forall>x. R x \<longrightarrow> x < unat a \<or> unat a + 4 \<le> x))"

lemma op_misses_simps [simp]:
  "op_misses R (BpRead a)"
  "op_misses R (BpWrite a v) \<longleftrightarrow> unat a + 4 \<le> 2 ^ 32 \<and> (\<forall>x. R x \<longrightarrow> x < unat a \<or> unat a + 4 \<le> x)"
  by (simp_all add: op_misses_def)

lemma op_mem_misses:
  assumes "op_misses R opn" "R (unat x)"
  shows "op_mem opn m x = m x"
proof (cases opn)
  case (BpWrite a v)
  then have "unat x < unat a \<or> unat a + 4 \<le> unat x" and "unat a + 4 \<le> 2 ^ 32" using assms by auto
  then show ?thesis
    using BpWrite store_keeps_below[of x a "le32 v" m] store_keeps_above[of a "le32 v" x m] by auto
qed simp

lemma fold_misses:
  assumes "list_all (op_misses R) os" "R (unat x)"
  shows "fold op_mem os m x = m x"
  using assms by (induction os arbitrary: m) (simp_all add: op_mem_misses[of R])

definition in_word :: "u32 \<Rightarrow> nat \<Rightarrow> bool" where
  "in_word a x \<longleftrightarrow> unat a \<le> x \<and> x < unat a + 4"

lemma fold_misses_word:
  assumes "list_all (op_misses (in_word a)) os" "unat a + 4 \<le> 2 ^ 32"
  shows "load32 (fold op_mem os m) a = load32 m a"
proof -
  have "unat (a + of_nat i) = unat a + i" if "i < 4" for i
    using that assms(2) by (simp add: unat_word_ariths unat_of_nat take_bit_nat_eq_self)
  then have "in_word a (unat (a + of_nat i))" if "i < 4" for i using that by (simp add: in_word_def)
  then have eq: "fold op_mem os m (a + of_nat i) = m (a + of_nat i)" if "i < 4" for i
    using that fold_misses[OF assms(1)] by blast
  show ?thesis using eq[of 0] eq[of 1] eq[of 2] eq[of 3] by (simp add: load32_def)
qed

lemma fw_handshake_ok:
  assumes "faults (sd c) = []" "coherent (sd c)"
  shows "bp_mem (sd (fw_handshake env i n c)) = bp_mem (sd c)
    \<and> f2_on (fw_handshake env i n c) = f2_on c"
  using assms
proof (induction n arbitrary: i c)
  case (Suc n)
  let ?reads = "[BpRead (fw_core_base env + SD_REG_TOHOSTMAILBOXDATA), BpRead (fw_core_base env + SD_REG_INTSTATUS)]"
  note o = bp_ops_ok[OF Suc.prems, of "bad_word env" ?reads]
  then show ?case using Suc.IH[of "c\<lparr>sd := bp_ops (bad_word env) ?reads (sd c)\<rparr>"] by (simp add: Let_def)
qed simp

text \<open>The accesses of a successful download after the images, in order, up to the
  reads of the wait.\<close>

definition boot_ops :: "fw_env \<Rightarrow> u32 \<Rightarrow> bp_op list" where
  "boot_ops env rstvec = arm_release_ops (fw_core_base env) rstvec
     @ (if fw_core_base env \<noteq> 0 then [BpWrite (fw_core_base env + SD_REG_TOSBMAILBOXDATA) (push_bit 16 4),
          BpWrite (fw_core_base env + SD_REG_HOSTINTMASK) 0x200000f0] else [])"

lemma f1_put_fields [simp]: "sd (f1_put a v c) = sd c" "f2_on (f1_put a v c) = f2_on c"
  by (simp_all add: f1_put_def)

lemma sr_init_fields [simp]: "sd (cyw_sr_init env c) = sd c" "f2_on (cyw_sr_init env c) = f2_on c"
  by (simp_all add: cyw_sr_init_def)

lemma f2_bringup_ok:
  assumes "force_ht_rc env = ok" "f2_rc env = ok"
  shows "\<exists>c'. cyw_f2_bringup env c = (ok, c') \<and> f2_on c' \<and> sd c' = (if fw_core_base env \<noteq> 0
    then cyw_bp_write32 (fw_core_base env + SD_REG_TOSBMAILBOXDATA) (push_bit 16 4) (sd c) else sd c)"
  using assms by (simp add: cyw_f2_bringup_def bp_put_def Let_def del: push_bit_numeral)

lemma fw_download_ok:
  assumes "cyw_fw_images_write env (sd c) = (Inr rstvec, s')" "faults s' = []" "coherent s'"
    and "force_ht_rc env = ok" "f2_rc env = ok"
  shows "\<exists>c'. cyw_fw_download env c = (ok, c') \<and> f2_on c' \<and> bp_mem (sd c') = fold op_mem (boot_ops env rstvec) (bp_mem s')"
proof -
  define s2 where "s2 = cyw_arm_release (bad_word env) (fw_core_base env) rstvec s'"
  have s2: "faults s2 = []" "coherent s2" "bp_mem s2 = fold op_mem (arm_release_ops (fw_core_base env) rstvec) (bp_mem s')"
    using bp_ops_ok[OF assms(2,3)] by (simp_all add: s2_def cyw_arm_release_def)
  obtain c3 where c3: "cyw_f2_bringup env (c\<lparr>sd := s2\<rparr>) = (ok, c3)" "f2_on c3"
    "sd c3 = (if fw_core_base env \<noteq> 0
       then cyw_bp_write32 (fw_core_base env + SD_REG_TOSBMAILBOXDATA) (push_bit 16 4) s2 else s2)"
    using f2_bringup_ok[OF assms(4,5), of "c\<lparr>sd := s2\<rparr>"] by auto
  define c4 where "c4 = cyw_sr_init env c3"
  have run: "cyw_fw_download env c = (ok, if fw_core_base env = 0 then c4
      else fw_handshake env 0 200 (bp_put (fw_core_base env + SD_REG_HOSTINTMASK) 0x200000f0 c4))"
    using assms(1) c3(1) by (simp add: cyw_fw_download_def Let_def s2_def[symmetric] c4_def)
  show ?thesis
  proof (cases "fw_core_base env = 0")
    case True
    then show ?thesis using run c3 s2 by (simp add: c4_def boot_ops_def)
  next
    case False
    define s3 where "s3 = cyw_bp_write32 (fw_core_base env + SD_REG_TOSBMAILBOXDATA) (push_bit 16 4) s2"
    define s4 where "s4 = cyw_bp_write32 (fw_core_base env + SD_REG_HOSTINTMASK) 0x200000f0 s3"
    note w3 = bp_write32_ok[OF s2(1,2), of "fw_core_base env + SD_REG_TOSBMAILBOXDATA" "push_bit 16 4", folded s3_def]
    then have s4: "faults s4 = []" "coherent s4" "bp_mem s4 = fold op_mem (boot_ops env rstvec) (bp_mem s')"
      using bp_write32_ok[of s3 "fw_core_base env + SD_REG_HOSTINTMASK" "0x200000f0", folded s4_def] s2(3) False
      by (simp_all add: boot_ops_def del: push_bit_numeral)
    define c5 where "c5 = bp_put (fw_core_base env + SD_REG_HOSTINTMASK) 0x200000f0 c4"
    have c5: "sd c5 = s4" "f2_on c5"
      using c3 False by (simp_all add: c5_def bp_put_def c4_def s4_def s3_def)
    then show ?thesis using run False fw_handshake_ok[of c5 env 0 200] s4 by (simp add: c5_def)
  qed
qed

definition core_ok :: "u32 \<Rightarrow> bool" where
  "core_ok base \<longleftrightarrow> base = 0 \<or> 0x18000000 \<le> unat base \<and> unat base \<le> 0x180ff000"

lemma core_reg:
  assumes "core_ok base" "base \<noteq> 0" "unat off \<le> 0x100"
  shows "unat (base + off) = unat base + unat off"
  using assms by (simp add: core_ok_def unat_word_ariths)

lemmas boot_addrs = CYW_SI_ENUM_BASE_def CYW_ARM_WRAP_BASE_def CC_CHIPCTL_ADDR_def CC_CHIPCTL_DATA_def BCMA_IOCTL_def
  BCMA_RESET_CTL_def

lemmas sd_regs = SD_REG_INTSTATUS_def SD_REG_HOSTINTMASK_def SD_REG_TOSBMAILBOXDATA_def

text \<open>The accesses after the reset vector is stored, and after the core is released.\<close>

definition release_tail :: "bp_op list" where
  "release_tail =
     [BpWrite (CYW_ARM_WRAP_BASE + BCMA_IOCTL) (BCMA_IOCTL_FGC OR BCMA_IOCTL_CLK OR BCMA_IOCTL_CPUHALT),
      BpRead (CYW_ARM_WRAP_BASE + BCMA_IOCTL),
      BpWrite (CYW_ARM_WRAP_BASE + BCMA_RESET_CTL) BCMA_RESET_CTL_RESET,
      BpWrite (CYW_ARM_WRAP_BASE + BCMA_IOCTL) BCMA_IOCTL_CPUHALT,
      BpWrite (CYW_ARM_WRAP_BASE + BCMA_IOCTL) (BCMA_IOCTL_FGC OR BCMA_IOCTL_CLK),
      BpRead (CYW_ARM_WRAP_BASE + BCMA_IOCTL)]"

definition release_end :: "bp_op list" where
  "release_end =
     [BpWrite (CYW_ARM_WRAP_BASE + BCMA_RESET_CTL) 0, BpWrite (CYW_ARM_WRAP_BASE + BCMA_IOCTL) BCMA_IOCTL_CLK]"

definition after_release :: "fw_env \<Rightarrow> bp_op list" where
  "after_release env =
     [BpRead (CYW_ARM_WRAP_BASE + BCMA_IOCTL), BpRead (CYW_ARM_WRAP_BASE + BCMA_IOCTL),
      BpRead (CYW_ARM_WRAP_BASE + BCMA_RESET_CTL)]
     @ (if fw_core_base env \<noteq> 0 then [BpWrite (fw_core_base env + SD_REG_TOSBMAILBOXDATA) (push_bit 16 4),
          BpWrite (fw_core_base env + SD_REG_HOSTINTMASK) 0x200000f0] else [])"

definition before_vector :: "fw_env \<Rightarrow> bp_op list" where
  "before_vector env =
     [BpWrite (CYW_SI_ENUM_BASE + CC_CHIPCTL_ADDR) 4, BpWrite (CYW_SI_ENUM_BASE + CC_CHIPCTL_DATA) 2]
     @ (if fw_core_base env \<noteq> 0 then [BpWrite (fw_core_base env + SD_REG_INTSTATUS) 0xFFFFFFFF] else [])"

lemma boot_ops_split:
  "boot_ops env rstvec = before_vector env @ (if rstvec \<noteq> 0 then [BpWrite 0 rstvec] else [])
     @ release_tail @ release_end @ after_release env"
  by (simp add: boot_ops_def arm_release_ops_def before_vector_def release_tail_def release_end_def after_release_def
      del: push_bit_numeral)

lemmas boot_lists = before_vector_def release_tail_def release_end_def after_release_def

lemma misses_ram:
  assumes "core_ok (fw_core_base env)"
  shows "list_all (op_misses (\<lambda>x. 0x198000 \<le> x \<and> x < 0x18000000)) (boot_ops env rstvec)"
  using assms core_reg[OF assms]
  by (auto simp: boot_ops_split boot_lists boot_addrs sd_regs core_ok_def simp del: push_bit_numeral)

lemma misses_vector:
  assumes "core_ok (fw_core_base env)"
  shows "list_all (op_misses (in_word 0)) (release_tail @ release_end @ after_release env)"
  using assms core_reg[OF assms]
  by (auto simp: boot_lists boot_addrs sd_regs core_ok_def in_word_def simp del: push_bit_numeral)

lemma misses_arm:
  assumes "core_ok (fw_core_base env)" "a \<in> {0x18102408, 0x18102800}"
  shows "list_all (op_misses (in_word a)) (after_release env)"
  using assms core_reg[OF assms(1)]
  by (auto simp: boot_lists boot_addrs sd_regs core_ok_def in_word_def simp del: push_bit_numeral)

lemma boot_effect:
  assumes "core_ok (fw_core_base env)"
  shows "0x198000 \<le> unat x \<Longrightarrow> unat x < 0x18000000 \<Longrightarrow> fold op_mem (boot_ops env rstvec) m x = m x"
    and "rstvec \<noteq> 0 \<Longrightarrow> load32 (fold op_mem (boot_ops env rstvec) m) 0 = rstvec"
    and "load32 (fold op_mem (boot_ops env rstvec) m) (CYW_ARM_WRAP_BASE + BCMA_IOCTL) = BCMA_IOCTL_CLK"
    and "load32 (fold op_mem (boot_ops env rstvec) m) (CYW_ARM_WRAP_BASE + BCMA_RESET_CTL) = 0"
proof -
  show "0x198000 \<le> unat x \<Longrightarrow> unat x < 0x18000000 \<Longrightarrow> fold op_mem (boot_ops env rstvec) m x = m x"
    by (rule fold_misses[OF misses_ram[OF assms]]) simp
  have split: "fold op_mem (boot_ops env rstvec) m = fold op_mem (after_release env) (fold op_mem release_end
      (fold op_mem release_tail (fold op_mem (if rstvec \<noteq> 0 then [BpWrite 0 rstvec] else [])
        (fold op_mem (before_vector env) m))))"
    by (simp add: boot_ops_split del: op_mem.simps)
  show "load32 (fold op_mem (boot_ops env rstvec) m) 0 = rstvec" if "rstvec \<noteq> 0"
    using fold_misses_word[OF misses_vector[OF assms], of "store_bytes 0 (le32 rstvec) (fold op_mem (before_vector env) m)"] that
    unfolding split by (simp add: load_store32 del: op_mem.simps) (simp add: load_store32)
  have ends: "fold op_mem release_end m'
      = store_bytes 0x18102408 (le32 BCMA_IOCTL_CLK) (store_bytes 0x18102800 (le32 0) m')" for m'
    by (simp add: release_end_def boot_addrs)
  show "load32 (fold op_mem (boot_ops env rstvec) m) (CYW_ARM_WRAP_BASE + BCMA_IOCTL) = BCMA_IOCTL_CLK"
    unfolding split boot_addrs using fold_misses_word[OF misses_arm[OF assms], of "0x18102408"]
    by (simp add: ends load_store32)
  have apart: "load32 (store_bytes 0x18102408 (le32 v) m') 0x18102800 = load32 m' 0x18102800" for v m'
    using fold_misses_word[of "0x18102800" "[BpWrite 0x18102408 v]" m'] by (simp add: in_word_def)
  show "load32 (fold op_mem (boot_ops env rstvec) m) (CYW_ARM_WRAP_BASE + BCMA_RESET_CTL) = 0"
    unfolding split boot_addrs using fold_misses_word[OF misses_arm[OF assms], of "0x18102800"]
    by (simp add: ends apart load_store32)
qed

text \<open>C18: The whole download. On a bus without faults, with images that fit the memory
  together and a chip that takes the clock and function 2, it succeeds, and the
  core then runs (clocked, not halted, out of reset) on the right image: the
  firmware lies at the base of the memory, the packed NVRAM at its very top, and
  the word at address 0, where the core starts, is the first word of the
  firmware. None of the accesses of the release and the bring-up disturbs the
  images.\<close>

theorem fw_download_boots:
  assumes "faults (sd c) = []" "coherent (sd c)" "core_ok (fw_core_base env)"
    and "fw_image env = Some fw" "nv_image env = Some nv" "nv \<noteq> []" "4 \<le> length fw"
    and "fw_ram_base env = CYW_RAM_BASE" "unat (fw_ram_size env) \<le> 0x10000000"
    and "nvram = cyw_parse_nvram nv" "length fw + nv_alloc (length nv) \<le> unat (fw_ram_size env)"
    and "force_ht_rc env = ok" "f2_rc env = ok"
  shows "\<exists>c'. cyw_fw_download env c = (ok, c') \<and> f2_on c'
    \<and> (\<forall>i<length fw. bp_mem (sd c') (CYW_RAM_BASE + of_nat i) = fw ! i)
    \<and> (\<forall>i<length nvram. bp_mem (sd c')
         (CYW_RAM_BASE + of_nat (unat (fw_ram_size env) - length nvram + i)) = nvram ! i)
    \<and> (rd_le32 fw 0 \<noteq> 0 \<longrightarrow> load32 (bp_mem (sd c')) 0 = rd_le32 fw 0)
    \<and> load32 (bp_mem (sd c')) (CYW_ARM_WRAP_BASE + BCMA_IOCTL) = BCMA_IOCTL_CLK
    \<and> load32 (bp_mem (sd c')) (CYW_ARM_WRAP_BASE + BCMA_RESET_CTL) = 0"
proof -
  let ?size = "unat (fw_ram_size env)"
  have n: "length nvram \<le> nv_alloc (length nv)" using parse_length[of nv] assms(10) by simp
  have le: "length fw \<le> ?size" "nv_alloc (length nv) \<le> ?size" using assms(11) by simp_all
  obtain s' where s': "cyw_fw_images_write env (sd c) = (Inr (rd_le32 fw 0), s')" "faults s' = []" "coherent s'"
    using images_write_ok[OF assms(1,2,4,5,7) le(1) assms(6)] le(2) assms(9) by auto
  have img: "\<forall>i<length nvram. bp_mem s' (CYW_RAM_BASE + of_nat (?size - length nvram + i)) = nvram ! i"
    "\<forall>i<length fw. bp_mem s' (CYW_RAM_BASE + of_nat i) = fw ! i"
    using fw_images_stored_layout[OF assms(1,2,4,5,6,7) le(1) assms(8,10) le(2) refl s'(1)] n assms(11) by auto
  obtain c' where c': "cyw_fw_download env c = (ok, c')" "f2_on c'"
    "bp_mem (sd c') = fold op_mem (boot_ops env (rd_le32 fw 0)) (bp_mem s')"
    using fw_download_ok[OF s' assms(12,13)] by blast
  have ram: "bp_mem (sd c') (CYW_RAM_BASE + of_nat i) = bp_mem s' (CYW_RAM_BASE + of_nat i)" if "i < ?size" for i
  proof -
    have "unat (CYW_RAM_BASE + of_nat i) = 0x198000 + i"
      using that assms(9) by (simp add: CYW_RAM_BASE_def unat_word_ariths unat_of_nat take_bit_nat_eq_self)
    then show ?thesis unfolding c'(3) using that assms(9) by (intro boot_effect(1)[OF assms(3)]) simp_all
  qed
  have "\<forall>i<length fw. bp_mem (sd c') (CYW_RAM_BASE + of_nat i) = fw ! i" using ram img(2) le(1) by simp
  moreover have "\<forall>i<length nvram. bp_mem (sd c') (CYW_RAM_BASE + of_nat (?size - length nvram + i)) = nvram ! i"
    using ram img(1) n le(2) by (simp del: of_nat_add of_nat_diff)
  ultimately show ?thesis using c' boot_effect[OF assms(3)] by auto
qed

theorem fw_download_boots_witness:
  "\<exists>env c'. fst (cyw_fw_download env \<lparr>sd = fresh_sdio, f2_on = False, f1_log = []\<rparr>) = ok
    \<and> cyw_fw_download env \<lparr>sd = fresh_sdio, f2_on = False, f1_log = []\<rparr> = (ok, c')
    \<and> load32 (bp_mem (sd c')) 0 = rd_le32 [1, 2, 3, 4] 0"
proof -
  define env where "env = \<lparr>fw_image = Some [1, 2, 3, 4], nv_image = Some [97], dbg_fw = False, bad_word = 0,
    fw_ram_base = CYW_RAM_BASE, fw_ram_size = 20, fw_core_base = 0x18020000, force_ht_rc = ok, f2_rc = ok,
    devctl_val = 0, wakeup_val = 0, fw_sr_capable = True, tohost = (\<lambda>_. 8)\<rparr>"
  let ?c = "\<lparr>sd = fresh_sdio, f2_on = False, f1_log = []\<rparr>"
  have "core_ok (fw_core_base env)" by (simp add: env_def core_ok_def)
  moreover have "length [1 :: u8, 2, 3, 4] + nv_alloc (length [97 :: u8]) \<le> unat (fw_ram_size env)"
    by (simp add: env_def nv_alloc_def roundup_def)
  moreover have "rd_le32 [1, 2, 3, 4] 0 \<noteq> 0" by (simp add: rd_le32_def)
  ultimately have "\<exists>c'. cyw_fw_download env ?c = (ok, c') \<and> load32 (bp_mem (sd c')) 0 = rd_le32 [1, 2, 3, 4] 0"
    using fw_download_boots[of ?c env "[1, 2, 3, 4]" "[97]", OF _ _ _ _ _ _ _ _ _ refl]
    by (simp add: fresh_coherent) (auto simp: env_def)
  then show ?thesis by (intro exI[of _ env]) auto
qed

section \<open>Uploading the CLM blob\<close>

definition CYW_CLM_MAX_CHUNK :: nat where "CYW_CLM_MAX_CHUNK = 256"

definition CYW_CLM_DL_BEGIN :: u16 where "CYW_CLM_DL_BEGIN = 2"

definition CYW_CLM_DL_END :: u16 where "CYW_CLM_DL_END = 4"

definition clm_chunk :: "u16 \<Rightarrow> bytes \<Rightarrow> bytes" where
  "clm_chunk dl_flag payload =
     le16 (dl_flag OR 0x1000) @ le16 2 @ le32 (of_nat (length payload)) @ le32 0 @ payload"

text \<open>The loop: iov i is the answer to call i of the clmload variable, and the second
  result the payloads of the calls made. The body runs at least once.\<close>

function clm_loop :: "(nat \<Rightarrow> rc) \<Rightarrow> bytes \<Rightarrow> nat \<Rightarrow> u16 \<Rightarrow> nat \<Rightarrow> bytes list \<Rightarrow> rc \<times> bytes list" where
  "clm_loop iov data cumulative dl_flag i sent =
     (let chunk_len = (if CYW_CLM_MAX_CHUNK < length data - cumulative then CYW_CLM_MAX_CHUNK
                       else length data - cumulative);
          dl_flag = (if CYW_CLM_MAX_CHUNK < length data - cumulative then dl_flag else dl_flag OR CYW_CLM_DL_END);
          sent = sent @ [clm_chunk dl_flag (take chunk_len (drop cumulative data))]
      in if iov i \<noteq> ok then (iov i, sent)
         else if cumulative + chunk_len < length data
              then clm_loop iov data (cumulative + chunk_len) (dl_flag AND NOT CYW_CLM_DL_BEGIN) (i + 1) sent
              else (ok, sent))"
  by pat_completeness auto
termination
  by (relation "measure (\<lambda>(_, data, cumulative, _). length data - cumulative)")
    (auto simp: CYW_CLM_MAX_CHUNK_def split: if_splits)

declare clm_loop.simps [simp del]

text \<open>clm is the image, status the answer to the final query of the load status.\<close>

definition cyw_clm_load :: "bytes option \<Rightarrow> (nat \<Rightarrow> rc) \<Rightarrow> u32 result \<Rightarrow> rc \<times> bytes list" where
  "cyw_clm_load clm iov status =
     (case clm of
        None \<Rightarrow> (ok, [])
      | Some data \<Rightarrow>
          let (r, sent) = clm_loop iov data 0 CYW_CLM_DL_BEGIN 0 []
          in if r \<noteq> ok then (r, sent)
             else (case status of Inl e \<Rightarrow> (fail e, sent)
                   | Inr clm_status \<Rightarrow> (if clm_status \<noteq> 0 then fail EIO else ok, sent)))"

text \<open>What the device has after the chunks: None unless the first and only the first
  carries the begin flag, the last and only the last the end flag, and every
  length field is right.\<close>

fun clm_collect :: "bool \<Rightarrow> bytes list \<Rightarrow> bytes option" where
  "clm_collect first [] = None"
| "clm_collect first (c # cs) =
     (let fl = rd_le16 c 0; payload = drop 12 c in
      if (fl AND CYW_CLM_DL_BEGIN \<noteq> 0) \<noteq> first \<or> (fl AND CYW_CLM_DL_END \<noteq> 0) \<noteq> (cs = [])
         \<or> drop_bit 12 fl \<noteq> 1 \<or> rd_le16 c 2 \<noteq> 2 \<or> rd_le32 c 4 \<noteq> of_nat (length payload)
      then None
      else if cs = [] then Some payload
      else map_option ((@) payload) (clm_collect False cs))"

definition clm_flags :: "u16 \<Rightarrow> bool \<Rightarrow> bool" where
  "clm_flags f first \<longleftrightarrow> (f = (if first then CYW_CLM_DL_BEGIN else 0))"

lemma clm_chunk_fields:
  "length (clm_chunk f p) = 12 + length p" "drop 12 (clm_chunk f p) = p" "rd_le16 (clm_chunk f p) 0 = f OR 0x1000"
  "rd_le16 (clm_chunk f p) 2 = 2" "rd_le32 (clm_chunk f p) 4 = of_nat (length p)"
proof -
  show "length (clm_chunk f p) = 12 + length p" by (simp add: clm_chunk_def)
  show "drop 12 (clm_chunk f p) = p" by (simp add: clm_chunk_def)
  show "rd_le16 (clm_chunk f p) 0 = f OR 0x1000"
    unfolding clm_chunk_def using rd_le16_append[of 0 "[]"] by simp
  show "rd_le16 (clm_chunk f p) 2 = 2"
    unfolding clm_chunk_def by (rule rd_le16_append) simp
  show "rd_le32 (clm_chunk f p) 4 = of_nat (length p)"
    using rd_le32_append[of 4 "le16 (f OR 0x1000) @ le16 2" "of_nat (length p)" "le32 0 @ p"]
    by (simp add: clm_chunk_def)
qed

lemma clm_loop_collects:
  assumes "\<And>i. iov i = ok" "cumulative \<le> length data" "clm_flags f first"
  shows "\<exists>cs. clm_loop iov data cumulative f i sent = (ok, sent @ cs) \<and> clm_collect first cs = Some (drop cumulative data)
    \<and> (\<forall>c\<in>set cs. length c \<le> 12 + CYW_CLM_MAX_CHUNK)"
  using assms(2,3)
proof (induction "length data - cumulative" arbitrary: cumulative f first i sent rule: less_induct)
  case less
  show ?case
  proof (cases "CYW_CLM_MAX_CHUNK < length data - cumulative")
    case True
    let ?p = "take CYW_CLM_MAX_CHUNK (drop cumulative data)"
    have lp: "length ?p = CYW_CLM_MAX_CHUNK" using True by simp
    have fl: "clm_flags (f AND NOT CYW_CLM_DL_BEGIN) False"
      using less.prems(2) by (simp add: clm_flags_def CYW_CLM_DL_BEGIN_def)
    have pos: "CYW_CLM_MAX_CHUNK > 0" by (simp add: CYW_CLM_MAX_CHUNK_def)
    have smaller: "length data - (cumulative + CYW_CLM_MAX_CHUNK) < length data - cumulative"
      using True pos by linarith
    have inside: "cumulative + CYW_CLM_MAX_CHUNK \<le> length data" and
      more: "cumulative + CYW_CLM_MAX_CHUNK < length data" using True by linarith+
    from less.hyps[OF smaller inside fl, of "i + 1" "sent @ [clm_chunk f ?p]"] obtain cs
      where cs: "clm_loop iov data (cumulative + CYW_CLM_MAX_CHUNK) (f AND NOT CYW_CLM_DL_BEGIN) (i + 1)
        (sent @ [clm_chunk f ?p]) = (ok, (sent @ [clm_chunk f ?p]) @ cs)"
      "clm_collect False cs = Some (drop (cumulative + CYW_CLM_MAX_CHUNK) data)"
      "\<forall>c\<in>set cs. length c \<le> 12 + CYW_CLM_MAX_CHUNK" by blast
    have run: "clm_loop iov data cumulative f i sent = (ok, sent @ clm_chunk f ?p # cs)"
      using True more cs(1) assms(1) by (subst clm_loop.simps) (simp add: Let_def)
    have "cs \<noteq> []" using cs(2) by auto
    then have "clm_collect first (clm_chunk f ?p # cs) = Some (?p @ drop (cumulative + CYW_CLM_MAX_CHUNK) data)"
      using less.prems(2) cs(2)
      by (auto simp: clm_chunk_fields clm_flags_def CYW_CLM_DL_BEGIN_def CYW_CLM_DL_END_def Let_def)
    then have "clm_collect first (clm_chunk f ?p # cs) = Some (drop cumulative data)"
      by (metis append_take_drop_id drop_drop add.commute)
    then show ?thesis using run cs(3) by (auto simp: clm_chunk_fields lp)
  next
    case False
    let ?p = "drop cumulative data" and ?f = "f OR CYW_CLM_DL_END"
    have run: "clm_loop iov data cumulative f i sent = (ok, sent @ [clm_chunk ?f ?p])"
      using False assms(1) less.prems(1) by (subst clm_loop.simps) (simp add: Let_def)
    have "clm_collect first [clm_chunk ?f ?p] = Some ?p"
      using less.prems(2)
      by (auto simp: clm_chunk_fields clm_flags_def CYW_CLM_DL_BEGIN_def CYW_CLM_DL_END_def Let_def)
    then show ?thesis using run False by (auto simp: clm_chunk_fields)
  qed
qed

text \<open>C20: An upload that no call refuses delivers the blob: the device, which insists on a
  begin flag on the first chunk alone, an end flag on the last alone and right
  lengths, collects exactly its bytes, each call at most 268 bytes long (so
  that the framed call stays below a block of the bus). The load then succeeds
  if and only if the status variable answers 0. An empty blob is one chunk.\<close>

theorem clm_upload_delivers:
  assumes "\<And>i. iov i = ok"
  shows "\<exists>cs. cyw_clm_load (Some data) iov status
      = (case status of Inl e \<Rightarrow> fail e | Inr v \<Rightarrow> if v = 0 then ok else fail EIO, cs)
    \<and> clm_collect True cs = Some data \<and> (\<forall>c\<in>set cs. length c \<le> 268)"
proof -
  obtain cs where "clm_loop iov data 0 CYW_CLM_DL_BEGIN 0 [] = (ok, cs)" "clm_collect True cs = Some data"
    "\<forall>c\<in>set cs. length c \<le> 12 + CYW_CLM_MAX_CHUNK"
    using clm_loop_collects[of iov 0 data CYW_CLM_DL_BEGIN True 0 "[]"] assms by (auto simp: clm_flags_def)
  then show ?thesis
    by (auto simp: cyw_clm_load_def CYW_CLM_MAX_CHUNK_def split: sum.splits)
qed

theorem clm_upload_delivers_witness:
  "\<exists>cs. cyw_clm_load (Some (replicate 300 7)) (\<lambda>_. ok) (Inr 0) = (ok, cs) \<and> clm_collect True cs = Some (replicate 300 7)"
  using clm_upload_delivers[of "\<lambda>_. ok" "replicate 300 7" "Inr 0", OF refl] by (simp del: replicate.simps) blast

end
