(* ===== verification/CywReq.thy ===== *)
theory CywReq
  imports CywFwil "HOL-Library.Sublist"
begin

text \<open>
  The interface between the configuration code of the CYW43455 driver and its
  firmware request layer (src/cyw43455_fwil.c): requests as values, the law the
  client relies on (a request that succeeds is one the firmware has seen, in
  order, and one that fails is seen at most once), what follows for sequences of
  requests, and the proof that the request layer keeps the law.
\<close>

section \<open>Requests\<close>

text \<open>Setting and getting a named variable, and setting and getting by command; a get
  has the size of its buffer.\<close>

datatype fwreq = SetVar bytes bytes | GetVar bytes nat | SetCmd u32 bytes | GetCmd u32 nat

text \<open>The bytes of a name.\<close>

definition cname :: "string \<Rightarrow> bytes" where
  "cname str = map of_char str"

text \<open>One call: the result, the buffer after it, and the state.\<close>

type_synonym 's call = "fwreq \<Rightarrow> 's \<Rightarrow> rc \<times> bytes \<times> 's"

text \<open>A sequence whose results are ignored, and one that stops at the first error.\<close>

fun call_all :: "'s call \<Rightarrow> fwreq list \<Rightarrow> 's \<Rightarrow> 's" where
  "call_all call [] s = s"
| "call_all call (r # rs) s = (case call r s of (_, _, s) \<Rightarrow> call_all call rs s)"

fun call_until :: "'s call \<Rightarrow> fwreq list \<Rightarrow> 's \<Rightarrow> rc \<times> 's" where
  "call_until call [] s = (ok, s)"
| "call_until call (r # rs) s =
     (case call r s of (e, _, s) \<Rightarrow> if e \<noteq> ok then (e, s) else call_until call rs s)"

locale request_layer =
  fixes call :: "'s call" and seen :: "'s \<Rightarrow> fwreq list" and valid :: "fwreq \<Rightarrow> bool"
  assumes call_ok: "valid r \<Longrightarrow> call r s = (ok, b, s') \<Longrightarrow> seen s' = seen s @ [r]"
    and call_any: "valid r \<Longrightarrow> call r s = (e, b, s') \<Longrightarrow> seen s' = seen s \<or> seen s' = seen s @ [r]"
begin

lemma until_seen:
  "\<forall>r\<in>set rs. valid r \<Longrightarrow> call_until call rs s = (e, s') \<Longrightarrow>
   \<exists>xs. seen s' = seen s @ xs \<and> prefix xs rs \<and> (e = ok \<longrightarrow> xs = rs)"
proof (induction rs arbitrary: s)
  case (Cons r rs)
  obtain e1 b s1 where c: "call r s = (e1, b, s1)" by (cases "call r s") auto
  show ?case
  proof (cases "e1 = ok")
    case True
    then have "call_until call rs s1 = (e, s')" "seen s1 = seen s @ [r]"
      using Cons.prems c call_ok[of r s b s1] by simp_all
    then obtain xs where "seen s' = seen s @ r # xs" "prefix xs rs" "e = ok \<longrightarrow> xs = rs"
      using Cons.IH[of s1] Cons.prems(1) by auto
    then show ?thesis by (intro exI[of _ "r # xs"]) simp
  next
    case False
    then have "e = e1" "s' = s1" using Cons.prems(2) c by simp_all
    have "seen s1 = seen s \<or> seen s1 = seen s @ [r]" using call_any[of r s e1 b s1] c Cons.prems(1) by simp
    then show ?thesis using \<open>e = e1\<close> \<open>s' = s1\<close> False by (auto simp: prefix_def)
  qed
qed simp

lemma all_seen:
  "\<forall>r\<in>set rs. valid r \<Longrightarrow> \<exists>xs. seen (call_all call rs s) = seen s @ xs \<and> subseq xs rs"
proof (induction rs arbitrary: s)
  case (Cons r rs)
  obtain e1 b s1 where c: "call r s = (e1, b, s1)" by (cases "call r s") auto
  obtain xs where xs: "seen (call_all call rs s1) = seen s1 @ xs" "subseq xs rs"
    using Cons.IH[of s1] Cons.prems by auto
  have "seen s1 = seen s \<or> seen s1 = seen s @ [r]" using call_any[of r s e1 b s1] c Cons.prems by simp
  then show ?case
  proof
    assume "seen s1 = seen s"
    then show ?thesis using c xs by (intro exI[of _ xs]) auto
  next
    assume "seen s1 = seen s @ [r]"
    then show ?thesis using c xs by (intro exI[of _ "r # xs"]) auto
  qed
qed simp

lemma one_seen:
  "valid r \<Longrightarrow> call r s = (e, b, s') \<Longrightarrow> \<exists>xs. seen s' = seen s @ xs \<and> subseq xs [r] \<and> (e = ok \<longrightarrow> xs = [r])"
  using call_ok[of r s b s'] call_any[of r s e b s'] by (cases "e = ok") (auto intro: exI[of _ "[]"] exI[of _ "[r]"])

end

section \<open>A scripted firmware\<close>

text \<open>The requests seen so far and the answers to come, ok when there are none left.\<close>

definition script_call :: "(fwreq list \<times> (rc \<times> bytes) list) call" where
  "script_call r s =
     (case s of (log, []) \<Rightarrow> (ok, [], (log @ [r], []))
      | (log, (e, b) # as) \<Rightarrow> (e, b, (log @ [r], as)))"

interpretation script: request_layer script_call fst "\<lambda>_. True"
  by unfold_locales (auto simp: script_call_def split: prod.splits list.splits)

section \<open>The request layer of the driver\<close>

text \<open>The state is that of the layer and the number of calls so far; envs k is the
  environment of call k.\<close>

definition fil_call :: "(nat \<Rightarrow> fil_env) \<Rightarrow> (fil \<times> nat) call" where
  "fil_call envs r s =
     (case s of (f, k) \<Rightarrow>
        (case (case r of
                 SetVar name d \<Rightarrow> cyw_fil_txrx (envs k) WLC_SET_VAR BCDC_DCMD_SET (Some name) d f
               | GetVar name n \<Rightarrow> cyw_fil_txrx (envs k) WLC_GET_VAR 0 (Some name) (replicate n 0) f
               | SetCmd cmd d \<Rightarrow> cyw_fil_txrx (envs k) cmd BCDC_DCMD_SET None d f
               | GetCmd cmd n \<Rightarrow> cyw_fil_txrx (envs k) cmd 0 None (replicate n 0) f)
         of (e, b, f) \<Rightarrow> (e, b, (f, k + 1))))"

text \<open>What the firmware makes of a frame it can decode.\<close>

definition req_of :: "bytes \<Rightarrow> fwreq option" where
  "req_of fr =
     (case fw_decode fr of
        None \<Rightarrow> None
      | Some (cmd, is_set, _, _, pl) \<Rightarrow>
          let name = takeWhile (\<lambda>c. c \<noteq> 0) pl; d = drop (length name + 1) pl
          in Some (if cmd = WLC_SET_VAR \<and> is_set then SetVar name d
                   else if cmd = WLC_GET_VAR \<and> \<not> is_set then GetVar name (length d)
                   else if is_set then SetCmd cmd pl else GetCmd cmd (length pl)))"

definition fil_seen :: "fil \<times> nat \<Rightarrow> fwreq list" where
  "fil_seen s = List.map_filter req_of (sent (fst s))"

text \<open>Names without NUL, sizes that fit the length field, and no raw command that is one
  of the two variable commands.\<close>

definition req_valid :: "fwreq \<Rightarrow> bool" where
  "req_valid r =
     (case r of
        SetVar name d \<Rightarrow> 0 \<notin> set name \<and> length name + length d < 60000
      | GetVar name n \<Rightarrow> 0 \<notin> set name \<and> length name + n < 60000
      | SetCmd cmd d \<Rightarrow> cmd \<noteq> WLC_SET_VAR \<and> cmd \<noteq> WLC_GET_VAR \<and> length d < 60000
      | GetCmd cmd n \<Rightarrow> cmd \<noteq> WLC_SET_VAR \<and> cmd \<noteq> WLC_GET_VAR \<and> n < 60000)"

lemma txrx_sent:
  assumes "cyw_fil_txrx env cmd fl name buf s = (r, b, s')"
  shows "(sent s' = sent s \<and> r \<noteq> ok) \<or> (\<exists>xid seq. sent s' = sent s @ [fil_frame cmd fl name buf xid seq])"
proof (cases "sdpcm_running s")
  case True
  then have "(sent s' = sent s \<and> r \<noteq> ok)
      \<or> sent s' = sent s @ [fil_frame cmd fl name buf (ioctl_id s + 1) (sdpcm_tx_seq (bus s))]"
    using assms by (simp add: cyw_fil_txrx_def fil_runtime_def Let_def ring_doorbell_def split: if_splits) (auto dest: sym)
  then show ?thesis by blast
next
  case False
  then have "(sent s' = sent s \<and> r \<noteq> ok)
      \<or> sent s' = sent s @ [fil_frame cmd fl name buf (ioctl_id s + 1) (sdpcm_tx_seq (bus s))]"
    using assms by (simp add: cyw_fil_txrx_def fil_boot_def Let_def ring_doorbell_def split: if_splits prod.splits) (auto dest: sym)
  then show ?thesis by blast
qed

lemma req_of_frame:
  assumes "fl = 0 \<or> fl = BCDC_DCMD_SET" "length (name_bytes name) + length buf < 65000"
  shows "req_of (fil_frame cmd fl name buf xid seq) =
    (let pl = fil_payload fl name buf; nm = takeWhile (\<lambda>c. c \<noteq> 0) pl; d = drop (length nm + 1) pl
     in Some (if cmd = WLC_SET_VAR \<and> fl = BCDC_DCMD_SET then SetVar nm d
              else if cmd = WLC_GET_VAR \<and> fl \<noteq> BCDC_DCMD_SET then GetVar nm (length d)
              else if fl = BCDC_DCMD_SET then SetCmd cmd pl else GetCmd cmd (length pl)))"
proof -
  have "fil_framelen name buf < 2 ^ 16"
    using ALIGN4_bounds(2)[of "28 + (length (name_bytes name) + length buf)"] assms(2)
    by (simp add: fil_framelen_def CYW_SDPCM_HDR_LEN_def CYW_BCDC_HDR_LEN_def)
  from fil_frame_decodes[OF assms(1) this, of cmd xid seq] show ?thesis
    unfolding req_of_def by (simp only: option.case prod.case Let_def BCDC_DCMD_SET_def)
qed

lemma takeWhile_name: "0 \<notin> set n \<Longrightarrow> takeWhile (\<lambda>c. c \<noteq> (0 :: u8)) (n @ 0 # d) = n"
  by (induction n) auto

lemma fil_call_frame:
  assumes "req_valid r" "fil_call envs r (f, k) = (e, b, s')"
  shows "fil_seen s' = fil_seen (f, k) @ [r] \<or> (fil_seen s' = fil_seen (f, k) \<and> e \<noteq> ok)"
proof -
  have seen: "fil_seen s' = fil_seen (f, k) @ [r] \<or> (fil_seen s' = fil_seen (f, k) \<and> e \<noteq> ok)"
    if t: "cyw_fil_txrx (envs k) cmd fl name buf f = (e, b, f')" and s': "s' = (f', k + 1)"
      and q: "\<And>xid seq. req_of (fil_frame cmd fl name buf xid seq) = Some r" for cmd fl name buf f'
    using txrx_sent[OF t] q by (auto simp: fil_seen_def s' map_filter_def)
  show ?thesis
  proof (cases r)
    case (SetVar name d)
    show ?thesis
    proof (rule seen)
      show "cyw_fil_txrx (envs k) WLC_SET_VAR BCDC_DCMD_SET (Some name) d f = (e, b, fst s')" "s' = (fst s', k + 1)"
        using assms(2) SetVar by (auto simp: fil_call_def split: prod.splits)
    qed (use assms(1) SetVar takeWhile_name in \<open>simp add: req_of_frame req_valid_def name_bytes_def fil_payload_def Let_def BCDC_DCMD_SET_def\<close>)
  next
    case (GetVar name n)
    show ?thesis
    proof (rule seen)
      show "cyw_fil_txrx (envs k) WLC_GET_VAR 0 (Some name) (replicate n 0) f = (e, b, fst s')" "s' = (fst s', k + 1)"
        using assms(2) GetVar by (auto simp: fil_call_def split: prod.splits)
    qed (use assms(1) GetVar takeWhile_name in \<open>simp add: req_of_frame req_valid_def name_bytes_def fil_payload_def Let_def BCDC_DCMD_SET_def\<close>)
  next
    case (SetCmd cmd d)
    show ?thesis
    proof (rule seen)
      show "cyw_fil_txrx (envs k) cmd BCDC_DCMD_SET None d f = (e, b, fst s')" "s' = (fst s', k + 1)"
        using assms(2) SetCmd by (auto simp: fil_call_def split: prod.splits)
    qed (use assms(1) SetCmd in \<open>simp add: req_of_frame req_valid_def name_bytes_def fil_payload_def Let_def BCDC_DCMD_SET_def\<close>)
  next
    case (GetCmd cmd n)
    show ?thesis
    proof (rule seen)
      show "cyw_fil_txrx (envs k) cmd 0 None (replicate n 0) f = (e, b, fst s')" "s' = (fst s', k + 1)"
        using assms(2) GetCmd by (auto simp: fil_call_def split: prod.splits)
    qed (use assms(1) GetCmd in \<open>simp add: req_of_frame req_valid_def name_bytes_def fil_payload_def Let_def BCDC_DCMD_SET_def\<close>)
  qed
qed

interpretation filreq: request_layer "fil_call envs" fil_seen req_valid for envs
proof
  fix r :: fwreq and s s' :: "fil \<times> nat" and b
  assume "req_valid r" "fil_call envs r s = (ok, b, s')"
  then show "fil_seen s' = fil_seen s @ [r]" using fil_call_frame[of r envs "fst s" "snd s" ok b s'] by simp
next
  fix r :: fwreq and s s' :: "fil \<times> nat" and e b
  assume "req_valid r" "fil_call envs r s = (e, b, s')"
  then show "fil_seen s' = fil_seen s \<or> fil_seen s' = fil_seen s @ [r]"
    using fil_call_frame[of r envs "fst s" "snd s" e b s'] by auto
qed

end
