(* ===== verification/CywEvents.thy ===== *)
theory CywEvents
  imports CywFwil
begin

text \<open>
  Firmware events of the CYW43455 driver (src/cyw43455_events.c) and the handlers
  of the association (in src/cyw43455_security.c): the subscription mask, the
  handler table, the parsing and dispatch of an event frame, and the handlers
  that drive the state of the net80211 interface.
\<close>

section \<open>Event codes and the subscription\<close>

definition CYW_E_SET_SSID :: u32 where "CYW_E_SET_SSID = 0"

definition CYW_E_JOIN :: u32 where "CYW_E_JOIN = 1"

definition CYW_E_AUTH :: u32 where "CYW_E_AUTH = 3"

definition CYW_E_AUTH_IND :: u32 where "CYW_E_AUTH_IND = 4"

definition CYW_E_DEAUTH :: u32 where "CYW_E_DEAUTH = 5"

definition CYW_E_DEAUTH_IND :: u32 where "CYW_E_DEAUTH_IND = 6"

definition CYW_E_ASSOC :: u32 where "CYW_E_ASSOC = 7"

definition CYW_E_ASSOC_IND :: u32 where "CYW_E_ASSOC_IND = 8"

definition CYW_E_DISASSOC :: u32 where "CYW_E_DISASSOC = 11"

definition CYW_E_DISASSOC_IND :: u32 where "CYW_E_DISASSOC_IND = 12"

definition CYW_E_LINK :: u32 where "CYW_E_LINK = 16"

definition CYW_E_SCAN_COMPLETE :: u32 where "CYW_E_SCAN_COMPLETE = 26"

definition CYW_E_PSK_SUP :: u32 where "CYW_E_PSK_SUP = 46"

definition CYW_E_IF :: u32 where "CYW_E_IF = 54"

definition CYW_E_ESCAN_RESULT :: u32 where "CYW_E_ESCAN_RESULT = 69"

lemmas event_codes = CYW_E_SET_SSID_def CYW_E_JOIN_def CYW_E_AUTH_def CYW_E_AUTH_IND_def CYW_E_DEAUTH_def
  CYW_E_DEAUTH_IND_def CYW_E_ASSOC_def CYW_E_ASSOC_IND_def CYW_E_DISASSOC_def CYW_E_DISASSOC_IND_def
  CYW_E_LINK_def CYW_E_SCAN_COMPLETE_def CYW_E_PSK_SUP_def CYW_E_IF_def CYW_E_ESCAN_RESULT_def

definition CYW_EVENT_MAX_CODE :: u32 where "CYW_EVENT_MAX_CODE = 128"

definition CYW_EVENT_MASK_LEN :: nat where "CYW_EVENT_MASK_LEN = 16"

definition event_subscribe :: "u32 list" where
  "event_subscribe = [CYW_E_SET_SSID, CYW_E_JOIN, CYW_E_AUTH, CYW_E_AUTH_IND, CYW_E_DEAUTH, CYW_E_DEAUTH_IND,
     CYW_E_ASSOC, CYW_E_ASSOC_IND, CYW_E_DISASSOC, CYW_E_DISASSOC_IND, CYW_E_LINK, CYW_E_SCAN_COMPLETE,
     CYW_E_PSK_SUP, CYW_E_IF, CYW_E_ESCAN_RESULT]"

definition cyw_event_names :: "(u32 \<times> string) list" where
  "cyw_event_names = [(CYW_E_SET_SSID, ''E_SET_SSID''), (CYW_E_JOIN, ''E_JOIN''), (CYW_E_AUTH, ''E_AUTH''),
     (CYW_E_AUTH_IND, ''E_AUTH_IND''), (CYW_E_DEAUTH, ''E_DEAUTH''), (CYW_E_DEAUTH_IND, ''E_DEAUTH_IND''), (CYW_E_ASSOC, ''E_ASSOC''),
     (CYW_E_ASSOC_IND, ''E_ASSOC_IND''), (CYW_E_DISASSOC, ''E_DISASSOC''), (CYW_E_DISASSOC_IND, ''E_DISASSOC_IND''), (CYW_E_LINK, ''E_LINK''),
     (CYW_E_SCAN_COMPLETE, ''E_SCAN_COMPLETE''), (CYW_E_PSK_SUP, ''E_PSK_SUP''), (CYW_E_IF, ''E_IF''), (CYW_E_ESCAN_RESULT, ''E_ESCAN_RESULT'')]"

definition cyw_event_name :: "u32 \<Rightarrow> string" where
  "cyw_event_name code = (case map_of cyw_event_names code of Some n \<Rightarrow> n | None \<Rightarrow> ''E_UNKNOWN'')"

text \<open>The events with names are those subscribed.\<close>

lemma subscribed_named: "cyw_event_name c \<noteq> ''E_UNKNOWN'' \<longleftrightarrow> c \<in> set event_subscribe"
  by (simp add: cyw_event_name_def cyw_event_names_def event_subscribe_def event_codes)

definition mask_add :: "u32 \<Rightarrow> bytes \<Rightarrow> bytes" where
  "mask_add c m =
     (if unat c < CYW_EVENT_MASK_LEN * 8
      then m[unat c div 8 := m ! (unat c div 8) OR push_bit (unat c mod 8) 1] else m)"

definition event_mask :: bytes where
  "event_mask = fold mask_add event_subscribe (replicate CYW_EVENT_MASK_LEN 0)"

text \<open>The name of the variable, "event_msgs".\<close>

definition event_msgs_name :: bytes where
  "event_msgs_name = [0x65, 0x76, 0x65, 0x6e, 0x74, 0x5f, 0x6d, 0x73, 0x67, 0x73]"

definition cyw_event_attach :: "fil_env \<Rightarrow> fil \<Rightarrow> rc \<times> fil" where
  "cyw_event_attach env s = cyw_fil_iovar_data_set env event_msgs_name event_mask s"

section \<open>The handler table\<close>

text \<open>The handlers the driver registers.\<close>

datatype handler = cyw_escan_result | cyw_link | cyw_set_ssid | cyw_psk_sup

type_synonym handler_table = "handler option list"

definition cyw_event_register :: "u32 \<Rightarrow> handler \<Rightarrow> handler_table \<Rightarrow> rc \<times> handler_table" where
  "cyw_event_register code h tbl =
     (if CYW_EVENT_MAX_CODE \<le> code then (fail EINVAL, tbl) else (ok, tbl[unat code := Some h]))"

definition cyw_event_unregister :: "u32 \<Rightarrow> handler_table \<Rightarrow> handler_table" where
  "cyw_event_unregister code tbl = (if CYW_EVENT_MAX_CODE \<le> code then tbl else tbl[unat code := None])"

definition cyw_security_event_attach :: "handler_table \<Rightarrow> rc \<times> handler_table" where
  "cyw_security_event_attach tbl =
     (let (r, tbl) = cyw_event_register CYW_E_LINK cyw_link tbl in
      if r \<noteq> ok then (r, tbl)
      else let (r, tbl) = cyw_event_register CYW_E_SET_SSID cyw_set_ssid tbl in
      if r \<noteq> ok then (r, cyw_event_unregister CYW_E_LINK tbl)
      else let (r, tbl) = cyw_event_register CYW_E_PSK_SUP cyw_psk_sup tbl in
      if r \<noteq> ok then (r, cyw_event_unregister CYW_E_LINK (cyw_event_unregister CYW_E_SET_SSID tbl))
      else (ok, tbl))"

definition cyw_security_event_detach :: "handler_table \<Rightarrow> handler_table" where
  "cyw_security_event_detach tbl =
     cyw_event_unregister CYW_E_LINK (cyw_event_unregister CYW_E_SET_SSID (cyw_event_unregister CYW_E_PSK_SUP tbl))"

section \<open>Dispatch\<close>

record event_msg =
  em_code :: u32
  em_status :: u32
  em_reason :: u32
  em_flags :: u32
  em_datalen :: u32
  em_addr :: bytes
  em_ifidx :: u8
  em_bsscfgidx :: u8

definition CYW_BDC_HDR_LEN :: nat where "CYW_BDC_HDR_LEN = 4"

definition CYW_ETH_P_LINK_CTL :: u16 where "CYW_ETH_P_LINK_CTL = 0x886c"

definition SIZEOF_BRCM_ETHHDR :: nat where "SIZEOF_BRCM_ETHHDR = 10"

definition SIZEOF_EVENT_MSG_BE :: nat where "SIZEOF_EVENT_MSG_BE = 48"

definition CYW_EVENT_MIN_FRAME :: nat where
  "CYW_EVENT_MIN_FRAME = CYW_SDPCM_HDR_LEN + CYW_BDC_HDR_LEN + ETHER_HDR_LEN + SIZEOF_BRCM_ETHHDR + SIZEOF_EVENT_MSG_BE"

definition brcm_event :: "bytes \<Rightarrow> nat \<Rightarrow> bool" where
  "brcm_event buf eth \<longleftrightarrow> rd_be16 buf (eth + 12) = CYW_ETH_P_LINK_CTL
     \<and> take 3 (drop (eth + ETHER_HDR_LEN + 5) buf) = [0x00, 0x10, 0x18]
     \<and> rd_be16 buf (eth + ETHER_HDR_LEN + 8) = 1"

text \<open>The data length, clamped to what the frame still holds behind the message.\<close>

definition clamp_datalen :: "nat \<Rightarrow> nat \<Rightarrow> u32 \<Rightarrow> nat" where
  "clamp_datalen flen at datalen = (if flen < at + unat datalen then flen - at else unat datalen)"

text \<open>The call the dispatcher makes, if it makes one: the handler, the message and the
  data. The parsing alone is separate.\<close>

definition parse_event :: "bytes \<Rightarrow> nat \<Rightarrow> (event_msg \<times> bytes) option" where
  "parse_event buf flen =
     (if flen < CYW_EVENT_MIN_FRAME then None
      else
        let bdc = unat (buf ! 7); bdc_len = CYW_BDC_HDR_LEN + unat (buf ! (bdc + 3)) * 4; eth = bdc + bdc_len in
        if flen < eth + ETHER_HDR_LEN + SIZEOF_BRCM_ETHHDR + SIZEOF_EVENT_MSG_BE then None
        else if \<not> brcm_event buf eth then None
        else
          let emsg = eth + ETHER_HDR_LEN + SIZEOF_BRCM_ETHHDR; at = emsg + SIZEOF_EVENT_MSG_BE;
              datalen = clamp_datalen flen at (rd_be32 buf (emsg + 20))
          in Some (\<lparr>em_code = rd_be32 buf (emsg + 4), em_status = rd_be32 buf (emsg + 8),
                    em_reason = rd_be32 buf (emsg + 12), em_flags = ucast (rd_be16 buf (emsg + 2)),
                    em_datalen = of_nat datalen, em_addr = take 6 (drop (emsg + 24) buf),
                    em_ifidx = buf ! (emsg + 46), em_bsscfgidx = buf ! (emsg + 47)\<rparr>,
                   take datalen (drop at buf)))"

definition cyw_event_dispatch :: "handler_table \<Rightarrow> bytes \<Rightarrow> nat \<Rightarrow> (handler \<times> event_msg \<times> bytes) option" where
  "cyw_event_dispatch tbl buf flen =
     (case parse_event buf flen of
        None \<Rightarrow> None
      | Some (msg, data) \<Rightarrow>
          if CYW_EVENT_MAX_CODE \<le> em_code msg then None
          else (case tbl ! unat (em_code msg) of None \<Rightarrow> None | Some h \<Rightarrow> Some (h, msg, data)))"

section \<open>What is subscribed\<close>

definition mask_has :: "bytes \<Rightarrow> nat \<Rightarrow> bool" where
  "mask_has m n \<longleftrightarrow> bit (m ! (n div 8)) (n mod 8)"

lemma mask_add_has:
  assumes "length m = CYW_EVENT_MASK_LEN" "n < 128"
  shows "mask_has (mask_add c m) n \<longleftrightarrow> mask_has m n \<or> unat c = n"
proof (cases "unat c < 128")
  case True
  have l: "unat c div 8 < length m" using True assms(1) by (simp add: CYW_EVENT_MASK_LEN_def)
  have b: "bit (push_bit k 1 :: u8) j \<longleftrightarrow> j = k" if "k < 8" for k j
    using flag_bit[OF refl, of k j] that by auto
  have "unat c = n \<longleftrightarrow> unat c div 8 = n div 8 \<and> unat c mod 8 = n mod 8"
    by (metis div_mult_mod_eq)
  then show ?thesis
    using True l b[of "unat c mod 8" "n mod 8"]
    by (auto simp: mask_has_def mask_add_def CYW_EVENT_MASK_LEN_def nth_list_update bit_or_iff simp del: push_bit_of_1)
next
  case False
  then show ?thesis using assms(2) by (auto simp: mask_add_def CYW_EVENT_MASK_LEN_def)
qed

lemma length_mask_add [simp]: "length (mask_add c m) = length m"
  by (simp add: mask_add_def)

lemma mask_fold_has:
  assumes "length m = CYW_EVENT_MASK_LEN" "n < 128"
  shows "mask_has (fold mask_add cs m) n \<longleftrightarrow> mask_has m n \<or> n \<in> unat ` set cs"
  using assms by (induction cs arbitrary: m) (auto simp: mask_add_has)

lemma event_mask_has:
  assumes "n < 128"
  shows "mask_has event_mask n \<longleftrightarrow> n \<in> unat ` set event_subscribe"
proof -
  have "mask_has (replicate CYW_EVENT_MASK_LEN 0) n \<longleftrightarrow> False"
    using assms by (simp add: mask_has_def CYW_EVENT_MASK_LEN_def)
  then show ?thesis unfolding event_mask_def by (simp add: mask_fold_has assms)
qed

section \<open>The handlers of the association\<close>

text \<open>The states of a net80211 interface that the driver distinguishes, and the softc
  fields the handlers use: the state of the first interface, if there is one,
  and the transitions requested of net80211, in order.\<close>

datatype iv_state = S_INIT | S_SCAN | S_AUTH | S_ASSOC | S_RUN | S_OTHER

record assoc =
  link_up :: bool
  vap :: "iv_state option"
  new_states :: "iv_state list"

definition request_state :: "iv_state \<Rightarrow> assoc \<Rightarrow> assoc" where
  "request_state st a = a\<lparr>new_states := new_states a @ [st]\<rparr>"

definition CYW_EVENT_MSG_LINK :: u32 where "CYW_EVENT_MSG_LINK = 1"

definition CYW_E_STATUS_SUCCESS :: u32 where "CYW_E_STATUS_SUCCESS = 0"

definition cyw_link_event :: "event_msg \<Rightarrow> assoc \<Rightarrow> assoc" where
  "cyw_link_event msg a =
     (let link = (em_flags msg AND CYW_EVENT_MSG_LINK \<noteq> 0); a = a\<lparr>link_up := link\<rparr> in
      case vap a of
        None \<Rightarrow> a
      | Some st \<Rightarrow>
          if link then request_state S_RUN a
          else if st = S_RUN \<or> st = S_AUTH \<or> st = S_ASSOC then request_state S_SCAN a
          else a)"

definition cyw_set_ssid_event :: "event_msg \<Rightarrow> assoc \<Rightarrow> assoc" where
  "cyw_set_ssid_event msg a =
     (if em_status msg = CYW_E_STATUS_SUCCESS then a
      else case vap a of
        None \<Rightarrow> a
      | Some st \<Rightarrow> if st = S_AUTH \<or> st = S_ASSOC then request_state S_SCAN a else a)"

text \<open>The handshake status is only printed.\<close>

definition cyw_psk_sup_event :: "event_msg \<Rightarrow> assoc \<Rightarrow> assoc" where
  "cyw_psk_sup_event msg a = a"

text \<open>What a dispatched event does to the association; the scan handler is modelled
  with the scan.\<close>

definition run_handler :: "handler \<Rightarrow> event_msg \<Rightarrow> assoc \<Rightarrow> assoc" where
  "run_handler h msg a =
     (case h of cyw_link \<Rightarrow> cyw_link_event msg a | cyw_set_ssid \<Rightarrow> cyw_set_ssid_event msg a
      | cyw_psk_sup \<Rightarrow> cyw_psk_sup_event msg a | cyw_escan_result \<Rightarrow> a)"

section \<open>An event on the wire\<close>

text \<open>The device side: the Ethernet frame of an event. addrs are the two addresses, b5
  the five bytes before the vendor prefix that the driver does not look at.\<close>

definition event_bytes :: "bytes \<Rightarrow> bytes \<Rightarrow> u16 \<Rightarrow> u32 \<Rightarrow> bytes \<Rightarrow> event_msg \<Rightarrow> bytes" where
  "event_bytes addrs b5 ver auth ifname m =
     addrs @ be16 CYW_ETH_P_LINK_CTL @ b5 @ [0x00, 0x10, 0x18] @ be16 1
     @ be16 ver @ be16 (ucast (em_flags m)) @ be32 (em_code m) @ be32 (em_status m) @ be32 (em_reason m)
     @ be32 auth @ be32 (em_datalen m) @ em_addr m @ ifname @ [em_ifidx m, em_bsscfgidx m]"

definition event_ok :: "bytes \<Rightarrow> bytes \<Rightarrow> bytes \<Rightarrow> event_msg \<Rightarrow> bool" where
  "event_ok addrs b5 ifname m \<longleftrightarrow> length addrs = 12 \<and> length b5 = 5 \<and> length ifname = 16 \<and> length (em_addr m) = 6
     \<and> em_flags m < 2 ^ 16"

lemma event_bytes_length: "event_ok addrs b5 ifname m \<Longrightarrow> length (event_bytes addrs b5 ver auth ifname m) = 72"
  by (simp add: event_bytes_def event_ok_def)

lemma event_fields:
  assumes "event_ok addrs b5 ifname m" "e = event_bytes addrs b5 ver auth ifname m"
  shows "rd_be16 e 12 = CYW_ETH_P_LINK_CTL" "take 3 (drop 19 e) = [0x00, 0x10, 0x18]" "rd_be16 e 22 = 1"
    "ucast (rd_be16 e 26) = em_flags m" "rd_be32 e 28 = em_code m" "rd_be32 e 32 = em_status m"
    "rd_be32 e 36 = em_reason m" "rd_be32 e 44 = em_datalen m" "take 6 (drop 48 e) = em_addr m"
    "e ! 70 = em_ifidx m" "e ! 71 = em_bsscfgidx m"
proof -
  have l: "length addrs = 12" "length b5 = 5" "length ifname = 16" "length (em_addr m) = 6"
    using assms(1) by (simp_all add: event_ok_def)
  note e = assms(2)[unfolded event_bytes_def]
  let ?h = "addrs @ be16 CYW_ETH_P_LINK_CTL @ b5 @ [0x00, 0x10, 0x18] @ be16 1 @ be16 ver @ be16 (ucast (em_flags m))"
  show "rd_be16 e 12 = CYW_ETH_P_LINK_CTL" unfolding e by (rule rd_be16_append) (simp add: l)
  show "take 3 (drop 19 e) = [0x00, 0x10, 0x18]" unfolding e by (simp add: l)
  show "rd_be16 e 22 = 1"
    using rd_be16_append[of 22 "addrs @ be16 CYW_ETH_P_LINK_CTL @ b5 @ [0x00, 0x10, 0x18]"] l by (simp add: e)
  have "rd_be16 e 26 = ucast (em_flags m)"
    using rd_be16_append[of 26 "addrs @ be16 CYW_ETH_P_LINK_CTL @ b5 @ [0x00, 0x10, 0x18] @ be16 1 @ be16 ver"] l by (simp add: e)
  then show "ucast (rd_be16 e 26) = em_flags m"
  proof (simp only:)
    have "take_bit 16 (em_flags m) = em_flags m"
      using assms(1) less_mask_eq[of "em_flags m" 16] by (simp add: event_ok_def take_bit_eq_mask)
    moreover have "ucast (ucast (em_flags m) :: u16) = take_bit 16 (em_flags m)"
      by (rule bit_word_eqI) (auto simp: bit_simps)
    ultimately show "ucast (ucast (em_flags m) :: u16) = em_flags m" by simp
  qed
  show "rd_be32 e 28 = em_code m" using rd_be32_append[of 28 ?h] l by (simp add: e)
  show "rd_be32 e 32 = em_status m" using rd_be32_append[of 32 "?h @ be32 (em_code m)"] l by (simp add: e)
  show "rd_be32 e 36 = em_reason m"
    using rd_be32_append[of 36 "?h @ be32 (em_code m) @ be32 (em_status m)"] l by (simp add: e)
  show "rd_be32 e 44 = em_datalen m"
    using rd_be32_append[of 44 "?h @ be32 (em_code m) @ be32 (em_status m) @ be32 (em_reason m) @ be32 auth"] l by (simp add: e)
  show "take 6 (drop 48 e) = em_addr m" unfolding e by (simp add: l)
  have t: "drop 70 e = [em_ifidx m, em_bsscfgidx m]" unfolding e by (simp add: l)
  have "length e = 72" using event_bytes_length[OF assms(1)] assms(2) by simp
  then show "e ! 70 = em_ifidx m" "e ! 71 = em_bsscfgidx m"
    using t nth_drop[of 70 e 0] nth_drop[of 70 e 1] by simp_all
qed

lemma rd_be16_mid: "i + 1 < length e \<Longrightarrow> rd_be16 (pre @ e @ post) (length pre + i) = rd_be16 e i"
  by (simp add: rd_be16_def nth_append)

lemma rd_be32_mid: "i + 3 < length e \<Longrightarrow> rd_be32 (pre @ e @ post) (length pre + i) = rd_be32 e i"
  by (simp add: rd_be32_def nth_append)

lemma take_mid: "i + n \<le> length e \<Longrightarrow> take n (drop (length pre + i) (pre @ e @ post)) = take n (drop i e)"
  by simp

text \<open>The frame of an event: the SDPCM header, whose offset byte is 12, the BDC header
  with the padding it names, the event and its data.\<close>

definition event_frame :: "bytes \<Rightarrow> bytes \<Rightarrow> bytes \<Rightarrow> bytes \<Rightarrow> bytes \<Rightarrow> bytes" where
  "event_frame sph bdc padding ev data = sph @ bdc @ padding @ ev @ data"

definition headers_ok :: "bytes \<Rightarrow> bytes \<Rightarrow> bytes \<Rightarrow> bool" where
  "headers_ok sph bdc padding \<longleftrightarrow> length sph = 12 \<and> sph ! 7 = 12 \<and> length bdc = 4 \<and> length padding = 4 * unat (bdc ! 3)"

lemma parse_event_frame:
  assumes "headers_ok sph bdc padding" "event_ok addrs b5 ifname m"
    and "fr = event_frame sph bdc padding (event_bytes addrs b5 ver auth ifname m) data" "length fr < 2 ^ 16"
  shows "parse_event fr (length fr) = Some (m\<lparr>em_datalen := of_nat (min (unat (em_datalen m)) (length data))\<rparr>,
      take (unat (em_datalen m)) data)"
proof -
  define e where "e = event_bytes addrs b5 ver auth ifname m"
  define pre where "pre = sph @ bdc @ padding"
  note f = event_fields[OF assms(2) e_def]
  have le: "length e = 72" using event_bytes_length[OF assms(2)] by (simp add: e_def)
  have fr: "fr = pre @ e @ data" by (simp add: assms(3) event_frame_def pre_def e_def)
  have h: "length sph = 12" "sph ! 7 = 12" "length bdc = 4" "length padding = 4 * unat (bdc ! 3)"
    using assms(1) by (simp_all add: headers_ok_def)
  have lp: "length pre = 16 + 4 * unat (bdc ! 3)" using h by (simp add: pre_def)
  have i7: "fr ! 7 = 12" "fr ! 15 = bdc ! 3" using h by (simp_all add: fr pre_def nth_append)
  have len: "length fr = length pre + 72 + length data" by (simp add: fr le)
  define eth where "eth = 12 + (CYW_BDC_HDR_LEN + unat (fr ! 15) * 4)"
  have eth: "eth = length pre" by (simp add: eth_def lp i7 CYW_BDC_HDR_LEN_def)
  have b16: "rd_be16 fr (eth + i) = rd_be16 e i" if "i + 1 < 72" for i
    unfolding fr eth using that le by (intro rd_be16_mid) simp
  have b32: "rd_be32 fr (eth + i) = rd_be32 e i" if "i + 3 < 72" for i
    unfolding fr eth using that le by (intro rd_be32_mid) simp
  have by_: "fr ! (eth + i) = e ! i" if "i < 72" for i
    unfolding fr eth using that le by (simp add: nth_append)
  have tk: "take n (drop (eth + i) fr) = take n (drop i e)" if "i + n \<le> 72" for i n
    unfolding fr eth using that le by (intro take_mid) simp
  have ev: "brcm_event fr eth"
    using f b16[of 12] b16[of 22] tk[of 19 3] by (simp add: brcm_event_def ETHER_HDR_LEN_def add.assoc)
  have dat: "drop (eth + 72) fr = data" unfolding fr eth using le by simp
  have clamp: "clamp_datalen (length fr) (eth + 72) (em_datalen m) = min (unat (em_datalen m)) (length data)"
    by (simp add: clamp_datalen_def len eth)
  define d where "d = min (unat (em_datalen m)) (length data)"
  have big: "\<not> length fr < CYW_EVENT_MIN_FRAME" "\<not> length fr < eth + 24 + 48"
    using len lp eth by (simp_all add: CYW_EVENT_MIN_FRAME_def CYW_SDPCM_HDR_LEN_def CYW_BDC_HDR_LEN_def
        ETHER_HDR_LEN_def SIZEOF_BRCM_ETHHDR_def SIZEOF_EVENT_MSG_BE_def)
  define emsg where "emsg = eth + ETHER_HDR_LEN + SIZEOF_BRCM_ETHHDR"
  have emsg: "emsg = eth + 24" by (simp add: emsg_def ETHER_HDR_LEN_def SIZEOF_BRCM_ETHHDR_def)
  have at: "emsg + SIZEOF_EVENT_MSG_BE = eth + 72" by (simp add: emsg SIZEOF_EVENT_MSG_BE_def)
  have msg: "\<lparr>em_code = rd_be32 fr (emsg + 4), em_status = rd_be32 fr (emsg + 8), em_reason = rd_be32 fr (emsg + 12),
      em_flags = ucast (rd_be16 fr (emsg + 2)), em_datalen = of_nat d, em_addr = take 6 (drop (emsg + 24) fr),
      em_ifidx = fr ! (emsg + 46), em_bsscfgidx = fr ! (emsg + 47)\<rparr> = m\<lparr>em_datalen := of_nat d\<rparr>"
    using f b16[of 26] b32[of 28] b32[of 32] b32[of 36] by_[of 70] by_[of 71] tk[of 48 6]
    by (simp add: emsg add.assoc add.commute[of 26 eth])
  have dl: "rd_be32 fr (emsg + 20) = em_datalen m" using f(8) b32[of 44] by (simp add: emsg add.assoc)
  have twelve: "unat (12 :: u8) = 12" "(12 :: nat) + 3 = 15" by simp_all
  have big': "\<not> length fr < emsg + SIZEOF_EVENT_MSG_BE"
    using big(2) by (simp add: emsg SIZEOF_EVENT_MSG_BE_def)
  have "parse_event fr (length fr) = Some (m\<lparr>em_datalen := of_nat d\<rparr>, take d data)"
    unfolding parse_event_def Let_def i7(1) twelve unfolding eth_def[symmetric] emsg_def[symmetric]
    unfolding dl at clamp d_def[symmetric] msg dat
    using big(1) big'[unfolded at] ev by simp
  moreover have "take d data = take (unat (em_datalen m)) data" by (simp add: d_def min_def)
  ultimately show ?thesis by (simp add: d_def)
qed

section \<open>What reaches a handler\<close>


text \<open>The dispatcher looks at nothing behind the frame, whatever its headers claim.\<close>

lemma parse_event_take:
  assumes "take flen buf = fr" "flen \<le> length buf"
  shows "parse_event buf flen = parse_event fr flen"
proof (cases "flen < CYW_EVENT_MIN_FRAME")
  case False
  then have l: "88 \<le> flen"
    by (simp add: CYW_EVENT_MIN_FRAME_def CYW_SDPCM_HDR_LEN_def CYW_BDC_HDR_LEN_def ETHER_HDR_LEN_def
        SIZEOF_BRCM_ETHHDR_def SIZEOF_EVENT_MSG_BE_def)
  have lf: "length fr = flen" using assms by auto
  have n: "buf ! i = fr ! i" if "i < flen" for i using that assms(1) by (metis nth_take)
  have o: "buf ! 7 = fr ! 7" using n l by simp
  define o' where "o' = unat (fr ! 7)"
  show ?thesis
  proof (cases "o' + 3 < flen")
    case True
    then have b: "buf ! (o' + 3) = fr ! (o' + 3)" using n by simp
    define eth where "eth = o' + (CYW_BDC_HDR_LEN + unat (fr ! (o' + 3)) * 4)"
    show ?thesis
    proof (cases "flen < eth + ETHER_HDR_LEN + SIZEOF_BRCM_ETHHDR + SIZEOF_EVENT_MSG_BE")
      case True
      then show ?thesis by (simp add: parse_event_def o o'_def[symmetric] b eth_def[symmetric])
    next
      case False
      then have e: "eth + 72 \<le> flen"
        by (simp add: ETHER_HDR_LEN_def SIZEOF_BRCM_ETHHDR_def SIZEOF_EVENT_MSG_BE_def)
      have b16: "rd_be16 buf (eth + i) = rd_be16 fr (eth + i)" if "i + 1 < 72" for i
        using n that e by (simp add: rd_be16_def)
      have b32: "rd_be32 buf (eth + i) = rd_be32 fr (eth + i)" if "i + 3 < 72" for i
        using n that e by (simp add: rd_be32_def)
      have tk: "take k (drop i buf) = take k (drop i fr)" if "i + k \<le> flen" for i k
      proof -
        have "take (k + i) buf = take (k + i) fr" using that by (simp add: assms(1)[symmetric] min_absorb1)
        then show ?thesis by (simp only: take_drop)
      qed
      have ev: "brcm_event buf eth = brcm_event fr eth"
        using b16[of 12] b16[of 22] tk[of "eth + 19" 3] e by (simp add: brcm_event_def ETHER_HDR_LEN_def add.assoc)
      have bi: "buf ! (eth + i) = fr ! (eth + i)" if "i < 72" for i using n that e by simp
      define d where "d = clamp_datalen flen (eth + 72) (rd_be32 fr (eth + 44))"
      have "eth + 72 + d \<le> flen" using e by (simp add: d_def clamp_datalen_def)
      then have dt: "take d (drop (eth + 72) buf) = take d (drop (eth + 72) fr)" by (rule tk)
      show ?thesis
        using ev b16[of 26] b32[of 28] b32[of 32] b32[of 36] b32[of 44] bi[of 70] bi[of 71] tk[of "eth + 48" 6] e dt
        by (simp add: parse_event_def o o'_def[symmetric] b eth_def[symmetric] Let_def ETHER_HDR_LEN_def
            SIZEOF_BRCM_ETHHDR_def SIZEOF_EVENT_MSG_BE_def add.assoc d_def add.commute[of 26 eth])
    qed
  next
    case False
    then have "flen < o' + (CYW_BDC_HDR_LEN + k) + ETHER_HDR_LEN + SIZEOF_BRCM_ETHHDR + SIZEOF_EVENT_MSG_BE" for k
      by (simp add: CYW_BDC_HDR_LEN_def SIZEOF_EVENT_MSG_BE_def)
    then show ?thesis by (simp add: parse_event_def o o'_def[symmetric])
  qed
qed (simp add: parse_event_def)

section \<open>From the FIFO to the association\<close>

definition handle_event :: "handler_table \<Rightarrow> bytes \<times> nat \<Rightarrow> assoc \<Rightarrow> assoc" where
  "handle_event tbl e a =
     (case cyw_event_dispatch tbl (fst e) (snd e) of
        None \<Rightarrow> a
      | Some (h, msg, data) \<Rightarrow> run_handler h msg a)"

definition handle_events :: "handler_table \<Rightarrow> (bytes \<times> nat) list \<Rightarrow> assoc \<Rightarrow> assoc" where
  "handle_events tbl evs a = fold (handle_event tbl) evs a"

lemma handle_event_frame:
  assumes "frame_of e = (fr, n)" "length fr = n"
  shows "handle_event tbl e = handle_event tbl (fr, n)"
proof -
  have "take n (fst e) = fr" "snd e = n" "n \<le> length (fst e)"
    using assms by (auto simp: frame_of_def)
  then show ?thesis by (simp add: fun_eq_iff handle_event_def cyw_event_dispatch_def parse_event_take)
qed

lemma handle_events_frames:
  assumes "map frame_of evs = map (\<lambda>fr. (fr, length fr)) frs"
  shows "handle_events tbl evs a = handle_events tbl (map (\<lambda>fr. (fr, length fr)) frs) a"
  using assms
proof (induction frs arbitrary: evs a)
  case (Cons fr frs)
  then obtain e es where e: "evs = e # es" "frame_of e = (fr, length fr)"
    "map frame_of es = map (\<lambda>fr. (fr, length fr)) frs" by (cases evs) auto
  then show ?case using Cons.IH[OF e(3)] handle_event_frame[OF e(2)] by (simp add: handle_events_def)
qed (simp add: handle_events_def)

lemma security_attach:
  assumes "length tbl = 128"
  shows "\<exists>tbl'. cyw_security_event_attach tbl = (ok, tbl') \<and> length tbl' = 128 \<and> tbl' ! 16 = Some cyw_link
    \<and> tbl' ! 0 = Some cyw_set_ssid \<and> tbl' ! 46 = Some cyw_psk_sup
    \<and> (\<forall>i<128. i \<notin> {0, 16, 46} \<longrightarrow> tbl' ! i = tbl ! i)"
  using assms
  by (simp add: cyw_security_event_attach_def cyw_event_register_def event_codes CYW_EVENT_MAX_CODE_def Let_def)

text \<open>C26: The firmware reports the link, and the interface goes to RUN: when the frames
  queued in the FIFO contain one event, that of the link with its up flag set,
  among any data and control frames, one run of the receive task and the handlers
  the driver installs records the link as up and asks net80211 for RUN, once. A
  link event without the flag takes an interface that is authenticating,
  associating or running back to SCAN, and one in another state nowhere.\<close>

theorem link_event_moves_vap:
  assumes "stream s = stream_of fps" "read_fails s = []" "gate_open (length fps) s"
    and "\<forall>(fr, pad) \<in> set fps. wf_frame fr \<and> padded fr pad" "length buf = CYW_SDPCM_BUF_SIZE"
    and "sdpcm_drain flush after (\<lambda>_. True) i buf s x = (s', x')" "rx_events x = []"
    and "filter (\<lambda>fr. fr_chan fr = 1) (map fst fps) = [fr]"
    and "fr = event_frame sph bdc padding (event_bytes addrs b5 ver auth ifname m) data"
    and "headers_ok sph bdc padding" "event_ok addrs b5 ifname m" "em_code m = CYW_E_LINK"
    and "cyw_security_event_attach tbl = (ok, tbl')" "length tbl = 128" "vap a = Some st"
  shows "handle_events tbl' (rx_events x') a =
    (if em_flags m AND CYW_EVENT_MSG_LINK \<noteq> 0
     then a\<lparr>link_up := True, new_states := new_states a @ [S_RUN]\<rparr>
     else if st \<in> {S_RUN, S_AUTH, S_ASSOC} then a\<lparr>link_up := False, new_states := new_states a @ [S_SCAN]\<rparr>
     else a\<lparr>link_up := False\<rparr>)"
proof -
  have "fr \<in> set (filter (\<lambda>fr. fr_chan fr = 1) (map fst fps))" unfolding assms(8) by simp
  then have "wf_frame fr" using assms(4) by auto
  then have small: "length fr < 2 ^ 16" by (simp add: wf_frame_def sdpcm_consts)
  have "map frame_of (rx_events x') = map (\<lambda>fr. (fr, length fr)) [fr]"
    using drain_frames[OF assms(1-6)] assms(7,8) by simp
  then have h: "handle_events tbl' (rx_events x') a = handle_event tbl' (fr, length fr) a"
    using handle_events_frames[of "rx_events x'" "[fr]" tbl' a] by (simp add: handle_events_def)
  have slot: "tbl' ! 16 = Some cyw_link" using security_attach[OF assms(14)] assms(13) by auto
  have "cyw_event_dispatch tbl' fr (length fr)
      = Some (cyw_link, m\<lparr>em_datalen := of_nat (min (unat (em_datalen m)) (length data))\<rparr>, take (unat (em_datalen m)) data)"
    using parse_event_frame[OF assms(10,11,9) small] slot assms(12)
    by (simp add: cyw_event_dispatch_def CYW_EVENT_MAX_CODE_def CYW_E_LINK_def)
  then show ?thesis
    unfolding h using assms(15)
    by (auto simp: handle_event_def run_handler_def cyw_link_event_def request_state_def Let_def)
qed

text \<open>A frame with a link event.\<close>

definition link_msg :: event_msg where
  "link_msg = \<lparr>em_code = CYW_E_LINK, em_status = 0, em_reason = 0, em_flags = 1, em_datalen = 0,
     em_addr = replicate 6 0, em_ifidx = 0, em_bsscfgidx = 0\<rparr>"

definition link_sph :: bytes where
  "link_sph = le16 88 @ le16 (NOT 88) @ [0, 1, 0, 12, 0, 5, 0, 0]"

definition link_frame :: bytes where
  "link_frame = event_frame link_sph (replicate 4 0) [] (event_bytes (replicate 12 0) (replicate 5 0) 0 0 (replicate 16 0) link_msg) []"

lemma link_frame_ok:
  "headers_ok link_sph (replicate 4 0) []" "event_ok (replicate 12 0) (replicate 5 0) (replicate 16 0) link_msg"
  "length link_frame = 88" "wf_frame link_frame" "padded link_frame (replicate 40 0)" "fr_chan link_frame = 1"
proof -
  show "headers_ok link_sph (replicate 4 0) []" by (simp add: headers_ok_def link_sph_def le16_def)
  show e: "event_ok (replicate 12 0) (replicate 5 0) (replicate 16 0) link_msg"
    by (simp add: event_ok_def link_msg_def)
  have ls: "length link_sph = 12" by (simp add: link_sph_def)
  show l: "length link_frame = 88"
    using event_bytes_length[OF e] ls by (simp add: link_frame_def event_frame_def del: replicate.simps)
  have early: "rd_le16 link_frame i = rd_le16 link_sph i" if "i + 1 < 12" for i
    unfolding link_frame_def event_frame_def using that ls by (intro rd_le16_earlier) simp
  have "rd_le16 link_sph 0 = 88" unfolding link_sph_def using rd_le16_append[of 0 "[]"] by simp
  moreover have "rd_le16 link_sph 2 = NOT 88" unfolding link_sph_def by (rule rd_le16_append) simp
  ultimately show "wf_frame link_frame" using early[of 0] early[of 2] by (simp add: wf_frame_def l sdpcm_consts)
  show "padded link_frame (replicate 40 0)" by (simp add: padded_def l roundup_def CYW_F2_BLKSIZE_def)
  have "link_frame ! 5 = link_sph ! 5" unfolding link_frame_def event_frame_def using ls by (simp add: nth_append)
  then show "fr_chan link_frame = 1" by (simp add: fr_chan_def link_sph_def le16_def)
qed


theorem link_event_moves_vap_witness:
  "\<exists>s' x' tbl'. sdpcm_drain id [] (\<lambda>_. True) 0 (replicate 2112 0)
      (idle_sdpcm\<lparr>stream := stream_of [(a_frame, replicate 34 0), (link_frame, replicate 40 0)],
         int_reads := [0x800000, 0x800000]\<rparr>) idle_rx = (s', x')
    \<and> cyw_security_event_attach (replicate 128 None) = (ok, tbl')
    \<and> handle_events tbl' (rx_events x') \<lparr>link_up = False, vap = Some S_AUTH, new_states = []\<rparr>
      = \<lparr>link_up = True, vap = Some S_AUTH, new_states = [S_RUN]\<rparr>"
proof -
  let ?fps = "[(a_frame, replicate 34 0), (link_frame, replicate 40 0)] :: (bytes \<times> bytes) list"
  let ?s = "idle_sdpcm\<lparr>stream := stream_of ?fps, int_reads := [0x800000, 0x800000]\<rparr>"
  let ?a = "\<lparr>link_up = False, vap = Some S_AUTH, new_states = []\<rparr>"
  obtain s' x' where r: "sdpcm_drain id [] (\<lambda>_. True) 0 (replicate 2112 0) ?s idle_rx = (s', x')"
    by (cases "sdpcm_drain id [] (\<lambda>_. True) 0 (replicate 2112 0) ?s idle_rx")
  obtain tbl' where t: "cyw_security_event_attach (replicate 128 None) = (ok, tbl')"
    using security_attach[of "replicate 128 None"] by (auto simp del: replicate.simps)
  have g: "gate_open (length ?fps) ?s"
    by (simp add: gate_open_def intr_any_def I_HMB_SW_MASK_def I_XMTDATA_AVAIL_def)
  have "handle_events tbl' (rx_events x') ?a =
    (if em_flags link_msg AND CYW_EVENT_MSG_LINK \<noteq> 0
     then ?a\<lparr>link_up := True, new_states := new_states ?a @ [S_RUN]\<rparr>
     else if S_AUTH \<in> {S_RUN, S_AUTH, S_ASSOC} then ?a\<lparr>link_up := False, new_states := new_states ?a @ [S_SCAN]\<rparr>
     else ?a\<lparr>link_up := False\<rparr>)"
    by (rule link_event_moves_vap[OF _ _ g _ _ r _ _ link_frame_def link_frame_ok(1,2) _ t])
      (use a_frame_wf link_frame_ok in \<open>simp_all add: idle_sdpcm_def idle_rx_def sdpcm_consts link_msg_def del: replicate.simps\<close>)
  then have "handle_events tbl' (rx_events x') ?a = \<lparr>link_up = True, vap = Some S_AUTH, new_states = [S_RUN]\<rparr>"
    by (simp add: link_msg_def CYW_EVENT_MSG_LINK_def)
  then show ?thesis using r t by blast
qed

end
