(* ===== verification/CywScan.thy ===== *)
theory CywScan
  imports Prelude
begin

text \<open>
  Scanning in the CYW43455 WiFi driver (src/cyw43455_scan.c): the cache from
  BSSIDs to firmware channel specifications, the decoding of channel
  specifications, the walk over the information elements of a BSS, the
  synthesis of a scan entry, the escan result handler, and the start and abort
  requests. The cache has a specification as a bounded association list.
\<close>

section \<open>The BSSID to chanspec cache\<close>

definition CYW_BSS_CS_CACHE_SIZE :: nat where "CYW_BSS_CS_CACHE_SIZE = 32"

record cs_entry =
  cs_bssid :: bytes
  cs_chanspec :: u16

record cs_cache =
  bss_cs_cache :: "cs_entry list"
  bss_cs_cache_next :: nat

definition cs_match :: "bytes \<Rightarrow> cs_entry \<Rightarrow> bool" where
  "cs_match bssid e \<longleftrightarrow> cs_chanspec e \<noteq> 0 \<and> cs_bssid e = bssid"

text \<open>The loop over the slots up to the first one that matches.\<close>

fun cs_find :: "bytes \<Rightarrow> cs_entry list \<Rightarrow> nat \<Rightarrow> nat option" where
  "cs_find bssid [] i = None"
| "cs_find bssid (e # es) i = (if cs_match bssid e then Some i else cs_find bssid es (i + 1))"

definition cyw_bss_cs_cache_add :: "bytes \<Rightarrow> u16 \<Rightarrow> cs_cache \<Rightarrow> cs_cache" where
  "cyw_bss_cs_cache_add bssid chanspec c =
     (if chanspec = 0 then c
      else case cs_find bssid (bss_cs_cache c) 0 of
        Some i \<Rightarrow> c\<lparr>bss_cs_cache := (bss_cs_cache c)[i := (bss_cs_cache c ! i)\<lparr>cs_chanspec := chanspec\<rparr>]\<rparr>
      | None \<Rightarrow> c\<lparr>bss_cs_cache := (bss_cs_cache c)[bss_cs_cache_next c := \<lparr>cs_bssid = bssid, cs_chanspec = chanspec\<rparr>],
                 bss_cs_cache_next := (bss_cs_cache_next c + 1) mod CYW_BSS_CS_CACHE_SIZE\<rparr>)"

text \<open>The argument ieee_chan is a C int.\<close>

definition cyw_chanspec_for_join :: "bytes \<Rightarrow> int \<Rightarrow> cs_cache \<Rightarrow> u16" where
  "cyw_chanspec_for_join bssid ieee_chan c =
     (let cs = (case cs_find bssid (bss_cs_cache c) 0 of
                  Some i \<Rightarrow> cs_chanspec (bss_cs_cache c ! i) | None \<Rightarrow> 0)
      in if cs \<noteq> 0 then cs
         else if ieee_chan \<le> 0 then 0
         else if ieee_chan \<le> 14 then 0x1000 OR word_of_int ieee_chan
         else 0xD000 OR word_of_int ieee_chan)"

section \<open>Channel specifications\<close>

definition CYW_CHSPEC_CHAN_MASK :: u16 where "CYW_CHSPEC_CHAN_MASK = 0x00ff"

definition CYW_CHSPEC_D11N_SB_MASK :: u16 where "CYW_CHSPEC_D11N_SB_MASK = 0x0300"

definition CYW_CHSPEC_D11N_BW_MASK :: u16 where "CYW_CHSPEC_D11N_BW_MASK = 0x0c00"

definition CYW_CHSPEC_D11AC_BAND_MASK :: u16 where "CYW_CHSPEC_D11AC_BAND_MASK = 0xc000"

definition CYW_CHSPEC_D11AC_BAND_5G :: u16 where "CYW_CHSPEC_D11AC_BAND_5G = 0xc000"

definition CYW_CHSPEC_D11AC_BW_MASK :: u16 where "CYW_CHSPEC_D11AC_BW_MASK = 0x3800"

definition CYW_CHSPEC_D11AC_BW_20 :: u16 where "CYW_CHSPEC_D11AC_BW_20 = 0x1000"

definition CYW_CHSPEC_D11AC_BW_40 :: u16 where "CYW_CHSPEC_D11AC_BW_40 = 0x1800"

definition CYW_CHSPEC_D11AC_BW_80 :: u16 where "CYW_CHSPEC_D11AC_BW_80 = 0x2000"

definition CYW_CHSPEC_D11AC_SB_MASK :: u16 where "CYW_CHSPEC_D11AC_SB_MASK = 0x0700"

definition CYW_CHSPEC_D11AC_SB_LLL :: u16 where "CYW_CHSPEC_D11AC_SB_LLL = 0"

definition CYW_CHSPEC_D11AC_SB_LLU :: u16 where "CYW_CHSPEC_D11AC_SB_LLU = 0x100"

definition CYW_CHSPEC_D11AC_SB_LUL :: u16 where "CYW_CHSPEC_D11AC_SB_LUL = 0x200"

definition CYW_CHSPEC_D11AC_SB_LUU :: u16 where "CYW_CHSPEC_D11AC_SB_LUU = 0x300"

lemmas chspec_defs = CYW_CHSPEC_CHAN_MASK_def CYW_CHSPEC_D11N_SB_MASK_def CYW_CHSPEC_D11N_BW_MASK_def
  CYW_CHSPEC_D11AC_BAND_MASK_def CYW_CHSPEC_D11AC_BAND_5G_def CYW_CHSPEC_D11AC_BW_MASK_def
  CYW_CHSPEC_D11AC_BW_20_def CYW_CHSPEC_D11AC_BW_40_def CYW_CHSPEC_D11AC_BW_80_def CYW_CHSPEC_D11AC_SB_MASK_def
  CYW_CHSPEC_D11AC_SB_LLL_def CYW_CHSPEC_D11AC_SB_LLU_def CYW_CHSPEC_D11AC_SB_LUL_def CYW_CHSPEC_D11AC_SB_LUU_def

definition d11ac_channel :: "u16 \<Rightarrow> int" where
  "d11ac_channel chanspec =
     (let ch = uint (chanspec AND CYW_CHSPEC_CHAN_MASK);
          bw = chanspec AND CYW_CHSPEC_D11AC_BW_MASK;
          sb = chanspec AND CYW_CHSPEC_D11AC_SB_MASK
      in if bw = CYW_CHSPEC_D11AC_BW_80 then
           (if sb = CYW_CHSPEC_D11AC_SB_LLL then ch - 6
            else if sb = CYW_CHSPEC_D11AC_SB_LLU then ch - 2
            else if sb = CYW_CHSPEC_D11AC_SB_LUL then ch + 2
            else if sb = CYW_CHSPEC_D11AC_SB_LUU then ch + 6
            else ch)
         else if bw = CYW_CHSPEC_D11AC_BW_40 then
           (if sb = CYW_CHSPEC_D11AC_SB_LLL then ch - 2
            else if sb = CYW_CHSPEC_D11AC_SB_LLU then ch + 2
            else ch)
         else ch)"

definition cyw_chanspec_to_channel :: "u16 \<Rightarrow> int" where
  "cyw_chanspec_to_channel chanspec =
     (if chanspec AND CYW_CHSPEC_D11AC_BAND_MASK = CYW_CHSPEC_D11AC_BAND_5G then d11ac_channel chanspec
      else let ch = uint (chanspec AND CYW_CHSPEC_CHAN_MASK);
               bw = drop_bit 10 (chanspec AND CYW_CHSPEC_D11N_BW_MASK);
               sb = drop_bit 8 (chanspec AND CYW_CHSPEC_D11N_SB_MASK)
           in if bw = 3 then (if sb = 1 then ch - 2 else if sb = 2 then ch + 2 else ch) else ch)"

section \<open>Information elements\<close>

text \<open>Element numbers of IEEE 802.11.\<close>

datatype ie_kind = IE_SSID | IE_RATES | IE_COUNTRY | IE_HTCAP | IE_RSN | IE_XRATES | IE_HTINFO | IE_WPA | IE_WME

text \<open>A pointer of the scan parameters points into the chain, at an offset, or to
  one of the elements the driver made itself.\<close>

datatype ie_ref = Synthesised bytes | InChain nat

record scanparams =
  sp_ptr :: "ie_kind \<Rightarrow> ie_ref option"
  sp_ies_len :: nat
  sp_chan :: int
  sp_capinfo :: u16
  sp_bintval :: u16

text \<open>The fields one element sets, in the order of the switch.\<close>

definition ie_sets :: "bytes \<Rightarrow> nat \<Rightarrow> ie_kind list" where
  "ie_sets b p =
     (let id = b ! p; len = b ! (p + 1) in
      if id = 0 then (if len > 0 then [IE_SSID] else [])
      else if id = 1 then [IE_RATES]
      else if id = 50 then [IE_XRATES]
      else if id = 7 then [IE_COUNTRY]
      else if id = 48 then [IE_RSN]
      else if id = 45 then [IE_HTCAP]
      else if id = 61 then [IE_HTINFO]
      else if id = 221 then
        (if len \<ge> 4 \<and> b ! (p + 2) = 0x00 \<and> b ! (p + 3) = 0x50 \<and> b ! (p + 4) = 0xf2 \<and> b ! (p + 5) = 0x01
           then [IE_WPA] else [])
        @ (if len \<ge> 4 \<and> b ! (p + 2) = 0x00 \<and> b ! (p + 3) = 0x50 \<and> b ! (p + 4) = 0xf2 \<and> b ! (p + 5) = 0x02
           then [IE_WME] else [])
      else [])"

definition point_to :: "nat \<Rightarrow> ie_kind list \<Rightarrow> scanparams \<Rightarrow> scanparams" where
  "point_to p ks sp = fold (\<lambda>k sp. sp\<lparr>sp_ptr := (sp_ptr sp)(k \<mapsto> InChain p)\<rparr>) ks sp"

text \<open>The walk from offset p of a chain of n bytes that starts at ie in the memory b;
  the offsets recorded are relative to the chain.\<close>

function ies_loop :: "bytes \<Rightarrow> nat \<Rightarrow> nat \<Rightarrow> scanparams \<Rightarrow> scanparams" where
  "ies_loop chain n p sp =
     (if p + 2 \<le> n then
        (let len = unat (chain ! (p + 1)) in
         if p + 2 + len > n then sp\<lparr>sp_ies_len := p\<rparr>
         else ies_loop chain n (p + 2 + len) (point_to p (ie_sets chain p) sp))
      else sp\<lparr>sp_ies_len := p\<rparr>)"
  by pat_completeness auto
termination by (relation "measure (\<lambda>(_, n, p, _). n - p)") auto

declare ies_loop.simps [simp del]

definition cyw_parse_ies :: "bytes \<Rightarrow> nat \<Rightarrow> scanparams \<Rightarrow> scanparams" where
  "cyw_parse_ies chain n sp = ies_loop chain n 0 sp"

section \<open>A BSS from the firmware\<close>

text \<open>The structure cyw_bss_info_le has 128 bytes with natural alignment; its
  fields are read at their offsets from the memory mem, in which the event data
  starts at 0 and is followed by whatever is behind it.\<close>

definition SIZEOF_BSS_INFO :: nat where "SIZEOF_BSS_INFO = 128"

definition SIZEOF_ESCAN_RESULT :: nat where "SIZEOF_ESCAN_RESULT = 140"

definition cyw_rates_2g :: bytes where
  "cyw_rates_2g = [1, 8, 0x82, 0x84, 0x8b, 0x96, 0x0c, 0x12, 0x18, 0x24]"

definition cyw_rates_5g :: bytes where
  "cyw_rates_5g = [1, 8, 0x8c, 0x12, 0x98, 0x24, 0xb0, 0x48, 0x60, 0x6c]"

text \<open>What the scan code keeps in the softc, and what it has done to the outside:
  entries handed to ieee80211_add_scan, scans reported done, escan requests
  sent. Whether there is a vap and which channels are in the table of net80211
  is fixed by the environment.\<close>

record found_bss =
  fb_bssid :: bytes
  fb_params :: scanparams
  fb_rssi :: int
  fb_noise :: int

record scan_softc =
  cs_cache_of :: cs_cache
  scan_active :: bool
  escan_sync_id :: u16
  added :: "found_bss list"
  scans_done :: nat
  escans :: "bytes list"

text \<open>The element chain of the BSS at offset off: its offset in the structure and its
  length, both 16-bit in the code.\<close>

definition ie_region :: "bytes \<Rightarrow> nat \<Rightarrow> u32 \<Rightarrow> nat \<times> nat" where
  "ie_region mem off bi_len =
     (let o16 = rd_le16 mem (off + 116);
          o16 = (if o16 < 128 \<or> o16 \<ge> ucast bi_len then 128 else o16);
          l16 = (if bi_len > ucast o16 then ucast (bi_len - ucast o16) else 0 :: u16)
      in (unat o16, unat l16))"

definition ssid_element :: "bytes \<Rightarrow> nat \<Rightarrow> bytes" where
  "ssid_element mem off =
     (let n = (if mem ! (off + 18) > 32 then 32 else mem ! (off + 18))
      in 0 # n # take (unat n) (drop (off + 19) mem))"

definition initial_params :: "bytes \<Rightarrow> nat \<Rightarrow> int \<Rightarrow> scanparams" where
  "initial_params mem off chan =
     \<lparr>sp_ptr = [IE_SSID \<mapsto> Synthesised (ssid_element mem off),
                IE_RATES \<mapsto> Synthesised (if chan \<le> 14 then cyw_rates_2g else cyw_rates_5g)],
      sp_ies_len = 0, sp_chan = chan,
      sp_capinfo = rd_le16 mem (off + 16), sp_bintval = rd_le16 mem (off + 14)\<rparr>"

definition cyw_add_bss :: "bool \<Rightarrow> (int \<Rightarrow> bool) \<Rightarrow> bytes \<Rightarrow> nat \<Rightarrow> u32 \<Rightarrow> scan_softc \<Rightarrow> scan_softc" where
  "cyw_add_bss have_vap chan_known mem off bi_len sc =
     (let chanspec = rd_le16 mem (off + 72);
          chan = cyw_chanspec_to_channel chanspec;
          rssi = sint (rd_le16 mem (off + 78));
          noise = (if mem ! (off + 80) \<noteq> 0 then sint (mem ! (off + 80)) else - 95);
          bssid = take 6 (drop (off + 8) mem);
          sc = sc\<lparr>cs_cache_of := cyw_bss_cs_cache_add bssid chanspec (cs_cache_of sc)\<rparr>;
          (ie_off, ie_len) = ie_region mem off bi_len;
          sp = initial_params mem off chan;
          sp = (if ie_len > 0 then cyw_parse_ies (drop (off + ie_off) mem) ie_len sp else sp)
      in if sp_ptr sp IE_RATES = None \<or> \<not> have_vap \<or> \<not> chan_known chan then sc
         else sc\<lparr>added := added sc @ [\<lparr>fb_bssid = bssid, fb_params = sp, fb_rssi = rssi - noise, fb_noise = noise\<rparr>]\<rparr>)"

section \<open>Escan results\<close>

definition CYW_E_STATUS_PARTIAL :: u32 where "CYW_E_STATUS_PARTIAL = 8"

text \<open>The loop over the batched entries: the ranges of memory it hands to
  cyw_add_bss, as offset and length.\<close>

fun bss_ranges :: "bytes \<Rightarrow> u32 \<Rightarrow> nat \<Rightarrow> nat \<Rightarrow> (nat \<times> u32) list" where
  "bss_ranges mem buflen off 0 = []"
| "bss_ranges mem buflen off (Suc k) =
     (let bi_len = rd_le32 mem (off + 4) in
      if bi_len < 128 \<or> bi_len > buflen then []
      else (off, bi_len) # bss_ranges mem buflen (off + unat bi_len) k)"

definition escan_ranges :: "bytes \<Rightarrow> nat \<Rightarrow> (nat \<times> u32) list" where
  "escan_ranges mem datalen =
     (let buflen = rd_le32 mem 0;
          buflen = (if buflen > of_nat datalen then of_nat datalen else buflen)
      in bss_ranges mem buflen 12 (unat (rd_le16 mem 10)))"

text \<open>data is the payload of the event, after the memory behind it.\<close>

definition cyw_escan_result_handler ::
  "bool \<Rightarrow> (int \<Rightarrow> bool) \<Rightarrow> u32 \<Rightarrow> bytes \<Rightarrow> bytes \<Rightarrow> scan_softc \<Rightarrow> scan_softc" where
  "cyw_escan_result_handler have_vap chan_known status data after sc =
     (if status \<noteq> CYW_E_STATUS_PARTIAL then
        sc\<lparr>scan_active := False, scans_done := scans_done sc + (if have_vap then 1 else 0)\<rparr>
      else if length data < SIZEOF_ESCAN_RESULT then sc
      else fold (\<lambda>(off, bi_len). cyw_add_bss have_vap chan_known (data @ after) off bi_len)
             (escan_ranges (data @ after) (length data)) sc)"

section \<open>Starting and aborting\<close>

definition CYW_ESCAN_ACTION_START :: u16 where "CYW_ESCAN_ACTION_START = 1"

definition CYW_ESCAN_ACTION_ABORT :: u16 where "CYW_ESCAN_ACTION_ABORT = 3"

text \<open>The packed request: version, action, sync id, SSID, then the parameters.\<close>

definition escan_params :: "u16 \<Rightarrow> u16 \<Rightarrow> bytes \<Rightarrow> bytes \<Rightarrow> bytes" where
  "escan_params action sync ssid params =
     le32 1 @ le16 action @ le16 sync @ le32 (of_nat (length ssid)) @ ssid @ replicate (32 - length ssid) 0
     @ replicate 6 0xff @ params"

definition start_params :: bytes where
  "start_params = [2, 0] @ le32 0xffffffff @ le32 0xffffffff @ le32 0xffffffff @ le32 0xffffffff @ le32 0 @ le16 0"

definition abort_params :: bytes where
  "abort_params = [0, 0] @ le32 0 @ le32 0 @ le32 0 @ le32 0 @ le32 0 @ le16 0"

text \<open>directed is the SSID of a directed scan, if net80211 asked for one; result is
  what the iovar call answers.\<close>

definition cyw_do_escan :: "bytes option \<Rightarrow> rc \<Rightarrow> scan_softc \<Rightarrow> rc \<times> scan_softc" where
  "cyw_do_escan directed result sc =
     (let ssid = (case directed of Some s \<Rightarrow> s | None \<Rightarrow> []);
          req = escan_params CYW_ESCAN_ACTION_START (escan_sync_id sc) ssid start_params;
          sc = sc\<lparr>escan_sync_id := escan_sync_id sc + 1, scan_active := True, escans := escans sc @ [req]\<rparr>
      in (result, if result \<noteq> ok then sc\<lparr>scan_active := False\<rparr> else sc))"

definition cyw_abort_escan :: "scan_softc \<Rightarrow> scan_softc" where
  "cyw_abort_escan sc =
     (if \<not> scan_active sc then sc
      else sc\<lparr>scan_active := False,
              escans := escans sc @ [escan_params CYW_ESCAN_ACTION_ABORT (escan_sync_id sc) [] abort_params]\<rparr>)"

section \<open>The cache as a bounded association list\<close>

definition empty_slot :: "cs_entry \<Rightarrow> bool" where
  "empty_slot e \<longleftrightarrow> cs_chanspec e = 0"

definition cs_pair :: "cs_entry \<Rightarrow> bytes \<times> u16" where
  "cs_pair e = (cs_bssid e, cs_chanspec e)"

text \<open>The slots from the oldest to the newest.\<close>

definition rot :: "cs_cache \<Rightarrow> cs_entry list" where
  "rot c = drop (bss_cs_cache_next c) (bss_cs_cache c) @ take (bss_cs_cache_next c) (bss_cs_cache c)"

definition filled :: "cs_entry list \<Rightarrow> cs_entry list" where
  "filled es = filter (\<lambda>e. \<not> empty_slot e) es"

definition cache_ok :: "cs_cache \<Rightarrow> bool" where
  "cache_ok c \<longleftrightarrow> length (bss_cs_cache c) = CYW_BSS_CS_CACHE_SIZE
     \<and> bss_cs_cache_next c < CYW_BSS_CS_CACHE_SIZE
     \<and> rot c = filter empty_slot (rot c) @ filled (rot c)
     \<and> distinct (map cs_bssid (filled (rot c)))"

definition cache_abs :: "cs_cache \<Rightarrow> (bytes \<times> u16) list" where
  "cache_abs c = map cs_pair (filled (rot c))"

definition cache_spec :: "bytes \<times> u16 \<Rightarrow> (bytes \<times> u16) list \<Rightarrow> (bytes \<times> u16) list" where
  "cache_spec x al =
     (if snd x = 0 then al
      else if map_of al (fst x) \<noteq> None then map (\<lambda>y. if fst y = fst x then x else y) al
      else (if length al = CYW_BSS_CS_CACHE_SIZE then tl al else al) @ [x])"

lemma cs_match_filled: "cs_match b e \<longleftrightarrow> \<not> empty_slot e \<and> cs_bssid e = b"
  by (simp add: cs_match_def empty_slot_def)

lemma cs_find_Some:
  "cs_find b es i = Some j \<Longrightarrow> i \<le> j \<and> j < i + length es \<and> cs_match b (es ! (j - i))"
proof (induction es arbitrary: i)
  case (Cons e es)
  show ?case
    using Cons.prems Cons.IH[of "Suc i"] by (auto simp: nth_Cons' split: if_splits)
qed simp

lemma cs_find_None: "cs_find b es i = None \<longleftrightarrow> (\<forall>e\<in>set es. \<not> cs_match b e)"
  by (induction es arbitrary: i) auto

lemma set_rot [simp]: "set (rot c) = set (bss_cs_cache c)"
  unfolding rot_def by (metis append_take_drop_id set_append Un_commute)

lemma length_rot [simp]: "length (rot c) = length (bss_cs_cache c)"
  by (simp add: rot_def)

lemma distinct_filtered_index:
  "distinct (map f (filter P xs)) \<Longrightarrow> i < length xs \<Longrightarrow> j < length xs \<Longrightarrow> P (xs ! i) \<Longrightarrow> P (xs ! j)
   \<Longrightarrow> f (xs ! i) = f (xs ! j) \<Longrightarrow> i = j"
proof (induction xs arbitrary: i j)
  case (Cons x xs)
  have no: "f x \<noteq> f (xs ! k)" if "k < length xs" "P (xs ! k)" "P x" for k
    using Cons.prems(1) that by (auto simp: in_set_conv_nth)
  show ?case
    using Cons.prems no Cons.IH[of "i - 1" "j - 1"]
    by (cases i; cases j) (auto split: if_splits dest: no[symmetric])
qed simp

lemma distinct_entries: "cache_ok c \<Longrightarrow> distinct (map cs_bssid (filled (bss_cs_cache c)))"
proof -
  assume "cache_ok c"
  then have "distinct (map cs_bssid (filled (drop (bss_cs_cache_next c) (bss_cs_cache c)))
     @ map cs_bssid (filled (take (bss_cs_cache_next c) (bss_cs_cache c))))"
    by (simp add: cache_ok_def rot_def filled_def)
  then have "distinct (map cs_bssid (filled (take (bss_cs_cache_next c) (bss_cs_cache c)
     @ drop (bss_cs_cache_next c) (bss_cs_cache c))))"
    by (auto simp: filled_def simp del: append_take_drop_id)
  then show ?thesis by simp
qed

text \<open>What a lookup finds is what the association list holds.\<close>

lemma cs_find_abs:
  assumes "cache_ok c"
  shows "map_of (cache_abs c) b =
    (case cs_find b (bss_cs_cache c) 0 of None \<Rightarrow> None | Some i \<Rightarrow> Some (cs_chanspec (bss_cs_cache c ! i)))"
proof (cases "cs_find b (bss_cs_cache c) 0")
  case None
  then have "\<forall>e\<in>set (rot c). \<not> cs_match b e" by (simp add: cs_find_None)
  then show ?thesis using None
    by (auto simp: map_of_eq_None_iff cache_abs_def filled_def cs_match_filled cs_pair_def)
next
  case (Some i)
  have e: "i < length (bss_cs_cache c)" "cs_match b (bss_cs_cache c ! i)" using cs_find_Some[OF Some] by auto
  have "map_of (cache_abs c) b = Some (cs_chanspec (bss_cs_cache c ! i))"
  proof (rule map_of_is_SomeI)
    show "distinct (map fst (cache_abs c))"
      using assms by (simp add: cache_ok_def cache_abs_def cs_pair_def[abs_def] comp_def)
    have "bss_cs_cache c ! i \<in> set (filled (rot c))" using e by (auto simp: filled_def cs_match_filled)
    then have "cs_pair (bss_cs_cache c ! i) \<in> set (cache_abs c)" unfolding cache_abs_def by simp
    then show "(b, cs_chanspec (bss_cs_cache c ! i)) \<in> set (cache_abs c)"
      using e(2) by (simp add: cs_pair_def cs_match_filled)
  qed
  then show ?thesis using Some by simp
qed

lemma replace_is_map:
  assumes "distinct (map cs_bssid (filled es))" "i < length es" "cs_match b (es ! i)"
  shows "es[i := (es ! i)\<lparr>cs_chanspec := v\<rparr>] = map (\<lambda>e. if cs_match b e then e\<lparr>cs_chanspec := v\<rparr> else e) es"
proof (rule nth_equalityI)
  fix j assume "j < length (es[i := (es ! i)\<lparr>cs_chanspec := v\<rparr>])"
  then have j: "j < length es" by simp
  show "es[i := (es ! i)\<lparr>cs_chanspec := v\<rparr>] ! j = map (\<lambda>e. if cs_match b e then e\<lparr>cs_chanspec := v\<rparr> else e) es ! j"
  proof (cases "cs_match b (es ! j)")
    case True
    then have "i = j"
      using distinct_filtered_index[of cs_bssid "\<lambda>e. \<not> empty_slot e" es i j] assms j
      by (simp add: filled_def cs_match_filled)
    then show ?thesis using True j by simp
  next
    case False
    then show ?thesis using assms(3) j by (cases "i = j") auto
  qed
qed simp

lemma cache_add_replace:
  assumes "cache_ok c" "v \<noteq> 0" "cs_find b (bss_cs_cache c) 0 = Some i"
  shows "cache_ok (cyw_bss_cs_cache_add b v c)
    \<and> cache_abs (cyw_bss_cs_cache_add b v c) = cache_spec (b, v) (cache_abs c)"
proof -
  let ?f = "\<lambda>e. if cs_match b e then e\<lparr>cs_chanspec := v\<rparr> else e"
  let ?c = "cyw_bss_cs_cache_add b v c"
  have i: "i < length (bss_cs_cache c)" "cs_match b (bss_cs_cache c ! i)"
    using cs_find_Some[OF assms(3)] by auto
  have c: "?c = c\<lparr>bss_cs_cache := map ?f (bss_cs_cache c)\<rparr>"
    using assms(2,3) replace_is_map[OF distinct_entries[OF assms(1)] i, of v]
    by (simp add: cyw_bss_cs_cache_add_def)
  have e: "empty_slot (?f e) = empty_slot e" for e
    using assms(2) by (simp add: cs_match_filled empty_slot_def)
  have r: "rot ?c = map ?f (rot c)" by (simp add: c rot_def take_map drop_map)
  have f: "filled (map ?f es) = map ?f (filled es)" "filter empty_slot (map ?f es) = map ?f (filter empty_slot es)" for es
    by (induction es) (auto simp: filled_def e)
  have bssid: "map cs_bssid (map ?f es) = map cs_bssid es" for es by simp
  have "rot c = filter empty_slot (rot c) @ filled (rot c)" using assms(1) by (simp add: cache_ok_def)
  from arg_cong[OF this, of "map ?f"]
  have "map ?f (rot c) = map ?f (filter empty_slot (rot c)) @ map ?f (filled (rot c))" by (simp only: map_append)
  then have "rot ?c = filter empty_slot (rot ?c) @ filled (rot ?c)" unfolding r f .
  moreover have "distinct (map cs_bssid (filled (rot ?c)))"
    unfolding r f bssid using assms(1) by (simp add: cache_ok_def)
  moreover have "length (bss_cs_cache ?c) = CYW_BSS_CS_CACHE_SIZE" "bss_cs_cache_next ?c < CYW_BSS_CS_CACHE_SIZE"
    using assms(1) by (simp_all add: c cache_ok_def)
  ultimately have "cache_ok ?c" unfolding cache_ok_def by blast
  moreover have "map_of (cache_abs c) b \<noteq> None" using cs_find_abs[OF assms(1), of b] assms(3) by simp
  moreover have "map cs_pair (map ?f (filled es)) = map (\<lambda>y. if fst y = b then (b, v) else y) (map cs_pair (filled es))" for es
    by (auto simp: cs_pair_def cs_match_filled filled_def)
  ultimately show ?thesis using assms(2) by (simp add: cache_spec_def cache_abs_def r f)
qed

lemma rot_insert:
  assumes "length es = CYW_BSS_CS_CACHE_SIZE" "n < CYW_BSS_CS_CACHE_SIZE"
  shows "rot \<lparr>bss_cs_cache = es[n := e], bss_cs_cache_next = (n + 1) mod CYW_BSS_CS_CACHE_SIZE\<rparr>
     = tl (drop n es @ take n es) @ [e]"
proof (cases "n + 1 = CYW_BSS_CS_CACHE_SIZE")
  case True
  then have "es[n := e] = take n es @ [e]" "length (drop n es) = 1"
    using assms by (simp_all add: upd_conv_take_nth_drop)
  then show ?thesis using True by (cases "drop n es") (auto simp: rot_def)
next
  case False
  then have "(n + 1) mod CYW_BSS_CS_CACHE_SIZE = n + 1" using assms by simp
  then have "rot \<lparr>bss_cs_cache = es[n := e], bss_cs_cache_next = (n + 1) mod CYW_BSS_CS_CACHE_SIZE\<rparr>
      = drop (Suc n) es @ take n es @ [e]"
    using assms by (simp add: rot_def drop_update_cancel take_Suc_conv_app_nth)
  moreover have "drop n es = es ! n # drop (Suc n) es"
    using assms by (simp add: Cons_nth_drop_Suc)
  ultimately show ?thesis by simp
qed

lemma cache_add_insert:
  assumes "cache_ok c" "v \<noteq> 0" "cs_find b (bss_cs_cache c) 0 = None"
  shows "cache_ok (cyw_bss_cs_cache_add b v c)
    \<and> cache_abs (cyw_bss_cs_cache_add b v c) = cache_spec (b, v) (cache_abs c)"
proof -
  let ?c = "cyw_bss_cs_cache_add b v c"
  let ?e = "\<lparr>cs_bssid = b, cs_chanspec = v\<rparr>"
  have len: "length (bss_cs_cache c) = CYW_BSS_CS_CACHE_SIZE" "bss_cs_cache_next c < CYW_BSS_CS_CACHE_SIZE"
    using assms(1) by (simp_all add: cache_ok_def)
  have "?c = \<lparr>bss_cs_cache = (bss_cs_cache c)[bss_cs_cache_next c := ?e],
      bss_cs_cache_next = (bss_cs_cache_next c + 1) mod CYW_BSS_CS_CACHE_SIZE\<rparr>"
    using assms(2,3) by (simp add: cyw_bss_cs_cache_add_def)
  then have r: "rot ?c = tl (rot c) @ [?e]" using rot_insert[OF len] by (simp add: rot_def[of c])
  have ne: "\<not> empty_slot ?e" using assms(2) by (simp add: empty_slot_def)
  define E F where "E = filter empty_slot (rot c)" and "F = filled (rot c)"
  have EF: "rot c = E @ F" using assms(1) by (simp add: cache_ok_def E_def F_def)
  have E: "filter empty_slot E = E" "filled E = []" and F: "filled F = F" "filter empty_slot F = []"
    by (simp_all add: E_def F_def filled_def)
  have lens: "length E + length F = CYW_BSS_CS_CACHE_SIZE" using len(1) EF by (metis length_append length_rot)
  have new: "b \<notin> cs_bssid ` set F"
    using assms(3) by (auto simp: cs_find_None F_def filled_def cs_match_filled)
  have dist: "distinct (map cs_bssid F)" using assms(1) by (simp add: cache_ok_def F_def)
  have split: "rot ?c = tl E @ (if E = [] then tl F else F) @ [?e]"
    using r EF by (cases E) auto
  have fs: "filled (rot ?c) = (if E = [] then tl F else F) @ [?e]" "filter empty_slot (rot ?c) = tl E"
    using E F ne unfolding split
    by (cases E; cases F; auto simp: filled_def split: if_splits)+
  have "distinct (map cs_bssid (if E = [] then tl F else F)) \<and> b \<notin> cs_bssid ` set (if E = [] then tl F else F)"
    using dist new by (cases F) auto
  then have "cache_ok ?c"
    unfolding cache_ok_def fs using len split assms(2,3) by (auto simp: cyw_bss_cs_cache_add_def CYW_BSS_CS_CACHE_SIZE_def)
  moreover have "cache_abs ?c = cache_spec (b, v) (cache_abs c)"
  proof -
    have "length F = CYW_BSS_CS_CACHE_SIZE \<longleftrightarrow> E = []" using lens by auto
    moreover have "map_of (cache_abs c) b = None" using cs_find_abs[OF assms(1), of b] assms(3) by simp
    ultimately show ?thesis using assms(2)
      by (simp add: cache_abs_def cache_spec_def fs cs_pair_def map_tl flip: F_def)
  qed
  ultimately show ?thesis ..
qed

lemma cache_add_refines:
  assumes "cache_ok c"
  shows "cache_ok (cyw_bss_cs_cache_add b v c)"
    and "cache_abs (cyw_bss_cs_cache_add b v c) = cache_spec (b, v) (cache_abs c)"
proof -
  have "cache_ok (cyw_bss_cs_cache_add b v c)
    \<and> cache_abs (cyw_bss_cs_cache_add b v c) = cache_spec (b, v) (cache_abs c)"
  proof (cases "v = 0")
    case True
    then show ?thesis using assms by (simp add: cyw_bss_cs_cache_add_def cache_spec_def)
  next
    case False
    then show ?thesis
      using cache_add_insert[OF assms False] cache_add_replace[OF assms False]
      by (cases "cs_find b (bss_cs_cache c) 0") simp_all
  qed
  then show "cache_ok (cyw_bss_cs_cache_add b v c)"
    and "cache_abs (cyw_bss_cs_cache_add b v c) = cache_spec (b, v) (cache_abs c)" by simp_all
qed

definition cache_step :: "bytes \<times> u16 \<Rightarrow> cs_cache \<Rightarrow> cs_cache" where
  "cache_step x c = cyw_bss_cs_cache_add (fst x) (snd x) c"

interpretation cs: simulation cache_ok cache_step cache_spec cache_abs
  by unfold_locales (simp_all add: cache_step_def cache_add_refines)

lemma cache_abs_nonzero: "map_of (cache_abs c) b = Some v \<Longrightarrow> v \<noteq> 0"
  by (auto dest!: map_of_SomeD simp: cache_abs_def filled_def empty_slot_def cs_pair_def)

lemma for_join_abs:
  assumes "cache_ok c"
  shows "cyw_chanspec_for_join b ch c =
    (case map_of (cache_abs c) b of Some v \<Rightarrow> v
     | None \<Rightarrow> if ch \<le> 0 then 0 else if ch \<le> 14 then 0x1000 OR word_of_int ch else 0xD000 OR word_of_int ch)"
proof (cases "cs_find b (bss_cs_cache c) 0")
  case None
  then show ?thesis using cs_find_abs[OF assms, of b] by (simp add: cyw_chanspec_for_join_def)
next
  case (Some i)
  then have m: "map_of (cache_abs c) b = Some (cs_chanspec (bss_cs_cache c ! i))"
    using cs_find_abs[OF assms, of b] by simp
  show ?thesis using Some m cache_abs_nonzero[OF m] by (simp add: cyw_chanspec_for_join_def)
qed

text \<open>C11: The cache is a bounded association list in order of insertion. Over every
  history of escan entries it keeps at most one specification per BSSID, an
  entry for a known BSSID replaces its specification in place, a new BSSID
  pushes out the oldest of 32, a zero specification changes nothing; and a join
  uses what the list holds for the BSSID and derives a specification from the
  channel number only when it holds nothing.\<close>

theorem scan_cache_refines:
  assumes "cache_ok c"
  shows "cache_ok (fold cache_step xs c)
    \<and> cache_abs (fold cache_step xs c) = fold cache_spec xs (cache_abs c)
    \<and> cyw_chanspec_for_join b ch (fold cache_step xs c) =
       (case map_of (fold cache_spec xs (cache_abs c)) b of Some v \<Rightarrow> v
        | None \<Rightarrow> if ch \<le> 0 then 0 else if ch \<le> 14 then 0x1000 OR word_of_int ch else 0xD000 OR word_of_int ch)"
  using cs.run_simulates[OF assms, of xs] for_join_abs[of "fold cache_step xs c" b ch] by auto

definition blank_cache :: cs_cache where
  "blank_cache = \<lparr>bss_cs_cache = replicate 32 \<lparr>cs_bssid = [0, 0, 0, 0, 0, 0], cs_chanspec = 0\<rparr>,
     bss_cs_cache_next = 0\<rparr>"

lemma cache_ok_blank: "cache_ok blank_cache" "cache_abs blank_cache = []"
  by (simp_all add: cache_ok_def cache_abs_def blank_cache_def CYW_BSS_CS_CACHE_SIZE_def rot_def filled_def empty_slot_def)

theorem scan_cache_refines_witness:
  "cyw_chanspec_for_join [1, 2, 3, 4, 5, 6] 48
     (fold cache_step [([1, 2, 3, 4, 5, 6], 0xd030), ([1, 2, 3, 4, 5, 7], 0x1001), ([1, 2, 3, 4, 5, 6], 0xe32a)] blank_cache)
   = 0xe32a"
  using scan_cache_refines[OF cache_ok_blank(1),
      of "[([1, 2, 3, 4, 5, 6], 0xd030), ([1, 2, 3, 4, 5, 7], 0x1001), ([1, 2, 3, 4, 5, 6], 0xe32a)]" "[1, 2, 3, 4, 5, 6]" 48]
  by (simp add: cache_ok_blank(2) cache_spec_def CYW_BSS_CS_CACHE_SIZE_def)

section \<open>Channel specifications decode to the primary channel\<close>

text \<open>The encodings of a primary channel p the header comment describes: 5 GHz
  blocks of 20, 40 and 80 MHz with the position k of the primary in the block,
  and 2.4 GHz blocks of 40 MHz in the older encoding.\<close>

definition enc_5g_20 :: "int \<Rightarrow> u16" where
  "enc_5g_20 p = 0xD000 OR word_of_int p"

definition enc_5g_40 :: "int \<Rightarrow> nat \<Rightarrow> u16" where
  "enc_5g_40 p k = 0xD800 OR (push_bit 8 (of_nat k) OR word_of_int (p + 2 - 4 * int k))"

definition enc_5g_80 :: "int \<Rightarrow> nat \<Rightarrow> u16" where
  "enc_5g_80 p k = 0xE000 OR (push_bit 8 (of_nat k) OR word_of_int (p + 6 - 4 * int k))"

definition enc_2g_40 :: "int \<Rightarrow> nat \<Rightarrow> u16" where
  "enc_2g_40 p k = 0x0C00 OR (push_bit 8 (of_nat (k + 1)) OR word_of_int (p + 2 - 4 * int k))"

lemma low_byte:
  assumes "0 \<le> i" "i < 256"
  shows "(word_of_int i :: u16) AND 0xff = word_of_int i" "uint (word_of_int i :: u16) = i"
proof -
  have "(2::int) ^ 16 = 65536" by simp
  then show u: "uint (word_of_int i :: u16) = i" using assms by (simp add: uint_word_of_int)
  have "(word_of_int i :: u16) AND 0xff = take_bit 8 (word_of_int i)"
    by (simp add: take_bit_eq_mask mask_eq_exp_minus_1)
  also have "\<dots> = word_of_int i"
    by (rule word_uint_eqI) (use assms u in \<open>simp add: unsigned_take_bit_eq take_bit_int_eq_self\<close>)
  finally show "(word_of_int i :: u16) AND 0xff = word_of_int i" .
qed

lemma low_byte_masks:
  assumes "0 \<le> i" "i < 256"
  shows "(word_of_int i :: u16) AND 0xc000 = 0" "(word_of_int i :: u16) AND 0x3800 = 0"
    "(word_of_int i :: u16) AND 0x0700 = 0" "(word_of_int i :: u16) AND 0x0300 = 0"
    "(word_of_int i :: u16) AND 0x0c00 = 0"
proof -
  have *: "(word_of_int i :: u16) AND m = word_of_int i AND (0xff AND m)" for m
    using low_byte(1)[OF assms] by (metis and.assoc)
  show "(word_of_int i :: u16) AND 0xc000 = 0" "(word_of_int i :: u16) AND 0x3800 = 0"
    "(word_of_int i :: u16) AND 0x0700 = 0" "(word_of_int i :: u16) AND 0x0300 = 0"
    "(word_of_int i :: u16) AND 0x0c00 = 0"
    by (subst *; simp)+
qed

lemma masked_or:
  fixes a b c m :: u16
  shows "(a OR (b OR c)) AND m = (a AND m) OR ((b AND m) OR (c AND m))" "(a OR c) AND m = (a AND m) OR (c AND m)"
  by (simp_all add: bit.conj_disj_distrib2)

lemmas chspec_eval = cyw_chanspec_to_channel_def d11ac_channel_def chspec_defs Let_def masked_or low_byte_masks low_byte

lemma decode_center:
  assumes "0 \<le> i" "i < 256"
  shows "k < 2 \<Longrightarrow> cyw_chanspec_to_channel (0xD800 OR (push_bit 8 (of_nat k) OR word_of_int i)) = i - 2 + 4 * int k"
    and "k < 2 \<Longrightarrow> cyw_chanspec_to_channel (0x0C00 OR (push_bit 8 (of_nat (k + 1)) OR word_of_int i)) = i - 2 + 4 * int k"
    and "k < 4 \<Longrightarrow> cyw_chanspec_to_channel (0xE000 OR (push_bit 8 (of_nat k) OR word_of_int i)) = i - 6 + 4 * int k"
proof -
  show "k < 2 \<Longrightarrow> cyw_chanspec_to_channel (0xD800 OR (push_bit 8 (of_nat k) OR word_of_int i)) = i - 2 + 4 * int k"
    using assms by (cases "k = 0"; cases "k = 1") (simp_all add: chspec_eval)
  show "k < 2 \<Longrightarrow> cyw_chanspec_to_channel (0x0C00 OR (push_bit 8 (of_nat (k + 1)) OR word_of_int i)) = i - 2 + 4 * int k"
    using assms by (cases "k = 0"; cases "k = 1") (simp_all add: chspec_eval)
  have "k = 0 \<or> k = 1 \<or> k = 2 \<or> k = 3" if "k < 4" using that by auto
  then show "k < 4 \<Longrightarrow> cyw_chanspec_to_channel (0xE000 OR (push_bit 8 (of_nat k) OR word_of_int i)) = i - 6 + 4 * int k"
    using assms by (cases "k = 0"; cases "k = 1"; cases "k = 2"; cases "k = 3") (simp_all add: chspec_eval)
qed

text \<open>C12: Decoding gives back the primary channel: of every 20, 40 and 80 MHz
  specification at 5 GHz, whatever the position of the primary in the block, of
  the 40 MHz ones at 2.4 GHz, and of what a join falls back to when the BSSID
  is not cached, for every channel number from 1 to 255.\<close>

theorem chanspec_roundtrip:
  assumes "cache_ok c" "map_of (cache_abs c) b = None" "1 \<le> ch" "ch \<le> 255"
    and "k4 < 4" "0 \<le> p + 6 - 4 * int k4" "p + 6 - 4 * int k4 < 256"
    and "k2 < 2" "0 \<le> p + 2 - 4 * int k2" "p + 2 - 4 * int k2 < 256"
  shows "cyw_chanspec_to_channel (cyw_chanspec_for_join b ch c) = ch
    \<and> cyw_chanspec_to_channel (enc_5g_20 ch) = ch
    \<and> cyw_chanspec_to_channel (enc_5g_40 p k2) = p
    \<and> cyw_chanspec_to_channel (enc_5g_80 p k4) = p
    \<and> cyw_chanspec_to_channel (enc_2g_40 p k2) = p"
proof -
  have ch: "0 \<le> ch" "ch < 256" using assms(3,4) by simp_all
  have "cyw_chanspec_to_channel (enc_5g_20 ch) = ch"
    using ch by (simp add: enc_5g_20_def chspec_eval)
  moreover have "cyw_chanspec_to_channel (0x1000 OR word_of_int ch) = ch"
    using ch by (simp add: chspec_eval)
  moreover have "cyw_chanspec_to_channel (enc_5g_40 p k2) = p" "cyw_chanspec_to_channel (enc_2g_40 p k2) = p"
    unfolding enc_5g_40_def enc_2g_40_def decode_center[OF assms(9,10)] using decode_center(1,2)[OF assms(9,10,8)]
    by simp_all
  moreover have "cyw_chanspec_to_channel (enc_5g_80 p k4) = p"
    unfolding enc_5g_80_def using decode_center(3)[OF assms(6,7,5)] by simp
  ultimately show ?thesis
    using assms(3,4) by (simp add: for_join_abs[OF assms(1)] assms(2) enc_5g_20_def)
qed

theorem chanspec_roundtrip_witness:
  "cyw_chanspec_to_channel (enc_5g_80 48 3) = 48 \<and> enc_5g_80 48 3 = 0xe32a
   \<and> cyw_chanspec_to_channel (cyw_chanspec_for_join [1, 2, 3, 4, 5, 6] 36 blank_cache) = 36"
  using chanspec_roundtrip[OF cache_ok_blank(1), of "[1, 2, 3, 4, 5, 6]" 36 3 48 0]
  by (simp add: cache_ok_blank(2)) (simp add: enc_5g_80_def)

section \<open>The walk stays in the chain\<close>

definition ie_id :: "ie_kind \<Rightarrow> u8" where
  "ie_id k = (case k of IE_SSID \<Rightarrow> 0 | IE_RATES \<Rightarrow> 1 | IE_COUNTRY \<Rightarrow> 7 | IE_HTCAP \<Rightarrow> 45 | IE_RSN \<Rightarrow> 48
     | IE_XRATES \<Rightarrow> 50 | IE_HTINFO \<Rightarrow> 61 | IE_WPA \<Rightarrow> 221 | IE_WME \<Rightarrow> 221)"

text \<open>A pointer of kind k into a chain with ies_len accepted bytes: a whole element
  with the identifier of the kind, an SSID not being empty.\<close>

definition ie_pointer_ok :: "bytes \<Rightarrow> nat \<Rightarrow> ie_kind \<Rightarrow> nat \<Rightarrow> bool" where
  "ie_pointer_ok chain lim k p \<longleftrightarrow> p + 2 + unat (chain ! (p + 1)) \<le> lim \<and> chain ! p = ie_id k
     \<and> (k = IE_SSID \<longrightarrow> chain ! (p + 1) \<noteq> 0)"

definition ie_pointers_ok :: "bytes \<Rightarrow> nat \<Rightarrow> scanparams \<Rightarrow> bool" where
  "ie_pointers_ok chain lim sp \<longleftrightarrow> (\<forall>k p. sp_ptr sp k = Some (InChain p) \<longrightarrow> ie_pointer_ok chain lim k p)"

lemma ie_sets_ok: "k \<in> set (ie_sets chain p) \<Longrightarrow> chain ! p = ie_id k \<and> (k = IE_SSID \<longrightarrow> chain ! (p + 1) \<noteq> 0)"
  by (auto simp: ie_sets_def Let_def ie_id_def split: if_splits)

lemma point_to_ptr: "sp_ptr (point_to p ks sp) k = (if k \<in> set ks then Some (InChain p) else sp_ptr sp k)"
  by (induction ks arbitrary: sp) (auto simp: point_to_def)

lemma ie_pointer_mono: "ie_pointer_ok chain lim k p \<Longrightarrow> lim \<le> lim' \<Longrightarrow> ie_pointer_ok chain lim' k p"
  by (simp add: ie_pointer_ok_def)

lemma ies_loop_ok:
  assumes "ie_pointers_ok chain p sp" "p \<le> n"
  shows "ie_pointers_ok chain (sp_ies_len (ies_loop chain n p sp)) (ies_loop chain n p sp)
    \<and> sp_ies_len (ies_loop chain n p sp) \<le> n
    \<and> (let e = sp_ies_len (ies_loop chain n p sp) in e + 2 \<le> n \<longrightarrow> n < e + 2 + unat (chain ! (e + 1)))"
  using assms
proof (induction chain n p sp rule: ies_loop.induct)
  case (1 chain n p sp)
  let ?len = "unat (chain ! (p + 1))"
  show ?case
  proof (cases "p + 2 + ?len \<le> n")
    case True
    then have step: "ies_loop chain n p sp = ies_loop chain n (p + 2 + ?len) (point_to p (ie_sets chain p) sp)"
      by (subst ies_loop.simps) (simp add: Let_def)
    have "ie_pointers_ok chain (p + 2 + ?len) (point_to p (ie_sets chain p) sp)"
      unfolding ie_pointers_ok_def
    proof (intro allI impI)
      fix k q
      assume q: "sp_ptr (point_to p (ie_sets chain p) sp) k = Some (InChain q)"
      show "ie_pointer_ok chain (p + 2 + ?len) k q"
      proof (cases "k \<in> set (ie_sets chain p)")
        case True
        then show ?thesis using q ie_sets_ok[OF True] by (simp add: point_to_ptr ie_pointer_ok_def)
      next
        case False
        then have "ie_pointer_ok chain p k q" using q 1(2) by (simp add: point_to_ptr ie_pointers_ok_def)
        then show ?thesis by (rule ie_pointer_mono) simp
      qed
    qed
    then show ?thesis unfolding step using 1(1)[of ?len] True by simp
  next
    case False
    then have "ies_loop chain n p sp = sp\<lparr>sp_ies_len := p\<rparr>"
      by (subst ies_loop.simps) (simp add: Let_def)
    then show ?thesis using 1(2,3) False by (simp add: ie_pointers_ok_def Let_def)
  qed
qed

lemma ies_loop_keeps: "sp_ptr sp k \<noteq> None \<Longrightarrow> sp_ptr (ies_loop c n p sp) k \<noteq> None"
proof (induction c n p sp rule: ies_loop.induct)
  case (1 c n p sp)
  then show ?case
    by (subst ies_loop.simps) (simp add: Let_def point_to_ptr)
qed

lemma ies_loop_chan [simp]: "sp_chan (ies_loop c n p sp) = sp_chan sp"
proof (induction c n p sp rule: ies_loop.induct)
  case (1 c n p sp)
  have "sp_chan (point_to p ks sp) = sp_chan sp" for ks
    by (induction ks arbitrary: sp) (simp_all add: point_to_def)
  then show ?case using 1 by (subst ies_loop.simps) (simp add: Let_def)
qed


section \<open>Escan results\<close>

lemma add_bss_cache:
  "cs_cache_of (cyw_add_bss v known mem off l sc)
     = cyw_bss_cs_cache_add (take 6 (drop (off + 8) mem)) (rd_le16 mem (off + 72)) (cs_cache_of sc)"
  by (simp add: cyw_add_bss_def Let_def split: prod.split)

lemma add_bss_added:
  "added (cyw_add_bss v known mem off l sc) = added sc
   \<or> (\<exists>e. added (cyw_add_bss v known mem off l sc) = added sc @ [e]
        \<and> fb_bssid e = take 6 (drop (off + 8) mem)
        \<and> sp_chan (fb_params e) = cyw_chanspec_to_channel (rd_le16 mem (off + 72)))"
  by (auto simp: cyw_add_bss_def Let_def cyw_parse_ies_def initial_params_def split: prod.splits)

text \<open>What a scan told net80211 about a BSS is what a join uses: after the entry of
  a BSS with a specification is added, a join of its BSSID is given exactly the
  specification the firmware reported, on any channel number, and the entry
  that reached net80211, if one did, names the primary channel of that same
  specification.\<close>

theorem scan_then_join:
  assumes "cache_ok (cs_cache_of sc)" "rd_le16 mem (off + 72) \<noteq> 0"
    and "sc' = cyw_add_bss have_vap chan_known mem off bi_len sc"
  shows "cache_ok (cs_cache_of sc')
    \<and> cyw_chanspec_for_join (take 6 (drop (off + 8) mem)) ch (cs_cache_of sc') = rd_le16 mem (off + 72)
    \<and> (\<exists>es. added sc' = added sc @ es \<and> length es \<le> 1
         \<and> (\<forall>e\<in>set es. fb_bssid e = take 6 (drop (off + 8) mem)
              \<and> sp_chan (fb_params e)
                 = cyw_chanspec_to_channel (cyw_chanspec_for_join (fb_bssid e) ch (cs_cache_of sc'))))"
proof -
  let ?b = "take 6 (drop (off + 8) mem)" and ?v = "rd_le16 mem (off + 72)"
  have c: "cs_cache_of sc' = cyw_bss_cs_cache_add ?b ?v (cs_cache_of sc)"
    using assms(3) add_bss_cache by simp
  have ok: "cache_ok (cs_cache_of sc')" unfolding c by (rule cache_add_refines[OF assms(1)])
  have "map_of (cache_abs (cs_cache_of sc')) ?b = Some ?v"
    unfolding c cache_add_refines(2)[OF assms(1)]
  proof -
    have upd: "map_of (map (\<lambda>y. if fst y = ?b then (?b, ?v) else y) al) ?b = Some ?v"
      if "map_of al ?b \<noteq> None" for al :: "(bytes \<times> u16) list"
      using that by (induction al) auto
    have new: "map_of (al @ [(?b, ?v)]) ?b = Some ?v" if "map_of al ?b = None" for al :: "(bytes \<times> u16) list"
      using that by (simp add: map_add_def)
    have tl: "map_of al ?b = None \<Longrightarrow> map_of (tl al) ?b = None" for al :: "(bytes \<times> u16) list"
      by (cases al) (auto split: if_splits)
    show "map_of (cache_spec (?b, ?v) (cache_abs (cs_cache_of sc))) ?b = Some ?v"
      using assms(2) upd new tl by (auto simp: cache_spec_def)
  qed
  then have join: "cyw_chanspec_for_join ?b ch (cs_cache_of sc') = ?v"
    by (simp add: for_join_abs[OF ok])
  have "\<exists>es. added sc' = added sc @ es \<and> length es \<le> 1
         \<and> (\<forall>e\<in>set es. fb_bssid e = ?b \<and> sp_chan (fb_params e) = cyw_chanspec_to_channel ?v)"
    using add_bss_added[of have_vap chan_known mem off bi_len sc] unfolding assms(3)
  proof
    assume "added (cyw_add_bss have_vap chan_known mem off bi_len sc) = added sc"
    then show "\<exists>es. added (cyw_add_bss have_vap chan_known mem off bi_len sc) = added sc @ es \<and> length es \<le> 1
         \<and> (\<forall>e\<in>set es. fb_bssid e = ?b \<and> sp_chan (fb_params e) = cyw_chanspec_to_channel ?v)"
      by (intro exI[of _ "[]"]) simp
  next
    assume "\<exists>e. added (cyw_add_bss have_vap chan_known mem off bi_len sc) = added sc @ [e]
        \<and> fb_bssid e = ?b \<and> sp_chan (fb_params e) = cyw_chanspec_to_channel ?v"
    then obtain e where "added (cyw_add_bss have_vap chan_known mem off bi_len sc) = added sc @ [e]"
      "fb_bssid e = ?b" "sp_chan (fb_params e) = cyw_chanspec_to_channel ?v" by blast
    then show "\<exists>es. added (cyw_add_bss have_vap chan_known mem off bi_len sc) = added sc @ es \<and> length es \<le> 1
         \<and> (\<forall>e\<in>set es. fb_bssid e = ?b \<and> sp_chan (fb_params e) = cyw_chanspec_to_channel ?v)"
      by (intro exI[of _ "[e]"]) simp
  qed
  then show ?thesis using ok join by (metis (no_types, lifting))
qed

definition blank_scan :: scan_softc where
  "blank_scan = \<lparr>cs_cache_of = blank_cache, scan_active = False, escan_sync_id = 0, added = [],
     scans_done = 0, escans = []\<rparr>"

theorem scan_then_join_witness:
  "cyw_chanspec_for_join (take 6 (drop 8 (replicate 72 7 @ le16 0xe32a @ replicate 60 0))) 48
     (cs_cache_of (cyw_add_bss True (\<lambda>_. True) (replicate 72 7 @ le16 0xe32a @ replicate 60 0) 0 128 blank_scan))
   = 0xe32a"
proof -
  have v: "rd_le16 (replicate 72 7 @ le16 0xe32a @ replicate 60 0) 72 = 0xe32a"
    by (rule rd_le16_append) simp
  show ?thesis
    using scan_then_join[of blank_scan "replicate 72 7 @ le16 0xe32a @ replicate 60 0" 0 _ True "\<lambda>_. True" 128, OF _ _ refl]
    by (simp only: v add_0) (simp add: blank_scan_def cache_ok_blank)
qed

lemma rd_le32_in_prefix: "i + 3 < length data \<Longrightarrow> rd_le32 (data @ after) i = rd_le32 data i"
  by (simp add: rd_le32_def nth_append)

lemma rd_le16_in_prefix: "i + 1 < length data \<Longrightarrow> rd_le16 (data @ after) i = rd_le16 data i"
  by (simp add: rd_le16_def nth_append)

text \<open>The length check of the result handler compares an entry with the whole event
  and not with what is left of it. A partial result of L bytes whose first entry
  gives L as its length is accepted, although the entry starts after the 12
  bytes of the header: the range handed on, and the element chain walked in it,
  ends 12 bytes behind the event.\<close>

theorem escan_reads_past_event:
  assumes "SIZEOF_ESCAN_RESULT \<le> length data" "length data < 2 ^ 16"
    and "rd_le32 data 0 = of_nat (length data)" "rd_le32 data 16 = of_nat (length data)"
    and "rd_le16 data 10 \<noteq> 0"
    and "ie_region (data @ after) 12 (of_nat (length data)) = (ie_off, ie_len)"
  shows "\<exists>rest. escan_ranges (data @ after) (length data) = (12, of_nat (length data)) # rest
    \<and> 12 + ie_off + ie_len = length data + 12 \<and> 0 < ie_len"
proof -
  let ?L = "length data"
  have len: "140 \<le> ?L" "?L < 65536" using assms(1,2) by (simp_all add: SIZEOF_ESCAN_RESULT_def)
  have u: "unat (of_nat ?L :: u32) = ?L" using len by (simp add: unat_of_nat take_bit_nat_eq_self)
  have u16: "unat (of_nat ?L :: u16) = ?L" using len by (simp add: unat_of_nat take_bit_nat_eq_self)
  have r: "rd_le32 (data @ after) 0 = of_nat ?L" "rd_le32 (data @ after) 16 = of_nat ?L"
    "rd_le16 (data @ after) 10 = rd_le16 data 10"
    using len assms(3,4) by (simp_all add: rd_le32_in_prefix rd_le16_in_prefix)
  obtain k where k: "unat (rd_le16 data 10) = Suc k"
    using assms(5) by (metis not0_implies_Suc unat_eq_zero)
  have big: "\<not> (of_nat ?L :: u32) < 128" using len u by (simp add: word_less_nat_alt)
  have "escan_ranges (data @ after) ?L = (12, of_nat ?L) # bss_ranges (data @ after) (of_nat ?L) (12 + ?L) k"
    using r k big u by (simp add: escan_ranges_def Let_def)
  moreover
  define o0 where "o0 = rd_le16 (data @ after) (12 + 116)"
  define o1 where "o1 = (if o0 < 128 \<or> o0 \<ge> (of_nat ?L :: u16) then 128 else o0)"
  have cast: "(ucast (of_nat ?L :: u32) :: u16) = of_nat ?L"
    unfolding word_unat_eq_iff using len u u16 by (simp add: unsigned_ucast_eq take_bit_nat_eq_self)
  have o1: "unat o1 < ?L"
  proof (cases "o0 < 128 \<or> o0 \<ge> (of_nat ?L :: u16)")
    case True
    then show ?thesis using len by (simp add: o1_def)
  next
    case False
    then have "unat o0 < unat (of_nat ?L :: u16)" by (simp add: word_less_nat_alt not_le)
    then show ?thesis using False u16 by (simp add: o1_def)
  qed
  have u1: "unat (ucast o1 :: u32) = unat o1"
    using o1 len by (simp add: unsigned_ucast_eq take_bit_nat_eq_self)
  have gt: "(ucast o1 :: u32) < of_nat ?L" using o1 u u1 by (simp add: word_less_nat_alt)
  have sub: "unat (of_nat ?L - ucast o1 :: u32) = ?L - unat o1"
    using gt u u1 by (simp add: unat_sub_if_size word_less_nat_alt)
  have "unat (ucast (of_nat ?L - ucast o1 :: u32) :: u16) = ?L - unat o1"
    using len sub by (simp add: unsigned_ucast_eq take_bit_nat_eq_self)
  then have "(ie_off, ie_len) = (unat o1, ?L - unat o1)"
    using assms(6) gt unfolding ie_region_def Let_def cast o0_def[symmetric] o1_def[symmetric] by auto
  then have "12 + ie_off + ie_len = ?L + 12 \<and> 0 < ie_len" using o1 by simp
  ultimately show ?thesis by blast
qed

text \<open>An event of 140 bytes with one entry that claims them all.\<close>

definition bad_event :: bytes where
  "bad_event = le32 140 @ replicate 6 0 @ le16 1 @ replicate 4 0 @ le32 140 @ replicate 120 0"

lemma bad_event_fields:
  "length bad_event = 140" "rd_le32 bad_event 0 = 140" "rd_le16 bad_event 10 = 1" "rd_le32 bad_event 16 = 140"
proof -
  show "length bad_event = 140" by (simp add: bad_event_def)
  show "rd_le32 bad_event 0 = 140"
    using rd_le32_append[of 0 "[]" 140] by (simp add: bad_event_def)
  show "rd_le16 bad_event 10 = 1"
    using rd_le16_append[of 10 "le32 140 @ replicate 6 0" 1] by (simp add: bad_event_def)
  show "rd_le32 bad_event 16 = 140"
    using rd_le32_append[of 16 "le32 140 @ replicate 6 0 @ le16 1 @ replicate 4 0" 140] by (simp add: bad_event_def)
qed

theorem escan_reads_past_event_witness:
  "\<exists>rest. escan_ranges (bad_event @ [1, 2, 3]) 140 = (12, 140) # rest"
proof -
  obtain x y where r: "ie_region (bad_event @ [1, 2, 3]) 12 140 = (x, y)" by fastforce
  show ?thesis
    using escan_reads_past_event[of bad_event "[1, 2, 3]" x y] r
    by (auto simp: bad_event_fields SIZEOF_ESCAN_RESULT_def)
qed

text \<open>A scan is started with the sync id n and aborted with n + 1: the start
  increments the counter after it has read it.\<close>

lemma abort_sync_id:
  assumes "cyw_do_escan directed ok sc = (r, sc')"
  shows "\<exists>req ab. escans (cyw_abort_escan sc') = escans sc @ [req, ab]
     \<and> rd_le16 req 6 = escan_sync_id sc \<and> rd_le16 ab 6 = escan_sync_id sc + 1"
proof -
  have f: "rd_le16 (escan_params a n s ps) 6 = n" for a n s ps
    using rd_le16_append[of 6 "le32 1 @ le16 a" n] by (simp add: escan_params_def)
  show ?thesis using assms by (auto simp: cyw_do_escan_def cyw_abort_escan_def Let_def f)
qed

end
