(* ===== verification/CywCfg.thy ===== *)
theory CywCfg
  imports CywReq CywEvents CywScan
begin

text \<open>
  The net80211 side of the CYW43455 driver (src/cyw43455_cfg.c) and the security
  settings (src/cyw43455_security.c), over the request interface of CywReq: the
  transitions of the association, keys, the interface going up and down, the
  life of the virtual interface and the channel list. net80211 itself (its
  default transition, channel builders and interface set-up) is a parameter;
  locks and log lines are left out.
\<close>

section \<open>State\<close>

text \<open>The fields of the softc the operations share.\<close>

record cfg =
  assoc_of :: assoc
  scan_of :: scan_softc
  join_bssid :: bytes
  dongle_up :: bool
  psk :: bytes
  psk_len :: u16

text \<open>What a transition reads of the interface: the node it joins (its address, its
  name with as many bytes as its length field says, its channel number), three
  of its flags, and whether the management frame timer is armed.\<close>

record bss =
  ni_bssid :: bytes
  ni_essid :: bytes
  ni_chan :: int

record viface =
  iv_bss :: "bss option"
  f_wpa2 :: bool
  f_wpa1 :: bool
  f_privacy :: bool
  mgtsend :: bool

section \<open>Security settings\<close>

definition CYW_WSEC_NONE :: u32 where "CYW_WSEC_NONE = 0"

definition CYW_WEP_ENABLED :: u32 where "CYW_WEP_ENABLED = 1"

definition CYW_TKIP_ENABLED :: u32 where "CYW_TKIP_ENABLED = 2"

definition CYW_AES_ENABLED :: u32 where "CYW_AES_ENABLED = 4"

definition CYW_WPA_AUTH_DISABLED :: u32 where "CYW_WPA_AUTH_DISABLED = 0"

definition CYW_WPA_AUTH_PSK :: u32 where "CYW_WPA_AUTH_PSK = 4"

definition CYW_WPA2_AUTH_PSK :: u32 where "CYW_WPA2_AUTH_PSK = 0x80"

definition CYW_WSEC_PASSPHRASE :: u16 where "CYW_WSEC_PASSPHRASE = 1"

definition CYW_WSEC_MAX_PSK_LEN :: nat where "CYW_WSEC_MAX_PSK_LEN = 64"

definition WLC_SET_WSEC_PMK :: u32 where "WLC_SET_WSEC_PMK = 268"

definition security_script :: "u32 \<Rightarrow> u32 \<Rightarrow> fwreq list" where
  "security_script wsec wpa_auth =
     [SetVar (cname ''auth'') (le32 0), SetVar (cname ''wsec'') (le32 wsec), SetVar (cname ''wpa_auth'') (le32 wpa_auth)]"

definition cyw_set_security :: "'s call \<Rightarrow> u32 \<Rightarrow> u32 \<Rightarrow> 's \<Rightarrow> rc \<times> 's" where
  "cyw_set_security call wsec wpa_auth s = call_until call (security_script wsec wpa_auth) s"

definition pmk_payload :: "bytes \<Rightarrow> bytes" where
  "pmk_payload key =
     le16 (of_nat (length key)) @ le16 CYW_WSEC_PASSPHRASE @ key @ replicate (CYW_WSEC_MAX_PSK_LEN - length key) 0"

definition cyw_set_pmk :: "'s call \<Rightarrow> bytes \<Rightarrow> 's \<Rightarrow> rc \<times> 's" where
  "cyw_set_pmk call key s =
     (if CYW_WSEC_MAX_PSK_LEN < length key then (fail EINVAL, s)
      else case call (SetCmd WLC_SET_WSEC_PMK (pmk_payload key)) s of (e, _, s) \<Rightarrow> (e, s))"

text \<open>The write-only sysctl: err is the result of the string handler, new what it
  copied in, None for a read.\<close>

definition cyw_sysctl_psk :: "rc \<Rightarrow> bytes option \<Rightarrow> cfg \<Rightarrow> rc \<times> cfg" where
  "cyw_sysctl_psk err new sc =
     (case new of
        None \<Rightarrow> (err, sc)
      | Some buf \<Rightarrow>
          if err \<noteq> ok then (err, sc)
          else let str = takeWhile (\<lambda>c. c \<noteq> 0) buf; len = length str
          in if len < 8 \<or> 63 < len then (fail EINVAL, sc)
             else (ok, sc\<lparr>psk := str @ replicate (CYW_WSEC_MAX_PSK_LEN - len) 0, psk_len := of_nat len\<rparr>))"

section \<open>Leaving and joining a network\<close>

definition WLC_SET_SSID :: u32 where "WLC_SET_SSID = 26"

definition WLC_GET_CHANNEL :: u32 where "WLC_GET_CHANNEL = 29"

definition WLC_DISASSOC :: u32 where "WLC_DISASSOC = 52"

text \<open>The structures on the wire: the SSID, the packed scan block, and the association
  block with its natural padding, whose list has one entry even when unused.\<close>

definition ssid_le :: "bytes \<Rightarrow> bytes" where
  "ssid_le essid = le32 (of_nat (length essid)) @ essid @ replicate (32 - length essid) 0"

definition scan_le :: "u16 \<Rightarrow> bytes" where
  "scan_le chanspec =
     [0xff] @ (if chanspec \<noteq> 0 then le32 16 @ le32 320 @ le32 400 else le32 (- 1) @ le32 (- 1) @ le32 (- 1)) @ le32 (- 1)"

definition assoc_le :: "bytes \<Rightarrow> u16 \<Rightarrow> bytes" where
  "assoc_le bssid chanspec =
     bssid @ [0, 0] @ (if chanspec \<noteq> 0 then le32 1 @ le16 chanspec else le32 0 @ le16 0) @ [0, 0]"

definition ext_join_params :: "bytes \<Rightarrow> bytes \<Rightarrow> u16 \<Rightarrow> bytes" where
  "ext_join_params essid bssid chanspec = ssid_le essid @ scan_le chanspec @ assoc_le bssid chanspec"

definition join_params :: "bytes \<Rightarrow> bytes \<Rightarrow> u16 \<Rightarrow> bytes" where
  "join_params essid bssid chanspec = ssid_le essid @ assoc_le bssid chanspec"

definition scbval :: "bytes \<Rightarrow> bytes" where
  "scbval ea = le32 3 @ ea @ [0, 0]"

definition join_security :: "viface \<Rightarrow> u32 \<times> u32" where
  "join_security v =
     (if f_wpa2 v then (CYW_AES_ENABLED, CYW_WPA2_AUTH_PSK)
      else if f_wpa1 v then (CYW_TKIP_ENABLED, CYW_WPA_AUTH_PSK)
      else if f_privacy v then (CYW_WEP_ENABLED, CYW_WPA_AUTH_DISABLED)
      else (CYW_WSEC_NONE, CYW_WPA_AUTH_DISABLED))"

definition newstate_init :: "'s call \<Rightarrow> cfg \<Rightarrow> 's \<Rightarrow> cfg \<times> 's" where
  "newstate_init call sc s =
     (if link_up (assoc_of sc)
      then (sc\<lparr>assoc_of := (assoc_of sc)\<lparr>link_up := False\<rparr>\<rparr>, call_all call [SetCmd WLC_DISASSOC (scbval (join_bssid sc))] s)
      else (sc, s))"

definition abort_scan :: "'s call \<Rightarrow> cfg \<Rightarrow> 's \<Rightarrow> cfg \<times> 's" where
  "abort_scan call sc s =
     (let t = cyw_abort_escan (scan_of sc) in
      (sc\<lparr>scan_of := t\<rparr>,
       if scan_active (scan_of sc) then call_all call [SetVar (cname ''escan'') (List.last (escans t))] s else s))"

text \<open>The channel is set before the join, and read back with three other values that
  are only printed; the result of neither is looked at.\<close>

definition park_script :: "u16 \<Rightarrow> fwreq list" where
  "park_script chanspec = (if chanspec \<noteq> 0 then [SetVar (cname ''chanspec'') (le32 (ucast chanspec))] else [])"

definition prejoin_script :: "fwreq list" where
  "prejoin_script =
     [GetCmd WLC_GET_CHANNEL 4, GetVar (cname ''chanspec'') 4, GetVar (cname ''qtxpower'') 4, GetVar (cname ''country'') 12]"

definition join_request :: "bss \<Rightarrow> u16 \<Rightarrow> fwreq" where
  "join_request ni chanspec = SetVar (cname ''join'') (ext_join_params (ni_essid ni) (ni_bssid ni) chanspec)"

definition fallback_request :: "bss \<Rightarrow> u16 \<Rightarrow> fwreq" where
  "fallback_request ni chanspec = SetCmd WLC_SET_SSID (join_params (ni_essid ni) (ni_bssid ni) chanspec)"

definition newstate_auth :: "'s call \<Rightarrow> viface \<Rightarrow> cfg \<Rightarrow> 's \<Rightarrow> cfg \<times> 's" where
  "newstate_auth call v sc s =
     (let (sc, s) = abort_scan call sc s in
      case iv_bss v of
        None \<Rightarrow> (sc, s)
      | Some ni \<Rightarrow>
          let (wsec, wpa_auth) = join_security v;
              chanspec = cyw_chanspec_for_join (ni_bssid ni) (ni_chan ni) (cs_cache_of (scan_of sc));
              s = call_all call (park_script chanspec) s;
              s = call_all call prejoin_script s;
              (_, s) = cyw_set_security call wsec wpa_auth s;
              sc = sc\<lparr>join_bssid := ni_bssid ni\<rparr>;
              (err, _, s) = call (join_request ni chanspec) s
          in (sc, if err \<noteq> ok then call_all call [fallback_request ni chanspec] s else s))"

text \<open>dflt is the transition function of net80211 that the driver replaced; the timer
  is stopped after it.\<close>

definition cyw_newstate ::
    "'s call \<Rightarrow> (iv_state \<Rightarrow> viface \<Rightarrow> int \<times> viface) \<Rightarrow> iv_state \<Rightarrow> viface \<Rightarrow> cfg \<Rightarrow> 's \<Rightarrow> int \<times> viface \<times> cfg \<times> 's" where
  "cyw_newstate call dflt nstate v sc s =
     (let (sc, s) = (if nstate = S_INIT then newstate_init call sc s
                     else if nstate = S_AUTH then newstate_auth call v sc s else (sc, s));
          (ret, v) = dflt nstate v;
          v = (if nstate = S_AUTH \<or> nstate = S_ASSOC then v\<lparr>mgtsend := False\<rparr> else v)
      in (ret, v, sc, s))"

section \<open>Starting and ending a scan\<close>

text \<open>The two tasks of the scan queue: directed is the name net80211 asks for, if any.\<close>

definition cyw_scan_start_task :: "'s call \<Rightarrow> bytes option \<Rightarrow> cfg \<Rightarrow> 's \<Rightarrow> cfg \<times> 's" where
  "cyw_scan_start_task call directed sc s =
     (let req = List.last (escans (snd (cyw_do_escan directed ok (scan_of sc))));
          (e, _, s) = call (SetVar (cname ''escan'') req) s
      in (sc\<lparr>scan_of := snd (cyw_do_escan directed e (scan_of sc))\<rparr>, s))"

definition cyw_scan_end_task :: "'s call \<Rightarrow> cfg \<Rightarrow> 's \<Rightarrow> cfg \<times> 's" where
  "cyw_scan_end_task call sc s = abort_scan call sc s"

section \<open>Keys\<close>

definition CYW_CRYPTO_ALGO_OFF :: u32 where "CYW_CRYPTO_ALGO_OFF = 0"

definition CYW_CRYPTO_ALGO_WEP1 :: u32 where "CYW_CRYPTO_ALGO_WEP1 = 1"

definition CYW_CRYPTO_ALGO_TKIP :: u32 where "CYW_CRYPTO_ALGO_TKIP = 2"

definition CYW_CRYPTO_ALGO_WEP128 :: u32 where "CYW_CRYPTO_ALGO_WEP128 = 3"

definition CYW_CRYPTO_ALGO_AES_CCM :: u32 where "CYW_CRYPTO_ALGO_AES_CCM = 4"

definition CYW_PRIMARY_KEY :: u32 where "CYW_PRIMARY_KEY = 2"

text \<open>A key of net80211: its cipher, if it has one, whether it is a group key, its
  slot, length, bytes, address and receive counter.\<close>

datatype cipher = AES_CCM | TKIP | WEP | OTHER_CIPHER

record wkey =
  wk_cipher :: "cipher option"
  wk_group :: bool
  wk_keyix :: u16
  wk_keylen :: nat
  wk_key :: bytes
  wk_macaddr :: bytes
  wk_keyrsc :: u64

text \<open>The payload of the key variable, with its natural alignment.\<close>

definition wsec_key :: "u32 \<Rightarrow> bytes \<Rightarrow> u32 \<Rightarrow> u32 \<Rightarrow> u32 \<Rightarrow> u32 \<Rightarrow> u16 \<Rightarrow> bytes \<Rightarrow> bytes" where
  "wsec_key index data algo flags iv_initialized hi lo ea =
     le32 index @ le32 (of_nat (length data)) @ (data @ replicate (32 - length data) 0) @ replicate 72 0
     @ le32 algo @ le32 flags @ replicate 12 0 @ le32 iv_initialized @ replicate 4 0
     @ le32 hi @ le16 lo @ [0, 0] @ replicate 8 0 @ ea @ [0, 0]"

definition key_algo :: "cipher \<Rightarrow> nat \<Rightarrow> u32 option" where
  "key_algo c keylen =
     (case c of AES_CCM \<Rightarrow> Some CYW_CRYPTO_ALGO_AES_CCM | TKIP \<Rightarrow> Some CYW_CRYPTO_ALGO_TKIP
      | WEP \<Rightarrow> Some (if keylen = 5 then CYW_CRYPTO_ALGO_WEP1 else CYW_CRYPTO_ALGO_WEP128)
      | OTHER_CIPHER \<Rightarrow> None)"

text \<open>The address of the peer: that of the key, or of the node when the key has the
  broadcast address; zero for a group key.\<close>

definition key_ea :: "viface \<Rightarrow> wkey \<Rightarrow> bytes" where
  "key_ea v k =
     (if wk_group k then replicate 6 0
      else if wk_macaddr k = replicate 6 0xff
      then (case iv_bss v of Some ni \<Rightarrow> ni_bssid ni | None \<Rightarrow> replicate 6 0)
      else wk_macaddr k)"

definition key_payload :: "viface \<Rightarrow> wkey \<Rightarrow> u32 \<Rightarrow> bytes" where
  "key_payload v k algo =
     (if wk_group k
      then wsec_key (ucast (wk_keyix k)) (take (wk_keylen k) (wk_key k)) algo CYW_PRIMARY_KEY 1
             (ucast (drop_bit 16 (wk_keyrsc k))) (ucast (wk_keyrsc k AND 0xffff)) (key_ea v k)
      else wsec_key (ucast (wk_keyix k)) (take (wk_keylen k) (wk_key k)) algo 0 0 0 0 (key_ea v k))"

text \<open>slot is the index of a group key in the table of the interface. The result is the
  code's 1, and the two indices.\<close>

definition cyw_key_alloc :: "bool \<Rightarrow> u16 \<Rightarrow> int \<times> u16 \<times> u16" where
  "cyw_key_alloc grp slot = (1, if grp then (slot, slot) else (0, 0))"

text \<open>net80211 wants 1 for success and 0 for failure.\<close>

definition cyw_key_set :: "'s call \<Rightarrow> viface \<Rightarrow> wkey \<Rightarrow> 's \<Rightarrow> int \<times> 's" where
  "cyw_key_set call v k s =
     (case wk_cipher k of
        None \<Rightarrow> (0, s)
      | Some c \<Rightarrow>
          if 32 < wk_keylen k then (0, s)
          else (case key_algo c (wk_keylen k) of
                  None \<Rightarrow> (0, s)
                | Some algo \<Rightarrow>
                    let (err, _, s) = call (SetVar (cname ''wsec_key'') (key_payload v k algo)) s;
                        s = (if err = ok then call_all call [GetVar (cname ''wsec'') 4] s else s)
                    in (if err \<noteq> ok then 0 else 1, s)))"

definition cyw_key_delete :: "'s call \<Rightarrow> wkey \<Rightarrow> 's \<Rightarrow> int \<times> 's" where
  "cyw_key_delete call k s =
     (1, call_all call
           [SetVar (cname ''wsec_key'')
              (wsec_key (ucast (wk_keyix k)) [] CYW_CRYPTO_ALGO_OFF CYW_PRIMARY_KEY 0 0 0 (replicate 6 0))] s)"

section \<open>The interface going up and down\<close>

definition WLC_UP :: u32 where "WLC_UP = 2"

definition WLC_SET_INFRA :: u32 where "WLC_SET_INFRA = 20"

definition WLC_SET_SCAN_CHANNEL_TIME :: u32 where "WLC_SET_SCAN_CHANNEL_TIME = 185"

definition WLC_SET_SCAN_UNASSOC_TIME :: u32 where "WLC_SET_SCAN_UNASSOC_TIME = 187"

definition WLC_SET_FAKEFRAG :: u32 where "WLC_SET_FAKEFRAG = 219"

definition WLC_SET_SCAN_PASSIVE_TIME :: u32 where "WLC_SET_SCAN_PASSIVE_TIME = 258"

definition cyw_probe_fwsup :: "fwreq list" where
  "cyw_probe_fwsup =
     [GetVar (cname ''sup_wpa'') 4, SetVar (cname ''sup_wpa'') (le32 1), SetVar (cname ''sup_wpa'') (le32 0)]"

definition parent_script :: "bool \<Rightarrow> fwreq list" where
  "parent_script probe =
     [SetCmd WLC_UP (le32 0)] @ (if probe then cyw_probe_fwsup else [])
     @ [SetCmd WLC_SET_INFRA (le32 1), SetCmd WLC_SET_SCAN_CHANNEL_TIME (le32 40),
        SetCmd WLC_SET_SCAN_UNASSOC_TIME (le32 40), SetCmd WLC_SET_SCAN_PASSIVE_TIME (le32 120),
        SetVar (cname ''bcn_timeout'') (le32 4), SetVar (cname ''assoc_retry_max'') (le32 3),
        SetCmd WLC_SET_FAKEFRAG (le32 1), SetVar (cname ''txbf'') (le32 1)]"

definition cyw_parent :: "'s call \<Rightarrow> bool \<Rightarrow> int \<Rightarrow> cfg \<Rightarrow> 's \<Rightarrow> cfg \<times> 's" where
  "cyw_parent call probe nrunning sc s =
     (if 0 < nrunning
      then if \<not> dongle_up sc then (sc\<lparr>dongle_up := True\<rparr>, call_all call (parent_script probe) s) else (sc, s)
      else (sc\<lparr>dongle_up := False\<rparr>, s))"

section \<open>The virtual interface and the channel list\<close>

text \<open>The interfaces of net80211 and the allocations the driver holds for them.
  setup_ok is whether net80211 accepts the interface.\<close>

record vifs =
  ic_vaps :: "nat list"
  cvaps :: "nat list"
  next_vap :: nat

definition cyw_vap_create :: "bool \<Rightarrow> vifs \<Rightarrow> nat option \<times> vifs" where
  "cyw_vap_create setup_ok n =
     (if ic_vaps n \<noteq> [] then (None, n)
      else
        let p = next_vap n; n = n\<lparr>cvaps := p # cvaps n, next_vap := p + 1\<rparr>
        in if \<not> setup_ok then (None, n\<lparr>cvaps := remove1 p (cvaps n)\<rparr>)
           else (Some p, n\<lparr>ic_vaps := [p]\<rparr>))"

definition cyw_vap_delete :: "nat \<Rightarrow> vifs \<Rightarrow> vifs" where
  "cyw_vap_delete p n = n\<lparr>ic_vaps := remove1 p (ic_vaps n), cvaps := remove1 p (cvaps n)\<rparr>"

definition cyw_chans_5ghz_unii1 :: "u8 list" where "cyw_chans_5ghz_unii1 = [36, 40, 44, 48]"

definition cyw_chans_5ghz_unii3 :: "u8 list" where "cyw_chans_5ghz_unii3 = [149, 153, 157, 161]"

datatype mode = MODE_11A | MODE_11B | MODE_11G

text \<open>add2 and add5 are the channel builders of net80211: they append to the list what
  fits below its limit.\<close>

definition cyw_getradiocaps ::
    "(nat \<Rightarrow> mode set \<Rightarrow> 'c list \<Rightarrow> 'c list) \<Rightarrow> (nat \<Rightarrow> u8 list \<Rightarrow> mode set \<Rightarrow> 'c list \<Rightarrow> 'c list) \<Rightarrow> nat \<Rightarrow> 'c list \<Rightarrow> 'c list" where
  "cyw_getradiocaps add2 add5 maxchans chans =
     (let chans = add2 maxchans {MODE_11B, MODE_11G} chans;
          chans = add5 maxchans cyw_chans_5ghz_unii1 {MODE_11A} chans
      in add5 maxchans cyw_chans_5ghz_unii3 {MODE_11A} chans)"

section \<open>What the firmware sees of a transition\<close>

text \<open>The requests of a transition to AUTH when none of them fails, with the fallback
  that follows a failed join.\<close>

definition abort_script :: "cfg \<Rightarrow> fwreq list" where
  "abort_script sc =
     (if scan_active (scan_of sc) then [SetVar (cname ''escan'') (List.last (escans (cyw_abort_escan (scan_of sc))))] else [])"

definition join_chanspec :: "bss \<Rightarrow> cfg \<Rightarrow> u16" where
  "join_chanspec ni sc = cyw_chanspec_for_join (ni_bssid ni) (ni_chan ni) (cs_cache_of (scan_of sc))"

definition setup_script :: "viface \<Rightarrow> bss \<Rightarrow> cfg \<Rightarrow> fwreq list" where
  "setup_script v ni sc = abort_script sc @ park_script (join_chanspec ni sc) @ prejoin_script"

definition auth_script :: "viface \<Rightarrow> cfg \<Rightarrow> fwreq list" where
  "auth_script v sc =
     (case iv_bss v of
        None \<Rightarrow> abort_script sc
      | Some ni \<Rightarrow> setup_script v ni sc @ case_prod security_script (join_security v)
          @ [join_request ni (join_chanspec ni sc), fallback_request ni (join_chanspec ni sc)])"

lemma abort_cache: "cs_cache_of (cyw_abort_escan sc) = cs_cache_of sc"
  by (simp add: cyw_abort_escan_def)

lemma abort_scan_call: "abort_scan call sc s = (sc\<lparr>scan_of := cyw_abort_escan (scan_of sc)\<rparr>, call_all call (abort_script sc) s)"
  by (simp add: abort_scan_def abort_script_def Let_def)

lemma abort_chanspec [simp]: "join_chanspec ni (sc\<lparr>scan_of := cyw_abort_escan (scan_of sc)\<rparr>) = join_chanspec ni sc"
  by (simp add: join_chanspec_def abort_cache)

lemma call_all_append: "call_all call (xs @ ys) s = call_all call ys (call_all call xs s)"
  by (induction xs arbitrary: s) (auto split: prod.splits)

lemma newstate_auth_some:
  assumes "iv_bss v = Some ni" "join_security v = (wsec, wpa)"
    "call_until call (security_script wsec wpa) (call_all call (setup_script v ni sc) s) = (e1, s1)"
    "call (join_request ni (join_chanspec ni sc)) s1 = (e2, b2, s2)"
  shows "newstate_auth call v sc s =
    (sc\<lparr>scan_of := cyw_abort_escan (scan_of sc), join_bssid := ni_bssid ni\<rparr>,
     if e2 \<noteq> ok then call_all call [fallback_request ni (join_chanspec ni sc)] s2 else s2)"
proof -
  have "call_all call (setup_script v ni sc) s
      = call_all call prejoin_script (call_all call (park_script (join_chanspec ni sc)) (call_all call (abort_script sc) s))"
    by (simp add: setup_script_def call_all_append)
  then show ?thesis
    using assms(3,4)
    by (simp add: newstate_auth_def assms(1,2) abort_scan_call Let_def join_chanspec_def[symmetric] cyw_set_security_def
        del: call_all.simps)
qed

lemma newstate_auth_none:
  "iv_bss v = None \<Longrightarrow> newstate_auth call v sc s
    = (sc\<lparr>scan_of := cyw_abort_escan (scan_of sc)\<rparr>, call_all call (abort_script sc) s)"
  by (simp add: newstate_auth_def abort_scan_call)

text \<open>The node as net80211 keeps it.\<close>

definition viface_ok :: "viface \<Rightarrow> bool" where
  "viface_ok v \<longleftrightarrow> (case iv_bss v of None \<Rightarrow> True | Some ni \<Rightarrow> length (ni_bssid ni) = 6 \<and> length (ni_essid ni) \<le> 32)"

lemma wire_lengths:
  "length (ssid_le e) = 4 + max 32 (length e)" "length (scan_le c) = 17" "length (assoc_le b c) = length b + 10"
  "length (pmk_payload p) = 4 + max 64 (length p)"
  by (simp_all add: ssid_le_def scan_le_def assoc_le_def pmk_payload_def CYW_WSEC_MAX_PSK_LEN_def)

lemma wsec_key_length: "length (wsec_key i d a f iv hi lo ea) = 158 + max 32 (length d) - 32 + length ea"
  by (simp add: wsec_key_def)

lemmas wlc_consts = WLC_SET_VAR_def WLC_GET_VAR_def WLC_SET_SSID_def WLC_GET_CHANNEL_def WLC_DISASSOC_def WLC_UP_def
  WLC_SET_INFRA_def WLC_SET_SCAN_CHANNEL_TIME_def WLC_SET_SCAN_UNASSOC_TIME_def WLC_SET_FAKEFRAG_def
  WLC_SET_SCAN_PASSIVE_TIME_def WLC_SET_WSEC_PMK_def

text \<open>The requests of the driver are well formed: their names end where they seem to end
  and the raw commands are not those of variables.\<close>

lemma escan_length: "length ssid \<le> 32 \<Longrightarrow> length (escan_params a b ssid params) = 50 + length params"
  by (simp add: escan_params_def)

lemma abort_valid: "r \<in> set (abort_script sc) \<Longrightarrow> req_valid r"
  by (auto simp: abort_script_def cyw_abort_escan_def escan_length abort_params_def req_valid_def cname_def split: if_splits)

lemma setup_valid:
  "r \<in> set (park_script c) \<Longrightarrow> req_valid r" "r \<in> set prejoin_script \<Longrightarrow> req_valid r"
  "r \<in> set (security_script a b) \<Longrightarrow> req_valid r"
  by (auto simp: park_script_def prejoin_script_def security_script_def req_valid_def cname_def wlc_consts split: if_splits)

lemma join_valid:
  "length (ni_bssid ni) = 6 \<Longrightarrow> length (ni_essid ni) \<le> 32 \<Longrightarrow> req_valid (join_request ni c)"
  "length (ni_bssid ni) = 6 \<Longrightarrow> length (ni_essid ni) \<le> 32 \<Longrightarrow> req_valid (fallback_request ni c)"
  by (simp_all add: join_request_def fallback_request_def ext_join_params_def join_params_def wire_lengths
      req_valid_def cname_def wlc_consts)

lemma auth_valid:
  assumes "viface_ok v"
  shows "\<forall>r\<in>set (auth_script v sc). req_valid r"
  using assms abort_valid setup_valid join_valid
  by (auto simp: auth_script_def setup_script_def viface_ok_def split: option.splits prod.splits)

lemma parent_valid: "\<forall>r\<in>set (parent_script probe). req_valid r"
  by (auto simp: parent_script_def cyw_probe_fwsup_def req_valid_def cname_def wlc_consts split: if_splits)

lemma key_valid: "length (key_ea v k) = 6 \<Longrightarrow> wk_keylen k \<le> 32 \<Longrightarrow> req_valid (SetVar (cname ''wsec_key'') (key_payload v k algo))"
  by (simp add: key_payload_def wsec_key_length req_valid_def cname_def)

text \<open>From one state to another the firmware has seen some of the requests of a script,
  in its order.\<close>

definition grows :: "('s \<Rightarrow> fwreq list) \<Rightarrow> 's \<Rightarrow> 's \<Rightarrow> fwreq list \<Rightarrow> bool" where
  "grows seen s s' rs \<longleftrightarrow> (\<exists>xs. seen s' = seen s @ xs \<and> subseq xs rs)"

lemma grows_refl: "grows seen s s rs"
  by (simp add: grows_def)

lemma grows_trans: "grows seen s s1 as \<Longrightarrow> grows seen s1 s2 bs \<Longrightarrow> grows seen s s2 (as @ bs)"
  unfolding grows_def using list_emb_append_mono[of "(=)" _ as _ bs] by (metis append.assoc)

context request_layer
begin

lemma all_grows: "\<forall>r\<in>set rs. valid r \<Longrightarrow> grows seen s (call_all call rs s) rs"
  unfolding grows_def by (rule all_seen)

lemma until_grows: "\<forall>r\<in>set rs. valid r \<Longrightarrow> call_until call rs s = (e, s') \<Longrightarrow> grows seen s s' rs"
  unfolding grows_def using until_seen[of rs s e s'] by (auto intro: prefix_imp_subseq)

lemma one_grows: "valid r \<Longrightarrow> call r s = (e, b, s') \<Longrightarrow> grows seen s s' [r]"
  unfolding grows_def using one_seen[of r s e b s'] by auto

lemma auth_grows:
  assumes "\<forall>r\<in>set (auth_script v sc). valid r" "newstate_auth call v sc s = (sc', s')"
  shows "grows seen s s' (auth_script v sc)"
proof (cases "iv_bss v")
  case None
  then show ?thesis using assms all_grows[of "abort_script sc" s] by (simp add: newstate_auth_none auth_script_def)
next
  case (Some ni)
  obtain wsec wpa where w: "join_security v = (wsec, wpa)" by (cases "join_security v")
  define s0 where "s0 = call_all call (setup_script v ni sc) s"
  obtain e1 s1 where e1: "call_until call (security_script wsec wpa) s0 = (e1, s1)"
    by (cases "call_until call (security_script wsec wpa) s0")
  define c where "c = join_chanspec ni sc"
  obtain e2 b2 s2 where e2: "call (join_request ni c) s1 = (e2, b2, s2)" by (cases "call (join_request ni c) s1") auto
  have s': "s' = (if e2 \<noteq> ok then call_all call [fallback_request ni c] s2 else s2)"
    using assms(2) newstate_auth_some[OF Some w e1[unfolded s0_def] e2[unfolded c_def]] unfolding c_def by simp
  have script: "auth_script v sc = ((setup_script v ni sc @ security_script wsec wpa) @ [join_request ni c]) @ [fallback_request ni c]"
    by (simp add: auth_script_def Some w c_def)
  have v: "\<forall>r\<in>set (setup_script v ni sc). valid r" "\<forall>r\<in>set (security_script wsec wpa). valid r"
    "valid (join_request ni c)" "\<forall>r\<in>set [fallback_request ni c]. valid r"
    using assms(1) unfolding script by simp_all
  have "grows seen s s2 ((setup_script v ni sc @ security_script wsec wpa) @ [join_request ni c])"
    using grows_trans[OF grows_trans[OF _ until_grows[OF v(2) e1]] one_grows[OF v(3) e2]]
      all_grows[OF v(1), of s] by (simp add: s0_def)
  moreover have "grows seen s2 s' [fallback_request ni c]"
    unfolding s' using all_grows[OF v(4), of s2] grows_refl[of seen s2 "[fallback_request ni c]"] by simp
  ultimately show ?thesis unfolding script by (rule grows_trans)
qed

end
section \<open>The scripted firmware\<close>

definition ans :: "(rc \<times> bytes) list \<Rightarrow> nat \<Rightarrow> rc" where
  "ans rsp i = (if i < length rsp then fst (rsp ! i) else ok)"

lemma ans_drop [simp]: "ans (drop n rsp) i = ans rsp (n + i)"
  by (simp add: ans_def add.commute less_diff_conv)

lemma script_all [simp]: "call_all script_call rs (log, rsp) = (log @ rs, drop (length rs) rsp)"
proof (induction rs arbitrary: log rsp)
  case (Cons r rs)
  then show ?case by (cases rsp) (auto simp: script_call_def)
qed simp

lemma script_one: "\<exists>b. script_call r (log, rsp) = (ans rsp 0, b, log @ [r], drop 1 rsp)"
  by (cases rsp) (auto simp: script_call_def ans_def)

text \<open>How many of the three security requests are made when they stop at the first
  failure.\<close>

definition sec_count :: "(rc \<times> bytes) list \<Rightarrow> nat \<Rightarrow> nat" where
  "sec_count rsp n = (if ans rsp n \<noteq> ok then 1 else if ans rsp (n + 1) \<noteq> ok then 2 else 3)"

lemma script_security:
  "\<exists>e. call_until script_call (security_script a b) (log, rsp)
     = (e, log @ take (sec_count rsp 0) (security_script a b), drop (sec_count rsp 0) rsp)"
proof -
  obtain r1 r2 r3 where rs: "security_script a b = [r1, r2, r3]" by (simp add: security_script_def)
  show ?thesis
    unfolding rs using script_one[of r1 log rsp] script_one[of r2 "log @ [r1]" "drop 1 rsp"]
      script_one[of r3 "log @ [r1, r2]" "drop 2 rsp"]
    by (auto simp: sec_count_def numeral_2_eq_2 numeral_3_eq_3)
qed

text \<open>C27: A transition to AUTH makes exactly these requests, whatever the firmware answers:
  the abort of a running scan, the channel if it is known, the four readings,
  the security settings up to the first that fails, the join, and the older join
  request exactly when the first one fails. It notes the network, and the
  management frame timer is off afterwards.\<close>

theorem auth_requests:
  assumes "iv_bss v = Some ni" "join_security v = (wsec, wpa)" "c = join_chanspec ni sc"
    and "n = length (setup_script v ni sc)" "k = sec_count rsp n"
    and "cyw_newstate script_call dflt S_AUTH v sc (log, rsp) = (ret, v', sc', log', rsp')"
  shows "log' = log @ setup_script v ni sc @ take k (security_script wsec wpa) @ [join_request ni c]
      @ (if ans rsp (n + k) \<noteq> ok then [fallback_request ni c] else [])
    \<and> join_bssid sc' = ni_bssid ni \<and> \<not> scan_active (scan_of sc') \<and> \<not> mgtsend v' \<and> ret = fst (dflt S_AUTH v)"
proof -
  let ?s = "(log @ setup_script v ni sc, drop n rsp)"
  have pre: "call_all script_call (setup_script v ni sc) (log, rsp) = ?s" by (simp add: assms(4))
  obtain e1 where e1: "call_until script_call (security_script wsec wpa) ?s
      = (e1, (log @ setup_script v ni sc) @ take k (security_script wsec wpa), drop (k + n) rsp)"
    using script_security[of wsec wpa "log @ setup_script v ni sc" "drop n rsp"]
    by (auto simp: assms(5) sec_count_def add.commute)
  obtain b2 where e2: "script_call (join_request ni c)
        ((log @ setup_script v ni sc) @ take k (security_script wsec wpa), drop (k + n) rsp)
      = (ans rsp (k + n), b2, ((log @ setup_script v ni sc) @ take k (security_script wsec wpa)) @ [join_request ni c], drop 1 (drop (k + n) rsp))"
    using script_one[of "join_request ni c" "(log @ setup_script v ni sc) @ take k (security_script wsec wpa)" "drop (k + n) rsp"] by auto
  have auth: "newstate_auth script_call v sc (log, rsp) = (sc\<lparr>scan_of := cyw_abort_escan (scan_of sc), join_bssid := ni_bssid ni\<rparr>,
     if ans rsp (k + n) \<noteq> ok
     then call_all script_call [fallback_request ni c]
       (((log @ setup_script v ni sc) @ take k (security_script wsec wpa)) @ [join_request ni c], drop 1 (drop (k + n) rsp))
     else (((log @ setup_script v ni sc) @ take k (security_script wsec wpa)) @ [join_request ni c], drop 1 (drop (k + n) rsp)))"
    using newstate_auth_some[OF assms(1,2) e1[folded pre] e2[unfolded assms(3)]] by (simp only: assms(3))
  obtain rest where auth2: "newstate_auth script_call v sc (log, rsp) =
    (sc\<lparr>scan_of := cyw_abort_escan (scan_of sc), join_bssid := ni_bssid ni\<rparr>,
     log @ setup_script v ni sc @ take k (security_script wsec wpa) @ [join_request ni c]
       @ (if ans rsp (n + k) \<noteq> ok then [fallback_request ni c] else []), rest)"
    unfolding auth script_all by (cases "ans rsp (k + n) = ok") (simp_all add: add.commute[of n k])
  obtain v1 where d: "dflt S_AUTH v = (fst (dflt S_AUTH v), v1)" by (metis prod.collapse)
  have "cyw_newstate script_call dflt S_AUTH v sc (log, rsp) = (fst (dflt S_AUTH v), v1\<lparr>mgtsend := False\<rparr>,
      newstate_auth script_call v sc (log, rsp))"
    unfolding cyw_newstate_def auth2 by (subst d) simp
  then show ?thesis using assms(6) by (auto simp: auth2 cyw_abort_escan_def)
qed

definition an_ap :: bss where
  "an_ap = \<lparr>ni_bssid = [2, 0, 0, 0, 0, 1], ni_essid = [104, 105], ni_chan = 8\<rparr>"

definition an_if :: viface where
  "an_if = \<lparr>iv_bss = Some an_ap, f_wpa2 = True, f_wpa1 = False, f_privacy = True, mgtsend = True\<rparr>"

definition idle_cfg :: cfg where
  "idle_cfg = \<lparr>assoc_of = \<lparr>link_up = False, vap = Some S_SCAN, new_states = []\<rparr>, scan_of = blank_scan,
     join_bssid = replicate 6 0, dongle_up = True, psk = replicate 64 0, psk_len = 0\<rparr>"

lemma an_ap_chanspec: "join_chanspec an_ap idle_cfg = 0x1008"
proof -
  have none: "cs_find b (replicate n (e :: cs_entry)) i = None" if "cs_chanspec e = 0" for b n e i
    using that by (induction n arbitrary: i) (simp_all add: cs_match_def)
  show ?thesis
    by (simp add: join_chanspec_def cyw_chanspec_for_join_def an_ap_def idle_cfg_def blank_scan_def blank_cache_def none)
qed

lemma idle_inactive: "\<not> scan_active (scan_of idle_cfg)"
  by (simp add: idle_cfg_def blank_scan_def)

text \<open>The second security setting is refused: the third is not made, the join is.\<close>

theorem auth_requests_witness:
  "fst (snd (snd (snd (cyw_newstate script_call (\<lambda>_ v. (0, v)) S_AUTH an_if idle_cfg ([], replicate 6 (ok, []) @ [(fail EIO, [])])))))
    = setup_script an_if an_ap idle_cfg @ take 2 (security_script 4 0x80) @ [join_request an_ap 0x1008]"
proof -
  let ?rsp = "replicate 6 (ok, []) @ [(fail EIO, [])]"
  let ?r = "cyw_newstate script_call (\<lambda>_ v. (0, v)) S_AUTH an_if idle_cfg ([], ?rsp)"
  have sec: "join_security an_if = (4, 0x80)" "iv_bss an_if = Some an_ap"
    by (simp_all add: join_security_def an_if_def CYW_AES_ENABLED_def CYW_WPA2_AUTH_PSK_def)
  have n: "length (setup_script an_if an_ap idle_cfg) = 5"
    using an_ap_chanspec idle_inactive by (simp add: setup_script_def park_script_def prejoin_script_def abort_script_def)
  have a: "ans ?rsp 5 = ok" "ans ?rsp 6 = fail EIO" "ans ?rsp 7 = ok" by (simp_all add: ans_def nth_append)
  have k: "sec_count ?rsp 5 = 2" by (simp add: sec_count_def a)
  obtain ret v' sc' log' rsp' where r: "?r = (ret, v', sc', log', rsp')" by (metis prod_cases5)
  have "log' = [] @ setup_script an_if an_ap idle_cfg @ take 2 (security_script 4 0x80) @ [join_request an_ap 0x1008]
      @ (if ans ?rsp (5 + 2) \<noteq> ok then [fallback_request an_ap 0x1008] else [])"
    using auth_requests[OF sec(2,1) an_ap_chanspec[symmetric] n[symmetric] k[symmetric] r] by (rule conjunct1)
  then show ?thesis using r a(3) by simp
qed

section \<open>The transition on the wire\<close>

text \<open>The same over the request layer of the driver, with any credits, write failures
  and answers: what the firmware has received for a transition to AUTH is a
  subsequence of the script, in its order and without a repetition, and
  everything it has received is a request of this driver, field by field.\<close>

theorem auth_on_the_wire:
  assumes "viface_ok v" "cyw_newstate (fil_call envs) dflt S_AUTH v sc s = (ret, v', sc', s')"
  shows "\<exists>xs. fil_seen s' = fil_seen s @ xs \<and> subseq xs (auth_script v sc)"
proof -
  obtain sc1 s1 where a: "newstate_auth (fil_call envs) v sc s = (sc1, s1)" by (cases "newstate_auth (fil_call envs) v sc s")
  then have "s' = s1" using assms(2) by (simp add: cyw_newstate_def split: prod.splits)
  then show ?thesis
    using filreq.auth_grows[OF auth_valid[OF assms(1)] a] by (simp add: grows_def)
qed

theorem auth_on_the_wire_witness:
  "\<exists>xs. fil_seen (snd (snd (snd (cyw_newstate (fil_call (\<lambda>_. quiet_env [])) (\<lambda>_ v. (0, v)) S_AUTH an_if idle_cfg (idle_fil True, 0)))))
     = [] @ xs \<and> subseq xs (auth_script an_if idle_cfg)"
proof -
  let ?r = "cyw_newstate (fil_call (\<lambda>_. quiet_env [])) (\<lambda>_ v. (0, v)) S_AUTH an_if idle_cfg (idle_fil True, 0)"
  obtain ret v' sc' s' where r: "?r = (ret, v', sc', s')" by (metis prod_cases4)
  have "viface_ok an_if" by (simp add: viface_ok_def an_if_def an_ap_def)
  from auth_on_the_wire[OF this r] have "\<exists>xs. fil_seen s' = [] @ xs \<and> subseq xs (auth_script an_if idle_cfg)"
    by (simp add: fil_seen_def idle_fil_def map_filter_def)
  then show ?thesis unfolding r snd_conv .
qed

section \<open>What the firmware reads out of a join\<close>

text \<open>The device side: the name, the address and the channel, the association block
  being at offset off.\<close>

definition fw_join :: "nat \<Rightarrow> bytes \<Rightarrow> bytes \<times> bytes \<times> u16" where
  "fw_join off p =
     (take (unat (rd_le32 p 0)) (drop 4 p), take 6 (drop off p),
      if rd_le32 p (off + 8) = 0 then 0 else rd_le16 p (off + 12))"

lemma fw_join_reads:
  assumes "length e \<le> 32" "length b = 6" "p = ssid_le e @ mid @ assoc_le b c" "off = 36 + length mid"
  shows "fw_join off p = (e, b, c)"
proof -
  have l: "length (ssid_le e) = 36" using assms(1) by (simp add: wire_lengths)
  have u: "unat (of_nat (length e) :: u32) = length e" using assms(1) by (simp add: unat_of_nat take_bit_nat_eq_self)
  have "rd_le32 p 0 = of_nat (length e)"
    unfolding assms(3) ssid_le_def append_assoc using rd_le32_append[of 0 "[]"] by simp
  then have e: "take (unat (rd_le32 p 0)) (drop 4 p) = e" by (simp add: u assms(3) ssid_le_def)
  have b: "take 6 (drop off p) = b" using l by (simp add: assms(2-4) assoc_le_def)
  let ?pre = "ssid_le e @ mid @ b @ [0, 0]"
  have n: "rd_le32 p (off + 8) = (if c \<noteq> 0 then 1 else 0)"
  proof (cases "c = 0")
    case True
    have "p = ?pre @ le32 0 @ (le16 0 @ [0, 0])" by (simp add: assms(3) assoc_le_def True)
    then show ?thesis using True rd_le32_append[of "off + 8" ?pre 0] l assms(2,4) by simp
  next
    case False
    have "p = ?pre @ le32 1 @ (le16 c @ [0, 0])" by (simp add: assms(3) assoc_le_def False)
    then show ?thesis using False rd_le32_append[of "off + 8" ?pre 1] l assms(2,4) by simp
  qed
  have "rd_le16 p (off + 12) = c" if "c \<noteq> 0"
  proof -
    have "p = (?pre @ le32 1) @ le16 c @ [0, 0]" by (simp add: assms(3) assoc_le_def that)
    then show ?thesis using rd_le16_append[of "off + 12" "?pre @ le32 1" c] l assms(2,4) by simp
  qed
  then show ?thesis by (simp add: fw_join_def e b n)
qed

text \<open>C28: The join goes through both encodings unchanged: out of the frame of the request
  the firmware reads the join variable, and out of its 69 bytes the name, the
  address and the channel it was asked for. The fallback carries the same, in 52
  bytes, as a command of its own.\<close>

theorem join_roundtrip:
  assumes "length e \<le> 32" "length b = 6"
  shows "\<exists>p q. req_of (fil_frame WLC_SET_VAR BCDC_DCMD_SET (Some (cname ''join'')) (ext_join_params e b c) xid seq)
        = Some (SetVar (cname ''join'') p) \<and> length p = 69 \<and> fw_join 53 p = (e, b, c)
    \<and> req_of (fil_frame WLC_SET_SSID BCDC_DCMD_SET None (join_params e b c) xid seq) = Some (SetCmd WLC_SET_SSID q)
    \<and> length q = 52 \<and> fw_join 36 q = (e, b, c)"
proof (intro exI conjI)
  have z: "(0 :: u8) \<notin> set (cname ''join'')" by (simp add: cname_def)
  have lp: "length (ext_join_params e b c) = 69" and lq: "length (join_params e b c) = 52"
    using assms by (simp_all add: ext_join_params_def join_params_def wire_lengths)
  show "length (ext_join_params e b c) = 69" "length (join_params e b c) = 52" by (fact lp, fact lq)
  show "req_of (fil_frame WLC_SET_VAR BCDC_DCMD_SET (Some (cname ''join'')) (ext_join_params e b c) xid seq)
      = Some (SetVar (cname ''join'') (ext_join_params e b c))"
    using lp z takeWhile_name[OF z] by (simp add: req_of_frame name_bytes_def fil_payload_def Let_def BCDC_DCMD_SET_def cname_def)
  show "req_of (fil_frame WLC_SET_SSID BCDC_DCMD_SET None (join_params e b c) xid seq)
      = Some (SetCmd WLC_SET_SSID (join_params e b c))"
    using lq by (simp add: req_of_frame name_bytes_def fil_payload_def Let_def BCDC_DCMD_SET_def wlc_consts)
  show "fw_join 53 (ext_join_params e b c) = (e, b, c)"
    by (rule fw_join_reads[OF assms, of _ "scan_le c"]) (simp_all add: ext_join_params_def wire_lengths)
  show "fw_join 36 (join_params e b c) = (e, b, c)"
    by (rule fw_join_reads[OF assms, of _ "[]"]) (simp_all add: join_params_def)
qed

theorem join_roundtrip_witness:
  "\<exists>p. req_of (fil_frame WLC_SET_VAR BCDC_DCMD_SET (Some (cname ''join'')) (ext_join_params [104, 105] [2, 0, 0, 0, 0, 1] 0x1008) 7 3)
     = Some (SetVar (cname ''join'') p) \<and> fw_join 53 p = ([104, 105], [2, 0, 0, 0, 0, 1], 0x1008)"
  using join_roundtrip[of "[104, 105]" "[2, 0, 0, 0, 0, 1]" "0x1008" 7 3] by auto

section \<open>What the firmware reads out of a key\<close>

text \<open>The device side: slot, key, algorithm, flags, whether the receive counter is given,
  the counter, and the address.\<close>

definition fw_key :: "bytes \<Rightarrow> u32 \<times> bytes \<times> u32 \<times> u32 \<times> bool \<times> nat \<times> bytes" where
  "fw_key p =
     (rd_le32 p 0, take (unat (rd_le32 p 4)) (drop 8 p), rd_le32 p 112, rd_le32 p 116, rd_le32 p 132 \<noteq> 0,
      unat (rd_le32 p 140) * 2 ^ 16 + unat (rd_le16 p 144), take 6 (drop 156 p))"

lemma fw_key_reads:
  assumes "length d \<le> 32" "length ea = 6"
  shows "fw_key (wsec_key i d a f iv hi lo ea) = (i, d, a, f, iv \<noteq> 0, unat hi * 2 ^ 16 + unat lo, ea)"
proof -
  define p where "p = wsec_key i d a f iv hi lo ea"
  let ?data = "d @ replicate (32 - length d) 0"
  have p: "p = le32 i @ le32 (of_nat (length d)) @ ?data @ replicate 72 0 @ le32 a @ le32 f @ replicate 12 0 @ le32 iv
     @ replicate 4 0 @ le32 hi @ le16 lo @ [0, 0] @ replicate 8 0 @ ea @ [0, 0]"
    by (simp add: p_def wsec_key_def)
  have l: "length ?data = 32" using assms(1) by simp
  have u: "unat (of_nat (length d) :: u32) = length d" using assms(1) by (simp add: unat_of_nat take_bit_nat_eq_self)
  let ?p1 = "le32 i @ le32 (of_nat (length d)) @ ?data @ replicate 72 0"
  let ?p2 = "?p1 @ le32 a @ le32 f @ replicate 12 0"
  let ?p3 = "?p2 @ le32 iv @ replicate 4 0"
  have "rd_le32 p 0 = i" unfolding p using rd_le32_append[of 0 "[]"] by simp
  moreover have "rd_le32 p 4 = of_nat (length d)" unfolding p using rd_le32_append[of 4 "le32 i"] by simp
  moreover have "take (length d) (drop 8 p) = d" unfolding p by simp
  moreover have "rd_le32 p 112 = a" unfolding p using rd_le32_append[of 112 ?p1 a] l by simp
  moreover have "rd_le32 p 116 = f" unfolding p using rd_le32_append[of 116 "?p1 @ le32 a" f] l by simp
  moreover have "rd_le32 p 132 = iv" unfolding p using rd_le32_append[of 132 ?p2 iv] l by simp
  moreover have "rd_le32 p 140 = hi" unfolding p using rd_le32_append[of 140 ?p3 hi] l by simp
  moreover have "rd_le16 p 144 = lo" unfolding p using rd_le16_append[of 144 "?p3 @ le32 hi" lo] l by simp
  moreover have "take 6 (drop 156 p) = ea"
  proof -
    let ?p4 = "?p3 @ le32 hi @ le16 lo @ [0, 0] @ replicate 8 0"
    have "p = ?p4 @ ea @ [0, 0]" "length ?p4 = 156" using l by (simp_all add: p)
    then show ?thesis using assms(2) by simp
  qed
  ultimately show ?thesis by (simp add: fw_key_def p_def[symmetric] u)
qed



section \<open>Up and down\<close>

text \<open>The interface counts that net80211 reports, in order.\<close>

fun parent_calls :: "'s call \<Rightarrow> bool \<Rightarrow> int list \<Rightarrow> cfg \<Rightarrow> 's \<Rightarrow> cfg \<times> 's" where
  "parent_calls call probe [] sc s = (sc, s)"
| "parent_calls call probe (n # ns) sc s = (case cyw_parent call probe n sc s of (sc, s) \<Rightarrow> parent_calls call probe ns sc s)"

text \<open>How often they go from none to some.\<close>

fun rises :: "bool \<Rightarrow> int list \<Rightarrow> nat" where
  "rises up [] = 0"
| "rises up (n # ns) = (if 0 < n \<and> \<not> up then 1 else 0) + rises (0 < n) ns"

text \<open>Over every history of interface counts and every answer of the firmware, WLC_UP is
  sent once for each time the interface comes up, never twice in between, and
  with it the whole configuration, in order; afterwards the flag says whether
  the interface is up.\<close>

theorem parent_ups:
  "\<exists>rsp'. parent_calls script_call probe ns sc (log, rsp)
     = (sc\<lparr>dongle_up := (if ns = [] then dongle_up sc else 0 < last ns)\<rparr>,
        log @ concat (replicate (rises (dongle_up sc) ns) (parent_script probe)), rsp')"
proof (induction ns arbitrary: sc log rsp)
  case (Cons n ns)
  obtain rsp1 where step: "cyw_parent script_call probe n sc (log, rsp)
      = (sc\<lparr>dongle_up := 0 < n\<rparr>, log @ (if 0 < n \<and> \<not> dongle_up sc then parent_script probe else []), rsp1)"
    by (cases "0 < n"; cases "dongle_up sc") (simp_all add: cyw_parent_def)
  show ?case
    using Cons.IH[of "sc\<lparr>dongle_up := 0 < n\<rparr>" "log @ (if 0 < n \<and> \<not> dongle_up sc then parent_script probe else [])" rsp1]
    by (auto simp: step)
qed simp

lemma one_up: "filter ((=) (SetCmd WLC_UP (le32 0))) (parent_script probe) = [SetCmd WLC_UP (le32 0)]"
  by (simp add: parent_script_def cyw_probe_fwsup_def wlc_consts)

section \<open>Requests are well formed\<close>


definition a_key :: wkey where
  "a_key = \<lparr>wk_cipher = Some AES_CCM, wk_group = False, wk_keyix = 0, wk_keylen = 16, wk_key = replicate 48 7,
     wk_macaddr = replicate 6 0xff, wk_keyrsc = 0\<rparr>"


section \<open>At most one interface\<close>

text \<open>The driver holds one allocation for each interface of net80211 and there is never
  more than one, over every order of creations and deletions; a creation that
  net80211 refuses leaves nothing behind.\<close>

datatype vap_op = VCreate bool | VDelete nat

definition vap_run :: "vap_op \<Rightarrow> vifs \<Rightarrow> vifs" where
  "vap_run x n = (case x of VCreate b \<Rightarrow> snd (cyw_vap_create b n) | VDelete p \<Rightarrow> cyw_vap_delete p n)"

lemma one_vap:
  "ic_vaps n = cvaps n \<Longrightarrow> length (ic_vaps n) \<le> 1 \<Longrightarrow>
   ic_vaps (fold vap_run xs n) = cvaps (fold vap_run xs n) \<and> length (ic_vaps (fold vap_run xs n)) \<le> 1"
proof (induction xs arbitrary: n)
  case (Cons x xs)
  have "ic_vaps (vap_run x n) = cvaps (vap_run x n) \<and> length (ic_vaps (vap_run x n)) \<le> 1"
    using Cons.prems
    by (cases x) (auto simp: vap_run_def cyw_vap_create_def cyw_vap_delete_def Let_def length_remove1 split: if_splits)
  then have a: "ic_vaps (vap_run x n) = cvaps (vap_run x n)" "length (ic_vaps (vap_run x n)) \<le> 1" by blast+
  show ?case unfolding fold_simps by (rule Cons.IH[OF a])
qed simp

end
