(* ===== verification/CywTx.thy ===== *)
theory CywTx
  imports CywCfg "HOL-Library.Sublist"
begin

text \<open>
  The data path of the CYW43455 driver: the transmit hook and its queue, the task
  that empties it and the frame it writes (src/cyw43455_cfg.c), the delivery of
  received frames to the stack (src/cyw43455_sdpcm.c), and the two senders that
  share the sequence number and the credit. The queue is modelled with its
  pointers, since its correctness is a matter of what they point to.
\<close>

section \<open>The transmit queue\<close>

text \<open>The places that hold a pointer to a packet: the head of the queue, or the link
  of a packet. The tail points at the place to fill next.\<close>

datatype pkt_slot = Head | Nextpkt nat

record txq =
  store :: "pkt_slot \<Rightarrow> nat option"
  tx_queue_tail :: pkt_slot

definition txq_put :: "nat \<Rightarrow> txq \<Rightarrow> txq" where
  "txq_put m q =
     (let q = q\<lparr>store := (store q)(Nextpkt m := None)\<rparr>;
          q = q\<lparr>store := (store q)(tx_queue_tail q := Some m)\<rparr>
      in q\<lparr>tx_queue_tail := Nextpkt m\<rparr>)"

text \<open>The task takes the whole queue at once, then goes through the list it has taken.\<close>

definition tx_take :: "txq \<Rightarrow> nat option \<times> txq" where
  "tx_take q = (store q Head, q\<lparr>store := (store q)(Head := None), tx_queue_tail := Head\<rparr>)"

definition tx_pop :: "nat \<Rightarrow> txq \<Rightarrow> nat option \<times> txq" where
  "tx_pop m q = (store q (Nextpkt m), q\<lparr>store := (store q)(Nextpkt m := None)\<rparr>)"

definition queue_init :: txq where
  "queue_init = \<lparr>store = (\<lambda>_. None), tx_queue_tail = Head\<rparr>"

section \<open>The transmit hook\<close>

definition ETHERTYPE_PAE :: u16 where "ETHERTYPE_PAE = 0x888e"

definition is_eapol :: "bytes \<Rightarrow> bool" where
  "is_eapol m \<longleftrightarrow> ETHER_HDR_LEN \<le> length m \<and> rd_be16 m 12 = ETHERTYPE_PAE"

record hook =
  queue :: txq
  tx_kicks :: nat
  oerrors :: nat

text \<open>head is the data of the first buffer of packet m.\<close>

definition cyw_vap_transmit :: "iv_state \<Rightarrow> bytes \<Rightarrow> nat \<Rightarrow> hook \<Rightarrow> rc \<times> hook" where
  "cyw_vap_transmit st head m h =
     (if st \<noteq> S_RUN \<and> \<not> is_eapol head then (fail ENETDOWN, h\<lparr>oerrors := oerrors h + 1\<rparr>)
      else (ok, h\<lparr>queue := txq_put m (queue h), tx_kicks := tx_kicks h + 1\<rparr>))"

section \<open>Writing a data frame\<close>

definition CYW_BDC_DATA_HDR_LEN :: nat where "CYW_BDC_DATA_HDR_LEN = 4"

definition CYW_BCDC_PROTO_VER :: u8 where "CYW_BCDC_PROTO_VER = 2"

definition CYW_SDPCM_CHAN_DATA :: u8 where "CYW_SDPCM_CHAN_DATA = 2"

definition data_framelen :: "bytes \<Rightarrow> nat" where
  "data_framelen eth = ALIGN4 (CYW_SDPCM_HDR_LEN + CYW_BDC_DATA_HDR_LEN + length eth)"

definition data_frame :: "bytes \<Rightarrow> u8 \<Rightarrow> bytes" where
  "data_frame eth seq =
     (let framelen = data_framelen eth;
          body = le16 (of_nat framelen) @ le16 (NOT (of_nat framelen))
            @ [seq, CYW_SDPCM_CHAN_DATA, 0, of_nat CYW_SDPCM_HDR_LEN, 0, 0, 0, 0]
            @ [push_bit 4 CYW_BCDC_PROTO_VER, 0, 0, 0] @ eth
      in body @ replicate (framelen - length body) 0)"

record txdata =
  fw :: fil
  tx_data_frames :: u64
  tx_eapol_frames :: u64
  tx_eapol_bytes :: u64

text \<open>chained is whether the packet has more than one buffer, pulled whether they could
  be gathered into one, mem whether the frame could be allocated, wrc what the
  write answers.\<close>

definition cyw_tx_data_frame :: "bool \<Rightarrow> bool \<Rightarrow> bool \<Rightarrow> rc \<Rightarrow> bytes \<Rightarrow> txdata \<Rightarrow> rc \<times> txdata" where
  "cyw_tx_data_frame chained pulled mem wrc eth s =
     (if chained \<and> \<not> pulled then (fail ENOBUFS, s)
      else
        let s = s\<lparr>tx_data_frames := tx_data_frames s + 1\<rparr>;
            s = (if is_eapol eth
                 then s\<lparr>tx_eapol_frames := tx_eapol_frames s + 1, tx_eapol_bytes := tx_eapol_bytes s + of_nat (length eth)\<rparr>
                 else s);
            b = bus (fw s)
        in if \<not> tx_credit (sdpcm_rx_max b) (sdpcm_tx_seq b) then (fail ENOBUFS, s)
           else if \<not> mem then (fail ENOBUFS, s)
           else
             let f = (fw s)\<lparr>bus := b\<lparr>sdpcm_tx_seq := sdpcm_tx_seq b + 1\<rparr>\<rparr>
             in if wrc \<noteq> ok then (wrc, s\<lparr>fw := f\<rparr>)
                else (ok, s\<lparr>fw := f\<lparr>sent := sent f @ [data_frame eth (sdpcm_tx_seq b)]\<rparr>\<rparr>))"

text \<open>The loop of the task; send is what becomes of a packet. A list of packets that
  does not end would make it run for ever: None.\<close>

partial_function (option) tx_loop :: "(nat \<Rightarrow> 's \<Rightarrow> 's) \<Rightarrow> nat option \<Rightarrow> txq \<Rightarrow> 's \<Rightarrow> (txq \<times> 's) option" where
  "tx_loop send lst q s =
     (case lst of
        None \<Rightarrow> Some (q, s)
      | Some m \<Rightarrow> tx_loop send (fst (tx_pop m q)) (snd (tx_pop m q)) (send m s))"

definition cyw_tx_task :: "(nat \<Rightarrow> 's \<Rightarrow> 's) \<Rightarrow> txq \<Rightarrow> 's \<Rightarrow> (txq \<times> 's) option" where
  "cyw_tx_task send q s = (let (lst, q) = tx_take q in tx_loop send lst q s)"

section \<open>Delivering received frames\<close>

record rxstats =
  rx_data_frames :: u64
  rx_data_bytes :: u64
  rx_eapol_frames :: u64
  input :: "bytes list"

text \<open>up says whether the interface is there for each of the frames in turn; input is
  what the stack has been given.\<close>

fun rx_deliver :: "bool list \<Rightarrow> bytes list \<Rightarrow> rxstats \<Rightarrow> rxstats" where
  "rx_deliver ups [] s = s"
| "rx_deliver ups (m # ms) s =
     (if ups = [] \<or> \<not> hd ups then rx_deliver (tl ups) ms s
      else rx_deliver (tl ups) ms
             (s\<lparr>rx_data_frames := rx_data_frames s + 1, rx_data_bytes := rx_data_bytes s + of_nat (length m),
                rx_eapol_frames := rx_eapol_frames s + (if rd_be16 m 12 = ETHERTYPE_PAE then 1 else 0),
                input := input s @ [m]\<rparr>))"

section \<open>The queue as a list\<close>

text \<open>From p the links lead through exactly the packets of a list.\<close>

fun linked :: "(pkt_slot \<Rightarrow> nat option) \<Rightarrow> nat option \<Rightarrow> nat list \<Rightarrow> bool" where
  "linked f p [] \<longleftrightarrow> p = None"
| "linked f p (x # xs) \<longleftrightarrow> p = Some x \<and> linked f (f (Nextpkt x)) xs"

lemma chain_upd [simp]: "m \<notin> set xs \<Longrightarrow> linked (f(Nextpkt m := v)) p xs \<longleftrightarrow> linked f p xs"
  by (induction xs arbitrary: p) auto

lemma chain_head [simp]: "linked (f(Head := v)) p xs \<longleftrightarrow> linked f p xs"
  by (induction xs arbitrary: p) auto

lemma chain_snoc:
  "linked f p xs \<Longrightarrow> xs \<noteq> [] \<Longrightarrow> distinct xs \<Longrightarrow> m \<notin> set xs \<Longrightarrow>
   linked (f(Nextpkt m := None, Nextpkt (last xs) := Some m)) p (xs @ [m])"
proof (induction xs arbitrary: p)
  case (Cons x xs)
  show ?case
  proof (cases "xs = []")
    case False
    then have "last xs \<noteq> x" using Cons.prems(3) by (metis distinct.simps(2) last_in_set)
    then show ?thesis using Cons.IH[of "f (Nextpkt x)"] Cons.prems False by auto
  qed (use Cons.prems in auto)
qed simp

definition q_ok :: "txq \<Rightarrow> nat list \<Rightarrow> bool" where
  "q_ok q xs \<longleftrightarrow> distinct xs \<and> linked (store q) (store q Head) xs
     \<and> tx_queue_tail q = (if xs = [] then Head else Nextpkt (last xs))"

lemma enqueue_chain:
  assumes "q_ok q xs" "m \<notin> set xs"
  shows "q_ok (txq_put m q) (xs @ [m])"
proof (cases "xs = []")
  case True
  then show ?thesis using assms by (simp add: q_ok_def txq_put_def Let_def)
next
  case False
  then show ?thesis using assms chain_snoc[of "store q" "store q Head" xs m]
    by (simp add: q_ok_def txq_put_def Let_def fun_upd_twist)
qed

lemma enqueue_other:
  assumes "q_ok q xs" "linked (store q) p ys" "m \<notin> set ys" "set xs \<inter> set ys = {}"
  shows "linked (store (txq_put m q)) p ys"
proof (cases "xs = []")
  case False
  then have "last xs \<notin> set ys" using assms(4) last_in_set[of xs] by blast
  then show ?thesis using assms False by (simp add: q_ok_def txq_put_def Let_def)
qed (use assms in \<open>simp add: q_ok_def txq_put_def Let_def\<close>)

section \<open>Hook and task together\<close>

text \<open>The hook may run between any two steps of the task: the queue, the list the task
  is working through, what it has handed on, and the packets accepted so far.\<close>

record txs =
  tq :: txq
  tx_list :: "nat option"
  handed :: "nat list"
  accepted :: "nat list"

definition in_flight :: "txs \<Rightarrow> nat list" where
  "in_flight s = drop (length (handed s)) (accepted s)"

text \<open>A packet the stack hands over is none of those in flight. The task starts over
  only with an empty list.\<close>

inductive tx_step :: "txs \<Rightarrow> txs \<Rightarrow> bool" where
  transmit: "m \<notin> set (in_flight s) \<Longrightarrow>
    tx_step s (s\<lparr>tq := txq_put m (tq s), accepted := accepted s @ [m]\<rparr>)"
| take_all: "tx_list s = None \<Longrightarrow> tx_take (tq s) = (p, q) \<Longrightarrow> tx_step s (s\<lparr>tq := q, tx_list := p\<rparr>)"
| hand_on: "tx_list s = Some m \<Longrightarrow> tx_pop m (tq s) = (p, q) \<Longrightarrow>
    tx_step s (s\<lparr>tq := q, tx_list := p, handed := handed s @ [m]\<rparr>)"

definition txs_init :: txs where
  "txs_init = \<lparr>tq = queue_init, tx_list = None, handed = [], accepted = []\<rparr>"

text \<open>In flight are the packets of the task and then those of the queue.\<close>

definition tx_inv :: "txs \<Rightarrow> bool" where
  "tx_inv s \<longleftrightarrow> (\<exists>xs ys. accepted s = handed s @ xs @ ys \<and> distinct (xs @ ys)
     \<and> linked (store (tq s)) (tx_list s) xs \<and> q_ok (tq s) ys)"

lemma tx_invI:
  "accepted s = handed s @ xs @ ys \<Longrightarrow> distinct (xs @ ys) \<Longrightarrow> linked (store (tq s)) (tx_list s) xs \<Longrightarrow> q_ok (tq s) ys \<Longrightarrow> tx_inv s"
  unfolding tx_inv_def by blast

lemma tx_inv_init: "tx_inv txs_init"
  by (simp add: tx_inv_def txs_init_def queue_init_def q_ok_def)

lemma tx_inv_step:
  assumes "tx_step s t" "tx_inv s"
  shows "tx_inv t"
proof -
  obtain xs ys where inv: "accepted s = handed s @ xs @ ys" "distinct (xs @ ys)"
    "linked (store (tq s)) (tx_list s) xs" "q_ok (tq s) ys"
    using assms(2) by (auto simp: tx_inv_def)
  from assms(1) show ?thesis
  proof cases
    case (transmit m)
    have m: "m \<notin> set xs" "m \<notin> set ys" using transmit(2) inv(1) by (simp_all add: in_flight_def)
    have "linked (store (txq_put m (tq s))) (tx_list s) xs"
      using enqueue_other[OF inv(4,3) m(1)] inv(2) by auto
    then show ?thesis
      using enqueue_chain[OF inv(4) m(2)] inv(1,2) m transmit(1)
      by (intro tx_invI[of t xs "ys @ [m]"]) simp_all
  next
    case (take_all p q)
    then have "xs = []" using inv(3) by (cases xs) simp_all
    then show ?thesis
      using inv take_all by (intro tx_invI[of t ys "[]"]) (auto simp: tx_take_def q_ok_def)
  next
    case (hand_on m p q)
    then obtain xs' where xs: "xs = m # xs'" using inv(3) by (cases xs) simp_all
    have "linked (store q) p xs'" "q_ok q ys"
      using hand_on inv xs by (auto simp: tx_pop_def q_ok_def)
    then show ?thesis
      using inv xs hand_on(1) by (intro tx_invI[of t xs' ys]) simp_all
  qed
qed

text \<open>C31: In every state that hook and task can reach, in any interleaving, what the task
  has handed to the bus is a prefix of what the hook has accepted, in order; and
  when neither the queue nor the task holds anything, it is all of it: nothing is
  lost, sent twice or reordered.\<close>

theorem tx_queue_fifo:
  assumes "tx_step\<^sup>*\<^sup>* txs_init s"
  shows "prefix (handed s) (accepted s)
    \<and> (tx_list s = None \<and> store (tq s) Head = None \<longrightarrow> handed s = accepted s)"
proof -
  have "tx_inv s" using assms by (induction rule: rtranclp_induct) (auto intro: tx_inv_init tx_inv_step)
  then obtain xs ys where inv: "accepted s = handed s @ xs @ ys" "linked (store (tq s)) (tx_list s) xs" "q_ok (tq s) ys"
    by (auto simp: tx_inv_def)
  have "xs = []" if "tx_list s = None" using inv(2) that by (cases xs) simp_all
  moreover have "ys = []" if "store (tq s) Head = None" using inv(3) that by (cases ys) (simp_all add: q_ok_def)
  ultimately show ?thesis using inv(1) by simp
qed

text \<open>Two packets accepted, the first handed on while the second comes in.\<close>

theorem tx_queue_fifo_witness:
  "\<exists>s. tx_step\<^sup>*\<^sup>* txs_init s \<and> accepted s = [7, 9] \<and> prefix (handed s) [7, 9] \<and> handed s = [7]"
proof -
  define s1 where "s1 = txs_init\<lparr>tq := txq_put 7 (tq txs_init), accepted := [7]\<rparr>"
  define s2 where "s2 = s1\<lparr>tq := snd (tx_take (tq s1)), tx_list := fst (tx_take (tq s1))\<rparr>"
  define s3 where "s3 = s2\<lparr>tq := txq_put 9 (tq s2), accepted := accepted s2 @ [9]\<rparr>"
  define s4 where "s4 = s3\<lparr>tq := snd (tx_pop 7 (tq s3)), tx_list := fst (tx_pop 7 (tq s3)), handed := handed s3 @ [7]\<rparr>"
  have "tx_step txs_init s1"
    unfolding s1_def using transmit[of 7 txs_init] by (simp add: txs_init_def in_flight_def)
  moreover have "tx_step s1 s2"
    unfolding s2_def by (rule take_all) (simp_all add: s1_def txs_init_def)
  moreover have "tx_step s2 s3"
    unfolding s3_def by (rule transmit) (simp add: s2_def s1_def txs_init_def in_flight_def)
  moreover have "tx_step s3 s4"
    unfolding s4_def
    by (rule hand_on) (simp_all add: s3_def s2_def s1_def txs_init_def queue_init_def txq_put_def tx_take_def)
  ultimately have r: "tx_step\<^sup>*\<^sup>* txs_init s4" by (blast intro: converse_rtranclp_into_rtranclp)
  moreover have "accepted s4 = [7, 9]" "handed s4 = [7]" by (simp_all add: s4_def s3_def s2_def s1_def txs_init_def)
  ultimately show ?thesis using tx_queue_fifo[OF r] by auto
qed

section \<open>The task alone\<close>

lemma tx_loop_chain:
  "linked (store q) p xs \<Longrightarrow> distinct xs \<Longrightarrow> \<exists>q'. tx_loop send p q s = Some (q', fold send xs s)
     \<and> store q' Head = store q Head \<and> tx_queue_tail q' = tx_queue_tail q"
proof (induction xs arbitrary: p q s)
  case Nil
  then show ?case by (subst tx_loop.simps) simp
next
  case (Cons x xs)
  then have "linked (store (snd (tx_pop x q))) (fst (tx_pop x q)) xs" by (simp add: tx_pop_def)
  from Cons.IH[OF this, of "send x s"] Cons.prems show ?case
    by (subst tx_loop.simps) (auto simp: tx_pop_def)
qed

text \<open>A run of the task ends: it hands every packet of the queue on, once and in order,
  and leaves the queue empty.\<close>

lemma task_runs:
  assumes "q_ok q xs"
  shows "\<exists>q'. cyw_tx_task send q s = Some (q', fold send xs s) \<and> q_ok q' []"
proof -
  have "linked (store (snd (tx_take q))) (fst (tx_take q)) xs" "distinct xs"
    using assms by (simp_all add: q_ok_def tx_take_def)
  from tx_loop_chain[OF this, of send s] show ?thesis
    by (auto simp: cyw_tx_task_def tx_take_def q_ok_def)
qed

section \<open>The frame of a packet\<close>

text \<open>The frame of a packet passes every check of the receive path when it fits its
  buffer, on the data channel, and the receive path cuts the packet out of it
  again, with at most three bytes of padding behind it.\<close>

theorem data_frame_roundtrip:
  assumes "14 \<le> length eth" "data_framelen eth \<le> CYW_SDPCM_MAX_FRAME"
  shows "wf_frame (data_frame eth seq) \<and> fr_chan (data_frame eth seq) = 2 \<and> data_frame eth seq ! 4 = seq
    \<and> (\<exists>k<4. data_payload (data_frame eth seq) = Some (eth @ replicate k 0))"
proof -
  define framelen where "framelen = data_framelen eth"
  define k where "k = framelen - (16 + length eth)"
  let ?pre = "le16 (of_nat framelen) @ le16 (NOT (of_nat framelen)) @ [seq, 2, 0, 12, 0, 0, 0, 0]"
  have fl: "16 + length eth \<le> framelen" "framelen < 16 + length eth + 4"
    using ALIGN4_bounds[of "16 + length eth"]
    by (simp_all add: framelen_def data_framelen_def CYW_SDPCM_HDR_LEN_def CYW_BDC_DATA_HDR_LEN_def)
  have fr: "data_frame eth seq = ?pre @ [32, 0, 0, 0] @ eth @ replicate k 0"
    by (simp add: data_frame_def Let_def framelen_def[symmetric] k_def CYW_SDPCM_CHAN_DATA_def CYW_SDPCM_HDR_LEN_def
        CYW_BCDC_PROTO_VER_def push_bit_eq_mult)
  have len: "length (data_frame eth seq) = framelen" using fl by (simp add: fr k_def)
  have max: "framelen \<le> 2048" using assms(2) by (simp add: framelen_def CYW_SDPCM_MAX_FRAME_def)
  have n: "data_frame eth seq ! 4 = seq" "data_frame eth seq ! 5 = 2" "data_frame eth seq ! 7 = 12"
    "data_frame eth seq ! 15 = 0"
    unfolding fr by (simp_all add: le16_def)
  have "rd_le16 (data_frame eth seq) 0 = of_nat framelen"
    unfolding fr append_assoc using rd_le16_append[of 0 "[]"] by simp
  moreover have "rd_le16 (data_frame eth seq) 2 = NOT (of_nat framelen)"
    unfolding fr append_assoc by (rule rd_le16_append) simp
  ultimately have wf: "wf_frame (data_frame eth seq)" using fl max by (simp add: wf_frame_def len sdpcm_consts)
  have ch: "fr_chan (data_frame eth seq) = 2" by (simp add: fr_chan_def n)
  have "take (framelen - 16) (drop 16 (data_frame eth seq)) = eth @ replicate k 0"
    using fl by (simp add: fr k_def)
  then have "data_payload (data_frame eth seq) = Some (eth @ replicate k 0)"
    using fl assms(1) by (simp add: data_payload_def ch cyw_sdpcm_copy_data_def n len ETHER_HDR_LEN_def) (simp add: k_def)
  moreover have "k < 4" using fl by (simp add: k_def)
  ultimately show ?thesis using wf ch n(1) by blast
qed

theorem data_frame_roundtrip_witness:
  "\<exists>k<4. data_payload (data_frame (replicate 15 7) 9) = Some (replicate 15 7 @ replicate k 0)"
  using data_frame_roundtrip[of "replicate 15 7" 9]
  by (simp add: data_framelen_def ALIGN4_def sdpcm_consts CYW_BDC_DATA_HDR_LEN_def del: replicate.simps)

section \<open>The task and the credit\<close>

text \<open>The packets of a run in order, each with the next sequence number, as far as the
  credit reaches; the others are dropped, and all are counted.\<close>

definition send_packet :: "(nat \<Rightarrow> bytes) \<Rightarrow> nat \<Rightarrow> txdata \<Rightarrow> txdata" where
  "send_packet pkt m s = snd (cyw_tx_data_frame False True True ok (pkt m) s)"

definition tx_credits :: "txdata \<Rightarrow> nat" where
  "tx_credits s = unat (sdpcm_rx_max (bus (fw s)) - sdpcm_tx_seq (bus (fw s)))"

lemma credit_step: "(r :: u8) \<noteq> q \<Longrightarrow> unat (r - (q + 1)) = unat (r - q) - 1"
proof -
  assume "r \<noteq> q"
  then have "r - q \<noteq> 0" by simp
  then have "unat (r - q - 1) = unat (r - q) - 1" by (rule unat_minus_one)
  then show ?thesis by (simp add: diff_diff_eq)
qed

lemma send_packet_facts:
  "tx_credits s = 0 \<Longrightarrow> sent (fw (send_packet pkt m s)) = sent (fw s) \<and> tx_credits (send_packet pkt m s) = 0
     \<and> sdpcm_tx_seq (bus (fw (send_packet pkt m s))) = sdpcm_tx_seq (bus (fw s))"
  "0 < tx_credits s \<Longrightarrow> sent (fw (send_packet pkt m s)) = sent (fw s) @ [data_frame (pkt m) (sdpcm_tx_seq (bus (fw s)))]
     \<and> tx_credits (send_packet pkt m s) = tx_credits s - 1
     \<and> sdpcm_tx_seq (bus (fw (send_packet pkt m s))) = sdpcm_tx_seq (bus (fw s)) + 1"
  "tx_data_frames (send_packet pkt m s) = tx_data_frames s + 1"
  using credit_step[of "sdpcm_rx_max (bus (fw s))" "sdpcm_tx_seq (bus (fw s))"]
  by (auto simp: send_packet_def cyw_tx_data_frame_def tx_credits_def tx_credit_def Let_def word_gt_0 unat_eq_0)

lemma send_packets:
  "sent (fw (fold (send_packet pkt) xs s)) = sent (fw s)
     @ map (\<lambda>i. data_frame (pkt (xs ! i)) (sdpcm_tx_seq (bus (fw s)) + of_nat i)) [0..<min (length xs) (tx_credits s)]
   \<and> tx_data_frames (fold (send_packet pkt) xs s) = tx_data_frames s + of_nat (length xs)"
proof (induction xs arbitrary: s)
  case (Cons x xs)
  have up: "map f [0..<Suc n] = f 0 # map (\<lambda>i. f (Suc i)) [0..<n]" for f :: "nat \<Rightarrow> bytes" and n
    by (simp add: map_upt_Suc del: upt_Suc)
  show ?case
  proof (cases "tx_credits s")
    case 0
    then show ?thesis using Cons.IH[of "send_packet pkt x s"] send_packet_facts(1)[of s pkt x]
        send_packet_facts(3)[of pkt x s] by simp
  next
    case (Suc c)
    then show ?thesis using Cons.IH[of "send_packet pkt x s"] send_packet_facts(2)[of s pkt x]
        send_packet_facts(3)[of pkt x s] by (simp add: up add.assoc del: upt_Suc)
  qed
qed simp

text \<open>C32: A run of the task over a queue of packets, from the pointers to the frames on the
  bus: with all allocations and writes going through it ends with an empty queue
  and has written the packets in the order of the queue under consecutive
  sequence numbers, as many as there were credits; the rest are dropped, not
  kept.\<close>

theorem tx_task_sends:
  assumes "q_ok q xs"
  shows "\<exists>q' s'. cyw_tx_task (send_packet pkt) q s = Some (q', s') \<and> q_ok q' []
    \<and> sent (fw s') = sent (fw s) @ map (\<lambda>i. data_frame (pkt (xs ! i)) (sdpcm_tx_seq (bus (fw s)) + of_nat i))
        [0..<min (length xs) (tx_credits s)]
    \<and> tx_data_frames s' = tx_data_frames s + of_nat (length xs)"
  using task_runs[OF assms, of "send_packet pkt" s] send_packets[of pkt xs s] by auto

theorem tx_task_sends_witness:
  "\<exists>q' s'. cyw_tx_task (send_packet (\<lambda>m. replicate 14 (of_nat m))) (txq_put 9 (txq_put 7 queue_init))
      \<lparr>fw = (idle_fil True)\<lparr>bus := idle_sdpcm\<lparr>sdpcm_tx_seq := 3\<rparr>\<rparr>, tx_data_frames = 0, tx_eapol_frames = 0, tx_eapol_bytes = 0\<rparr>
     = Some (q', s') \<and> sent (fw s') = [data_frame (replicate 14 7) 3] \<and> tx_data_frames s' = 2"
proof -
  let ?s = "\<lparr>fw = (idle_fil True)\<lparr>bus := idle_sdpcm\<lparr>sdpcm_tx_seq := 3\<rparr>\<rparr>, tx_data_frames = 0, tx_eapol_frames = 0, tx_eapol_bytes = 0\<rparr>"
  have "q_ok queue_init []" by (simp add: q_ok_def queue_init_def)
  from enqueue_chain[OF enqueue_chain[OF this, of 7], of 9]
  have q: "q_ok (txq_put 9 (txq_put 7 queue_init)) [7, 9]" by simp
  have c: "tx_credits ?s = 1" "sent (fw ?s) = []" "sdpcm_tx_seq (bus (fw ?s)) = 3" "tx_data_frames ?s = 0"
    by (simp_all add: tx_credits_def idle_sdpcm_def idle_fil_def)
  show ?thesis
    using tx_task_sends[OF q, of "\<lambda>m. replicate 14 (of_nat m)" ?s] unfolding c
    by (auto simp del: replicate.simps)
qed

end
