(* ===== verification/CywAttach.thy ===== *)
theory CywAttach
  imports CywFw CywTx
begin

text \<open>
  Attach and detach of the CYW43455 driver (src/cyw43455.c, and the attach and detach
  functions of src/cyw43455_cfg.c, cyw43455_scan.c and cyw43455_sdpcm.c): probing, the
  order in which the layers of the driver come up, the requests sent on the way,
  every failure with what it gives back, and the way down with the packets still
  queued. The layers are those of the other theories.
\<close>

section \<open>Probe\<close>

definition CYW_RAM_SIZE :: u32 where "CYW_RAM_SIZE = 0x000dc000"

definition CYW_VENDOR_BROADCOM :: nat where "CYW_VENDOR_BROADCOM = 0x02d0"

text \<open>The answer of a driver that takes the device is None.\<close>

definition cyw_probe :: "nat \<Rightarrow> nat \<Rightarrow> rc" where
  "cyw_probe funcnum vendor =
     (if funcnum \<noteq> 1 then fail ENXIO else if vendor \<noteq> CYW_VENDOR_BROADCOM then fail ENXIO else ok)"

section \<open>State\<close>

datatype cyw_res = Mtx | Ioctl_sx | Sysctl | Net80211 | Ioctl_cv | F2_sx | Rx_tq | Scan_tq | Rx_callout | Txq_mtx

text \<open>The layers of the driver, the request layer with its number of calls, and what is
  held of the kernel.\<close>

record cyw =
  sdio :: sdio_softc
  chip :: fw_chip
  layer :: "fil \<times> nat"
  handlers :: handler_table
  txqueue :: txq
  res :: "cyw_res list"
  mac_addr :: bytes
  fw_version :: bytes

definition take_res :: "cyw_res \<Rightarrow> cyw \<Rightarrow> cyw" where "take_res r s = s\<lparr>res := res s @ [r]\<rparr>"

definition release :: "cyw_res list \<Rightarrow> cyw \<Rightarrow> cyw" where "release rs s = s\<lparr>res := fold remove1 rs (res s)\<rparr>"

definition set_credit :: "u8 \<Rightarrow> cyw \<Rightarrow> cyw" where
  "set_credit n s = s\<lparr>layer := ((fst (layer s))\<lparr>bus := (bus (fst (layer s)))\<lparr>sdpcm_rx_max := n\<rparr>\<rparr>, snd (layer s))\<rparr>"

definition set_running :: "bool \<Rightarrow> cyw \<Rightarrow> cyw" where
  "set_running b s = s\<lparr>layer := ((fst (layer s))\<lparr>sdpcm_running := b\<rparr>, snd (layer s))\<rparr>"

section \<open>The receive layer\<close>

text \<open>rx_ok and scan_ok: whether the task queues can be made.\<close>

definition cyw_sdpcm_attach :: "bool \<Rightarrow> bool \<Rightarrow> cyw \<Rightarrow> rc \<times> cyw" where
  "cyw_sdpcm_attach rx_ok scan_ok s =
     (let s = take_res F2_sx (take_res Ioctl_cv (set_credit 4 s)) in
      if \<not> rx_ok then (fail ENOMEM, s)
      else let s = take_res Rx_tq s in
      if \<not> scan_ok then (fail ENOMEM, release [Rx_tq] s)
      else let s = take_res Txq_mtx (take_res Rx_callout (take_res Scan_tq s))
           in (ok, set_running True (s\<lparr>txqueue := queue_init\<rparr>)))"

text \<open>The packets left on the queue are freed one by one; None is a queue that has no end.\<close>

partial_function (option) txq_purge :: "txq \<Rightarrow> nat list \<Rightarrow> (nat list \<times> txq) option" where
  "txq_purge q freed =
     (case store q Head of
        None \<Rightarrow> Some (freed, q\<lparr>tx_queue_tail := Head\<rparr>)
      | Some m \<Rightarrow> txq_purge (q\<lparr>store := (store q)(Head := store q (Nextpkt m))\<rparr>) (freed @ [m]))"

definition wake_waiter :: "fil \<Rightarrow> fil" where
  "wake_waiter f =
     (if ioctl_waiting (xact f) then f\<lparr>xact := (xact f)\<lparr>ioctl_waiting := False, ioctl_result := fail ENXIO\<rparr>\<rparr> else f)"

definition cyw_sdpcm_detach :: "cyw \<Rightarrow> (nat list \<times> cyw) option" where
  "cyw_sdpcm_detach s =
     (let s = release [Rx_callout, Rx_tq, Scan_tq] (set_running False s) in
      case txq_purge (txqueue s) [] of
        None \<Rightarrow> None
      | Some (freed, q) \<Rightarrow>
          Some (freed, release [Txq_mtx, Ioctl_cv, F2_sx] (s\<lparr>txqueue := q, layer := (wake_waiter (fst (layer s)), snd (layer s))\<rparr>)))"

section \<open>Scanning and configuration\<close>

definition cyw_scan_attach :: "handler_table \<Rightarrow> rc \<times> handler_table" where
  "cyw_scan_attach tbl = cyw_event_register CYW_E_ESCAN_RESULT cyw_escan_result tbl"

definition cyw_scan_detach :: "handler_table \<Rightarrow> handler_table" where
  "cyw_scan_detach tbl = cyw_event_unregister CYW_E_ESCAN_RESULT tbl"

definition cyw_cfg_attach :: "(nat \<Rightarrow> fil_env) \<Rightarrow> cyw \<Rightarrow> rc \<times> cyw" where
  "cyw_cfg_attach envs s =
     (let (err, b, l) = fil_call envs (GetVar (cname ''cur_etheraddr'') 6) (layer s);
          s = s\<lparr>mac_addr := b, layer := l\<rparr>
      in if err \<noteq> ok then (err, s)
      else
        let s = take_res Net80211 s;
            (err, b, l) = fil_call envs (SetVar event_msgs_name event_mask) (layer s);
            s = s\<lparr>layer := l\<rparr>
        in if err \<noteq> ok then (err, release [Net80211] s)
        else
          let (err, tbl) = cyw_scan_attach (handlers s);
              s = s\<lparr>handlers := tbl\<rparr>
          in if err \<noteq> ok then (err, release [Net80211] s)
          else
            let (err, tbl) = cyw_security_event_attach (handlers s);
                s = s\<lparr>handlers := tbl\<rparr>
            in if err \<noteq> ok then (err, release [Net80211] (s\<lparr>handlers := cyw_scan_detach (handlers s)\<rparr>))
            else (ok, s))"

definition cyw_cfg_detach :: "cyw \<Rightarrow> cyw" where
  "cyw_cfg_detach s = release [Net80211] (s\<lparr>handlers := cyw_scan_detach (cyw_security_event_detach (handlers s))\<rparr>)"

section \<open>The requests of the attach\<close>

definition dongle_init :: "fwreq list" where
  "dongle_init = [SetVar (cname ''bus:txglom'') (le32 0), SetVar (cname ''roam_off'') (le32 1), SetVar (cname ''pm'') (le32 0),
     SetVar (cname ''btc_mode'') (le32 0), SetVar (cname ''allmulti'') (le32 1)]"

definition clm_requests :: "bytes \<Rightarrow> fwreq list" where
  "clm_requests data = map (SetVar (cname ''clmload'')) (snd (clm_loop (\<lambda>_. ok) data 0 CYW_CLM_DL_BEGIN 0 []))"

text \<open>The upload as requests of the layer.\<close>

definition clm_upload :: "(nat \<Rightarrow> fil_env) \<Rightarrow> bytes option \<Rightarrow> fil \<times> nat \<Rightarrow> rc \<times> fil \<times> nat" where
  "clm_upload envs clm l =
     (case clm of
        None \<Rightarrow> (ok, l)
      | Some data \<Rightarrow>
          let (err, l) = call_until (fil_call envs) (clm_requests data) l
          in if err \<noteq> ok then (err, l)
          else
            let (err, b, l) = fil_call envs (GetVar (cname ''clmload_status'') 4) l
            in if err \<noteq> ok then (err, l)
            else (if rd_le32 b 0 \<noteq> 0 then fail EIO else ok, l))"

section \<open>Attach\<close>

text \<open>What is found: the functions of the card, with the numbers of all of them, and the
  answers of the layers below.\<close>

record attach_env =
  f1_func :: bool
  children :: "nat list option"
  f2_func :: bool
  sdio_e :: sdio_env
  fw_e :: fw_env
  rq :: "nat \<Rightarrow> fil_env"
  clm_blob :: "bytes option"
  rx_tq_ok :: bool
  scan_tq_ok :: bool

definition f2_found :: "nat list option \<Rightarrow> bool" where
  "f2_found cs = (case cs of None \<Rightarrow> False | Some ns \<Rightarrow> 2 \<in> set ns)"

definition read_version :: "(nat \<Rightarrow> fil_env) \<Rightarrow> cyw \<Rightarrow> cyw" where
  "read_version envs s =
     (let (err, b, l) = fil_call envs (GetVar (cname ''ver'') 127) (layer s)
      in s\<lparr>layer := l, fw_version := if err \<noteq> ok then cname ''unknown'' else takeWhile (\<lambda>c. c \<noteq> 0) b\<rparr>)"

text \<open>None is an attach that does not return.\<close>

definition cyw_attach :: "attach_env \<Rightarrow> cyw \<Rightarrow> (rc \<times> cyw) option" where
  "cyw_attach e s =
     (let s = take_res Ioctl_sx (take_res Mtx (s\<lparr>sdio := (sdio s)\<lparr>ram_base := CYW_RAM_BASE, ram_size := CYW_RAM_SIZE\<rparr>\<rparr>)) in
      if \<not> f1_func e then Some (fail ENXIO, release [Mtx] s)
      else if \<not> (f2_found (children e) \<and> f2_func e) then Some (fail ENXIO, release [Mtx] s)
      else
        let s = take_res Sysctl s
        in case cyw_sdio_attach (sdio_e e) (sdio s) of
          None \<Rightarrow> None
        | Some (err, sdc) \<Rightarrow> Some
            (let s = s\<lparr>sdio := sdc\<rparr> in
             if err \<noteq> ok then (err, release [Sysctl, Mtx] s)
             else
               let s = set_credit 4 s;
                   (err, c) = cyw_fw_download (fw_e e) (chip s);
                   s = s\<lparr>chip := c\<rparr>
               in if err \<noteq> ok then (err, release [Sysctl, Mtx] (s\<lparr>sdio := cyw_sdio_detach (sdio s)\<rparr>))
               else
                 let (err, l) = clm_upload (rq e) (clm_blob e) (call_all (fil_call (rq e)) dongle_init (layer s));
                     s = s\<lparr>layer := l\<rparr>
                 in if err \<noteq> ok then (err, release [Sysctl, Mtx] (s\<lparr>sdio := cyw_sdio_detach (sdio s)\<rparr>))
                 else
                   let (err, s) = cyw_cfg_attach (rq e) (read_version (rq e) s)
                   in if err \<noteq> ok then (err, release [Sysctl, Mtx] (s\<lparr>sdio := cyw_sdio_detach (sdio s)\<rparr>))
                   else
                     let (err, s) = cyw_sdpcm_attach (rx_tq_ok e) (scan_tq_ok e) s
                     in if err \<noteq> ok
                        then let s = cyw_cfg_detach s
                             in (err, release [Sysctl, Mtx] (s\<lparr>sdio := cyw_sdio_detach (sdio s)\<rparr>))
                        else (ok, s)))"

text \<open>The packets freed, and the state after; None only if the queue has no end.\<close>

definition cyw_detach :: "cyw \<Rightarrow> (nat list \<times> cyw) option" where
  "cyw_detach s =
     (case cyw_sdpcm_detach (cyw_cfg_detach s) of
        None \<Rightarrow> None
      | Some (freed, s) \<Rightarrow> Some (freed, release [Sysctl, Ioctl_sx, Mtx] (s\<lparr>sdio := cyw_sdio_detach (sdio s)\<rparr>)))"

section \<open>Reading back\<close>

text \<open>The three nodes that ask the firmware.\<close>

definition cyw_sysctl_fw_iovar :: "(nat \<Rightarrow> fil_env) \<Rightarrow> string \<Rightarrow> cyw \<Rightarrow> u32 result \<times> cyw" where
  "cyw_sysctl_fw_iovar envs iovar s =
     (if \<not> sdpcm_running (fst (layer s)) then (Inl ENXIO, s)
      else
        let (err, b, l) = fil_call envs (GetVar (cname iovar) 4) (layer s)
        in (case err of Some e \<Rightarrow> Inl e | None \<Rightarrow> Inr (rd_le32 b 0), s\<lparr>layer := l\<rparr>))"

definition cyw_sysctl_fw_wsec :: "(nat \<Rightarrow> fil_env) \<Rightarrow> cyw \<Rightarrow> u32 result \<times> cyw" where
  "cyw_sysctl_fw_wsec envs = cyw_sysctl_fw_iovar envs ''wsec''"

definition cyw_sysctl_fw_wpa_auth :: "(nat \<Rightarrow> fil_env) \<Rightarrow> cyw \<Rightarrow> u32 result \<times> cyw" where
  "cyw_sysctl_fw_wpa_auth envs = cyw_sysctl_fw_iovar envs ''wpa_auth''"

definition cyw_sysctl_fw_auth :: "(nat \<Rightarrow> fil_env) \<Rightarrow> cyw \<Rightarrow> u32 result \<times> cyw" where
  "cyw_sysctl_fw_auth envs = cyw_sysctl_fw_iovar envs ''auth''"

section \<open>The queue is freed\<close>

lemma purge_linked:
  "linked (store q) (store q Head) xs \<Longrightarrow> \<exists>q'. txq_purge q freed = Some (freed @ xs, q') \<and> q_ok q' []"
proof (induction xs arbitrary: q freed)
  case Nil
  then show ?case by (subst txq_purge.simps) (simp add: q_ok_def)
next
  case (Cons x xs)
  let ?q = "q\<lparr>store := (store q)(Head := store q (Nextpkt x))\<rparr>"
  have "linked (store ?q) (store ?q Head) xs" using Cons.prems by simp
  from Cons.IH[OF this, of "freed @ [x]"] show ?case
    using Cons.prems by (subst txq_purge.simps) simp
qed

section \<open>Each layer gives back what it took\<close>

abbreviation "no_handlers \<equiv> replicate 128 (None :: handler option)"

lemma scan_attach_table:
  "length tbl = 128 \<Longrightarrow> cyw_scan_attach tbl = (ok, tbl[69 := Some cyw_escan_result])"
  by (simp add: cyw_scan_attach_def cyw_event_register_def event_codes CYW_EVENT_MAX_CODE_def)

lemma security_attach_table:
  "length tbl = 128 \<Longrightarrow> cyw_security_event_attach tbl = (ok, tbl[16 := Some cyw_link, 0 := Some cyw_set_ssid, 46 := Some cyw_psk_sup])"
  by (simp add: cyw_security_event_attach_def cyw_event_register_def event_codes CYW_EVENT_MAX_CODE_def Let_def)

lemma detach_table:
  "cyw_scan_detach (cyw_security_event_detach tbl) = tbl[46 := None, 0 := None, 16 := None, 69 := None]"
  by (simp add: cyw_scan_detach_def cyw_security_event_detach_def cyw_event_unregister_def event_codes CYW_EVENT_MAX_CODE_def)

lemma no_handlers_again:
  "no_handlers[69 := Some a, 16 := Some b, 0 := Some c, 46 := None, 0 := None, 16 := None, 69 := None] = no_handlers"
  by (rule nth_equalityI) (auto simp: nth_list_update simp del: replicate.simps)

lemma remove_last: "r \<notin> set xs \<Longrightarrow> remove1 r (xs @ [r]) = xs"
  by (simp add: remove1_append)

lemma cfg_attach_result:
  assumes "cyw_cfg_attach envs s = (r, s')" "handlers s = no_handlers" "Net80211 \<notin> set (res s)"
  shows "sdio s' = sdio s \<and> chip s' = chip s \<and>
    (if r = ok then res s' = res s @ [Net80211] \<and> handlers (cyw_cfg_detach s') = no_handlers \<and> res (cyw_cfg_detach s') = res s
     else res s' = res s \<and> handlers s' = no_handlers)"
proof -
  have t: "cyw_scan_attach no_handlers = (ok, no_handlers[69 := Some cyw_escan_result])"
    "cyw_security_event_attach (no_handlers[69 := Some cyw_escan_result])
       = (ok, no_handlers[69 := Some cyw_escan_result, 16 := Some cyw_link, 0 := Some cyw_set_ssid, 46 := Some cyw_psk_sup])"
    by (simp_all add: scan_attach_table security_attach_table del: replicate.simps)
  show ?thesis
    using assms
    by (auto simp: cyw_cfg_attach_def cyw_cfg_detach_def take_res_def release_def t detach_table no_handlers_again remove_last Let_def
        simp del: replicate.simps split: prod.splits if_splits)
qed

lemma sdpcm_attach_result:
  assumes "cyw_sdpcm_attach rx_ok scan_ok s = (r, s')" "Rx_tq \<notin> set (res s)"
  shows "sdio s' = sdio s \<and> handlers s' = handlers s \<and> (r = ok \<longleftrightarrow> rx_ok \<and> scan_ok)
    \<and> res s' = res s @ [Ioctl_cv, F2_sx] @ (if r = ok then [Rx_tq, Scan_tq, Rx_callout, Txq_mtx] else [])
    \<and> (r = ok \<longrightarrow> sdpcm_running (fst (layer s')) \<and> q_ok (txqueue s') [])"
  using assms
  by (cases rx_ok; cases scan_ok)
     (auto simp: cyw_sdpcm_attach_def take_res_def release_def set_credit_def set_running_def Let_def remove1_append
      queue_init_def q_ok_def)

lemma credit_frame [simp]:
  "sdio (set_credit n s) = sdio s" "handlers (set_credit n s) = handlers s" "res (set_credit n s) = res s"
  "sdio (read_version envs s) = sdio s" "handlers (read_version envs s) = handlers s" "res (read_version envs s) = res s"
  by (simp_all add: set_credit_def read_version_def Let_def split: prod.splits)

lemma cfg_detach_frame [simp]: "sdio (cyw_cfg_detach s) = sdio s"
  by (simp add: cyw_cfg_detach_def release_def)

section \<open>What an attach leaves\<close>

abbreviation "started s \<equiv> (sdio s)\<lparr>ram_base := CYW_RAM_BASE, ram_size := CYW_RAM_SIZE\<rparr>"

text \<open>The stages an attach goes through when it gets as far as the configuration, and what it
  holds there.\<close>

lemma attach_stages:
  assumes "cyw_attach e s = Some (r, s')" "res s = []" "handlers s = no_handlers" "\<not> sdio_attached (sdio s)"
  shows "(r \<noteq> ok \<and> res s' = [Ioctl_sx] \<and> handlers s' = no_handlers
        \<and> (sdio s' = started s \<or> (\<exists>sdc err. cyw_sdio_attach (sdio_e e) (started s) = Some (err, sdc)
             \<and> (if err = ok then sdio s' = cyw_sdio_detach sdc else err = r \<and> sdio s' = sdc))))
    \<or> (\<exists>sdc s1 s2 r2. cyw_sdio_attach (sdio_e e) (started s) = Some (ok, sdc)
        \<and> cyw_cfg_attach (rq e) s1 = (ok, s2) \<and> res s1 = [Mtx, Ioctl_sx, Sysctl] \<and> handlers s1 = no_handlers \<and> sdio s1 = sdc
        \<and> cyw_sdpcm_attach (rx_tq_ok e) (scan_tq_ok e) s2 = (r, r2)
        \<and> s' = (if r = ok then r2 else release [Sysctl, Mtx] ((cyw_cfg_detach r2)\<lparr>sdio := cyw_sdio_detach (sdio r2)\<rparr>)))"
proof -
  let ?s0 = "take_res Ioctl_sx (take_res Mtx (s\<lparr>sdio := started s\<rparr>))"
  have s0: "sdio ?s0 = started s" "handlers ?s0 = no_handlers" "res ?s0 = [Mtx, Ioctl_sx]"
    using assms by (simp_all add: take_res_def del: replicate.simps)
  show ?thesis
  proof (cases "f1_func e \<and> f2_found (children e) \<and> f2_func e")
    case False
    then have "r = fail ENXIO" "s' = release [Mtx] ?s0"
      using assms(1) by (auto simp: cyw_attach_def Let_def split: if_splits)
    then show ?thesis using s0 by (simp add: release_def del: replicate.simps)
  next
    case True
    let ?s1 = "take_res Sysctl ?s0"
    have s1: "res ?s1 = [Mtx, Ioctl_sx, Sysctl]" "handlers ?s1 = no_handlers" "sdio ?s1 = started s"
      using s0 by (simp_all add: take_res_def del: replicate.simps)
    obtain err sdc where a: "cyw_sdio_attach (sdio_e e) (started s) = Some (err, sdc)"
      using assms(1) True s1(3) by (auto simp: cyw_attach_def Let_def split: option.splits)
    show ?thesis
    proof (cases "err = ok")
      case False
      then have "r = err" "s' = release [Sysctl, Mtx] (?s1\<lparr>sdio := sdc\<rparr>)"
        using assms(1) True a s1(3) by (auto simp: cyw_attach_def Let_def)
      then show ?thesis using a False s1 by (auto simp: release_def simp del: replicate.simps)
    next
      case sok: True
      let ?s2 = "set_credit 4 (?s1\<lparr>sdio := sdc\<rparr>)"
      obtain err2 c where b: "cyw_fw_download (fw_e e) (chip ?s2) = (err2, c)" by fastforce
      let ?s3 = "?s2\<lparr>chip := c\<rparr>"
      obtain err3 l where u: "clm_upload (rq e) (clm_blob e) (call_all (fil_call (rq e)) dongle_init (layer ?s3)) = (err3, l)"
        by (meson surj_pair)
      let ?s4 = "read_version (rq e) (?s3\<lparr>layer := l\<rparr>)"
      obtain err4 s5 where g: "cyw_cfg_attach (rq e) ?s4 = (err4, s5)" by fastforce
      obtain err5 s6 where d: "cyw_sdpcm_attach (rx_tq_ok e) (scan_tq_ok e) s5 = (err5, s6)" by fastforce
      have h: "res ?s3 = [Mtx, Ioctl_sx, Sysctl]" "handlers ?s3 = no_handlers" "sdio ?s3 = sdc"
        "res ?s4 = [Mtx, Ioctl_sx, Sysctl]" "handlers ?s4 = no_handlers" "sdio ?s4 = sdc"
        using s1 by (simp_all del: replicate.simps)
      have e: "Some (r, s') = Some (if err2 \<noteq> ok then (err2, release [Sysctl, Mtx] (?s3\<lparr>sdio := cyw_sdio_detach (sdio ?s3)\<rparr>))
        else if err3 \<noteq> ok then (err3, release [Sysctl, Mtx] (?s3\<lparr>layer := l, sdio := cyw_sdio_detach (sdio ?s3)\<rparr>))
        else if err4 \<noteq> ok then (err4, release [Sysctl, Mtx] (s5\<lparr>sdio := cyw_sdio_detach (sdio s5)\<rparr>))
        else if err5 \<noteq> ok then (err5, release [Sysctl, Mtx] ((cyw_cfg_detach s6)\<lparr>sdio := cyw_sdio_detach (sdio s6)\<rparr>))
        else (ok, s6))"
        unfolding assms(1)[symmetric] using True a s1(3) sok b u g d by (simp add: cyw_attach_def Let_def)
      have c: "sdio s5 = sdc \<and> (err4 \<noteq> ok \<longrightarrow> res s5 = [Mtx, Ioctl_sx, Sysctl] \<and> handlers s5 = no_handlers)"
        using cfg_attach_result[OF g h(5)] h(4,6) by (auto simp del: replicate.simps split: if_splits)
      show ?thesis
      proof (cases "err2 = ok \<and> err3 = ok \<and> err4 = ok")
        case True
        then have "(r, s') = (if err5 \<noteq> ok then (err5, release [Sysctl, Mtx] ((cyw_cfg_detach s6)\<lparr>sdio := cyw_sdio_detach (sdio s6)\<rparr>)) else (ok, s6))"
          using e by simp
        then have "cyw_sdpcm_attach (rx_tq_ok e) (scan_tq_ok e) s5 = (r, s6)
          \<and> s' = (if r = ok then s6 else release [Sysctl, Mtx] ((cyw_cfg_detach s6)\<lparr>sdio := cyw_sdio_detach (sdio s6)\<rparr>))"
          using d by (cases "err5 = ok") auto
        then show ?thesis using a sok g h True by blast
      next
        case False
        then show ?thesis using e a sok h c by (auto simp: release_def simp del: replicate.simps split: if_splits)
      qed
    qed
  qed
qed

lemma detach_sdio_off: "\<not> sdio_attached (cyw_sdio_detach d) \<and> (sdio_attached d \<longrightarrow> \<not> f1_enabled (cyw_sdio_detach d) \<and> \<not> f2_enabled (cyw_sdio_detach d))"
  by (simp add: cyw_sdio_detach_def)

lemma cfg_detach_handlers: "handlers (cyw_cfg_detach s) = cyw_scan_detach (cyw_security_event_detach (handlers s))"
  "res (cyw_cfg_detach s) = remove1 Net80211 (res s)"
  by (simp_all add: cyw_cfg_detach_def release_def)

text \<open>The state after the last stages.\<close>

lemma full_state:
  assumes "cyw_cfg_attach envs s1 = (ok, s2)" "res s1 = [Mtx, Ioctl_sx, Sysctl]" "handlers s1 = no_handlers"
    and "cyw_sdpcm_attach rx_ok scan_ok s2 = (r, s3)"
  shows "sdio s3 = sdio s1" "handlers (cyw_cfg_detach s3) = no_handlers"
    and "res s3 = [Mtx, Ioctl_sx, Sysctl, Net80211, Ioctl_cv, F2_sx] @ (if r = ok then [Rx_tq, Scan_tq, Rx_callout, Txq_mtx] else [])"
    and "r = ok \<longleftrightarrow> rx_ok \<and> scan_ok" "r \<in> {ok, fail ENOMEM}" "r = ok \<Longrightarrow> sdpcm_running (fst (layer s3)) \<and> q_ok (txqueue s3) []"
proof -
  have c: "sdio s2 = sdio s1" "res s2 = [Mtx, Ioctl_sx, Sysctl, Net80211]" "handlers (cyw_cfg_detach s2) = no_handlers"
    using cfg_attach_result[OF assms(1,3)] assms(2) by (simp_all del: replicate.simps)
  then have d: "sdio s3 = sdio s2 \<and> handlers s3 = handlers s2 \<and> (r = ok \<longleftrightarrow> rx_ok \<and> scan_ok)
    \<and> res s3 = res s2 @ [Ioctl_cv, F2_sx] @ (if r = ok then [Rx_tq, Scan_tq, Rx_callout, Txq_mtx] else [])
    \<and> (r = ok \<longrightarrow> sdpcm_running (fst (layer s3)) \<and> q_ok (txqueue s3) [])"
    using sdpcm_attach_result[OF assms(4)] by simp
  show "sdio s3 = sdio s1" using c d by simp
  show "handlers (cyw_cfg_detach s3) = no_handlers"
    using c(3) d unfolding cfg_detach_handlers by (simp only:)
  show "res s3 = [Mtx, Ioctl_sx, Sysctl, Net80211, Ioctl_cv, F2_sx] @ (if r = ok then [Rx_tq, Scan_tq, Rx_callout, Txq_mtx] else [])"
    using c d by simp
  show "r = ok \<longleftrightarrow> rx_ok \<and> scan_ok" "r = ok \<Longrightarrow> sdpcm_running (fst (layer s3)) \<and> q_ok (txqueue s3) []" using d by simp_all
  show "r \<in> {ok, fail ENOMEM}" using assms(4) by (auto simp: cyw_sdpcm_attach_def Let_def split: if_splits)
qed



section \<open>A firmware that answers\<close>

text \<open>A response to the call with the given identifier, without error, which leaves a credit
  for the next sequence number; and a list of such responses to the calls that follow.\<close>

definition good_reply :: "u16 \<Rightarrow> u8 \<Rightarrow> bytes \<times> bytes \<Rightarrow> bool" where
  "good_reply xid seq fp \<longleftrightarrow> wf_frame (fst fp) \<and> padded (fst fp) (snd fp) \<and> ctrl_inside (fst fp)
     \<and> fr_chan (fst fp) = 0 \<and> ctrl_id (fst fp) = xid
     \<and> rd_le32 (fst fp) (unat (fst fp ! 7) + 8) AND BCDC_DCMD_ERROR = 0 \<and> tx_credit (fst fp ! 9) seq"

fun answered :: "u16 \<Rightarrow> u8 \<Rightarrow> (bytes \<times> bytes) list \<Rightarrow> bool" where
  "answered xid seq [] \<longleftrightarrow> True"
| "answered xid seq (fp # fps) \<longleftrightarrow> good_reply xid seq fp \<and> answered (xid + 1) (seq + 1) fps"

text \<open>The request layer before the receive task runs, with the responses to come in the FIFO.\<close>

definition awaits :: "(bytes \<times> bytes) list \<Rightarrow> fil \<Rightarrow> bool" where
  "awaits fps f \<longleftrightarrow> \<not> sdpcm_running f \<and> stream (bus f) = stream_of fps \<and> read_fails (bus f) = []
     \<and> gate_open (length fps) (bus f) \<and> answered (ioctl_id f + 1) (sdpcm_tx_seq (bus f) + 1) fps"

definition has_credit :: "fil \<Rightarrow> bool" where
  "has_credit f \<longleftrightarrow> tx_credit (sdpcm_rx_max (bus f)) (sdpcm_tx_seq (bus f))"

lemma gate_keeps_more:
  "intr_gate s = (go, s1) \<Longrightarrow> sdpcm_tx_seq s1 = sdpcm_tx_seq s \<and> core_known s1 = core_known s"
  by (auto simp: intr_gate_def Let_def split: if_splits)

lemma boot_step:
  assumes "awaits (fp # fps) f" "has_credit f" "write_rc env = ok"
  shows "\<exists>b f'. cyw_fil_txrx env cmd fl name buf f = (ok, b, f') \<and> awaits fps f' \<and> has_credit f'
    \<and> sdpcm_tx_seq (bus f') = sdpcm_tx_seq (bus f) + 1"
proof -
  obtain fr pad where fp: "fp = (fr, pad)" by (cases fp)
  let ?b = "(bus f)\<lparr>sdpcm_tx_seq := sdpcm_tx_seq (bus f) + 1\<rparr>"
  have g: "good_reply (ioctl_id f + 1) (sdpcm_tx_seq (bus f) + 1) (fr, pad)" using assms(1) by (simp add: awaits_def fp)
  have st: "stream ?b = fr @ pad @ stream_of fps" "read_fails ?b = []" "gate_open (Suc (length fps)) ?b"
    using assms(1) by (simp_all add: awaits_def fp stream_of_def gate_open_def)
  obtain s1 where s1: "intr_gate ?b = (True, s1)" "gate_open (length fps) s1" using gate_open_step[OF st(3)] by blast
  have keep: "read_fails s1 = []" "sdpcm_tx_seq s1 = sdpcm_tx_seq (bus f) + 1"
    using gate_keeps[OF s1(1)] gate_keeps_more[OF s1(1)] st(2) by simp_all
  let ?rsp = "replicate CYW_SDPCM_BUF_SIZE 0 :: bytes"
  let ?s2 = "s1\<lparr>stream := stream_of fps, sdpcm_rx_max := fr ! 9, rx_ok_count := rx_ok_count s1 + 1\<rparr>"
  have wf: "wf_frame fr" "padded fr pad" "ctrl_inside fr" "fr_chan fr = 0" "ctrl_id fr = ioctl_id f + 1"
    "rd_le32 fr (unat (fr ! 7) + 8) AND BCDC_DCMD_ERROR = 0" "tx_credit (fr ! 9) (sdpcm_tx_seq (bus f) + 1)"
    using g by (simp_all add: good_reply_def)
  obtain b where b: "cyw_sdpcm_recv_one (fl_flush env) ?rsp ?b = (Inr (of_nat (length fr)), b, ?s2)"
    "take (length fr) b = fr" "length b = CYW_SDPCM_BUF_SIZE"
    using recv_one_frame[OF s1(1) st(2) _ wf(1,2) st(1), of ?rsp "fl_flush env"] by auto
  have un: "unat (of_nat (length fr) :: u16) = length fr" and le: "length fr \<le> length b"
    using wf(1) b(3) by (simp_all add: wf_frame_def sdpcm_consts unat_of_nat take_bit_nat_eq_self)
  have get: "fst (ctrl_answer gt fr bf) = ok" for gt bf using wf(6) by (simp add: ctrl_answer_def Let_def)
  have poll_n: "resp_poll env (ioctl_id f + 1) gt (Suc n) ?rsp bf ?b = (ok, snd (ctrl_answer gt fr bf), ?s2)" for gt bf n
    using resp_buffer[OF b(2) le wf(3)] wf(4,5) b(1) get[of gt bf]
    by (simp add: un split_beta del: replicate.simps)
  then have poll: "resp_poll env (ioctl_id f + 1) gt 300 ?rsp bf ?b = (ok, snd (ctrl_answer gt fr bf), ?s2)" for gt bf
    using poll_n[of gt 299 bf] by (simp del: replicate.simps resp_poll.simps)
  have credit_n: "credit_poll env (Suc n) ?rsp (bus f) = (ok, ?rsp, bus f)" for n
    using assms(2) by (simp add: has_credit_def del: replicate.simps)
  then have credit: "credit_poll env 100 ?rsp (bus f) = (ok, ?rsp, bus f)"
    using credit_n[of 99] by (simp del: replicate.simps credit_poll.simps)
  have run: "\<not> sdpcm_running f" "tx_credit (sdpcm_rx_max (bus f)) (sdpcm_tx_seq (bus f))"
    using assms(1,2) by (simp_all add: awaits_def has_credit_def)
  have "\<exists>f'. cyw_fil_txrx env cmd fl name buf f = (ok, snd (ctrl_answer (fl AND BCDC_DCMD_SET = 0) fr buf), f')
      \<and> bus f' = ?s2 \<and> ioctl_id f' = ioctl_id f + 1 \<and> \<not> sdpcm_running f'"
    using run assms(3) credit poll
    by (simp add: cyw_fil_txrx_def fil_boot_def Let_def ring_doorbell_def del: replicate.simps credit_poll.simps resp_poll.simps)
  then obtain f' where f': "cyw_fil_txrx env cmd fl name buf f = (ok, snd (ctrl_answer (fl AND BCDC_DCMD_SET = 0) fr buf), f')"
    "bus f' = ?s2" "ioctl_id f' = ioctl_id f + 1" "\<not> sdpcm_running f'" by blast
  have "awaits fps f'" "has_credit f'" "sdpcm_tx_seq (bus f') = sdpcm_tx_seq (bus f) + 1"
    using assms(1) f'(2-4) keep s1(2) wf(7)
    by (simp_all add: awaits_def has_credit_def fp gate_open_def)
  then show ?thesis using f'(1) by blast
qed

lemma call_answered:
  assumes "awaits (fp # fps) (fst l)" "has_credit (fst l)" "\<forall>k. write_rc (envs k) = ok" "req_valid r"
  shows "\<exists>b l'. fil_call envs r l = (ok, b, l') \<and> awaits fps (fst l') \<and> has_credit (fst l') \<and> fil_seen l' = fil_seen l @ [r]
    \<and> sdpcm_tx_seq (bus (fst l')) = sdpcm_tx_seq (bus (fst l)) + 1"
proof -
  obtain f k where l: "l = (f, k)" by (cases l)
  have t: "\<exists>b f'. cyw_fil_txrx (envs k) cmd fl name buf f = (ok, b, f') \<and> awaits fps f' \<and> has_credit f'
      \<and> sdpcm_tx_seq (bus f') = sdpcm_tx_seq (bus f) + 1" for cmd fl name buf
    using boot_step[of fp fps f "envs k"] assms(1-3) by (simp add: l)
  have "\<exists>b f'. (case r of SetVar name d \<Rightarrow> cyw_fil_txrx (envs k) WLC_SET_VAR BCDC_DCMD_SET (Some name) d f
               | GetVar name n \<Rightarrow> cyw_fil_txrx (envs k) WLC_GET_VAR 0 (Some name) (replicate n 0) f
               | SetCmd cmd d \<Rightarrow> cyw_fil_txrx (envs k) cmd BCDC_DCMD_SET None d f
               | GetCmd cmd n \<Rightarrow> cyw_fil_txrx (envs k) cmd 0 None (replicate n 0) f) = (ok, b, f')
      \<and> awaits fps f' \<and> has_credit f' \<and> sdpcm_tx_seq (bus f') = sdpcm_tx_seq (bus f) + 1"
    using t by (cases r) simp_all
  then have "\<exists>b l'. fil_call envs r l = (ok, b, l') \<and> awaits fps (fst l') \<and> has_credit (fst l')
      \<and> sdpcm_tx_seq (bus (fst l')) = sdpcm_tx_seq (bus (fst l)) + 1"
    by (auto simp: fil_call_def l)
  then obtain b l' where c: "fil_call envs r l = (ok, b, l')" "awaits fps (fst l')" "has_credit (fst l')"
    "sdpcm_tx_seq (bus (fst l')) = sdpcm_tx_seq (bus (fst l)) + 1" by blast
  then show ?thesis using filreq.call_ok[OF assms(4) c(1)] by blast
qed

lemma all_answered:
  "\<lbrakk>length fps = length rs; awaits (fps @ post) (fst l); has_credit (fst l); \<forall>k. write_rc (envs k) = ok; \<forall>r \<in> set rs. req_valid r\<rbrakk>
   \<Longrightarrow> awaits post (fst (call_all (fil_call envs) rs l)) \<and> has_credit (fst (call_all (fil_call envs) rs l))
     \<and> fil_seen (call_all (fil_call envs) rs l) = fil_seen l @ rs
     \<and> sdpcm_tx_seq (bus (fst (call_all (fil_call envs) rs l))) = sdpcm_tx_seq (bus (fst l)) + of_nat (length rs)"
proof (induction fps rs arbitrary: l rule: list_induct2')
  case (4 fp fps r rs)
  obtain b l' where c: "fil_call envs r l = (ok, b, l')" "awaits (fps @ post) (fst l')" "has_credit (fst l')" "fil_seen l' = fil_seen l @ [r]"
    "sdpcm_tx_seq (bus (fst l')) = sdpcm_tx_seq (bus (fst l)) + 1"
    using call_answered[of fp "fps @ post" l envs r] 4(3-6) by auto
  then show ?case using 4(1)[of l'] 4(2,5,6) by simp
qed simp_all

lemma attach_names: "0 \<notin> set (cname ''bus:txglom'')" "0 \<notin> set (cname ''roam_off'')" "0 \<notin> set (cname ''pm'')"
  "0 \<notin> set (cname ''btc_mode'')" "0 \<notin> set (cname ''allmulti'')" "0 \<notin> set (cname ''ver'')" "0 \<notin> set (cname ''cur_etheraddr'')"
  "0 \<notin> set event_msgs_name" "length event_mask < 1000"
  by (simp_all add: cname_def event_msgs_name_def) (code_simp)

text \<open>The requests after the initial ones.\<close>

definition cfg_requests :: "fwreq list" where
  "cfg_requests = [GetVar (cname ''ver'') 127, GetVar (cname ''cur_etheraddr'') 6, SetVar event_msgs_name event_mask]"

lemma attach_requests_valid: "\<forall>r \<in> set dongle_init. req_valid r" "\<forall>r \<in> set cfg_requests. req_valid r"
  using attach_names by (simp_all add: dongle_init_def cfg_requests_def req_valid_def cname_def event_msgs_name_def)

lemma attach_answered:
  assumes "f1_func e" "f2_found (children e)" "f2_func e" "rx_tq_ok e" "scan_tq_ok e" "clm_blob e = None"
    and "cyw_sdio_attach (sdio_e e) (started s) = Some (ok, sdc)" "fst (cyw_fw_download (fw_e e) (chip s)) = ok"
    and "\<forall>k. write_rc (rq e k) = ok" "handlers s = no_handlers" "Net80211 \<notin> set (res s)" "Rx_tq \<notin> set (res s)"
    and "awaits fps (fst (layer s))" "length fps = 8" "sdpcm_tx_seq (bus (fst (layer s))) = 0"
  shows "\<exists>s'. cyw_attach e s = Some (ok, s') \<and> sdpcm_running (fst (layer s'))
    \<and> fil_seen (layer s') = fil_seen (layer s) @ dongle_init @ cfg_requests
    \<and> sdpcm_rx_max (bus (fst (layer s'))) = 4 \<and> sdpcm_tx_seq (bus (fst (layer s'))) = 8"
proof -
  let ?s0 = "take_res Sysctl (take_res Ioctl_sx (take_res Mtx (s\<lparr>sdio := started s\<rparr>)))"
  let ?s2 = "set_credit 4 (?s0\<lparr>sdio := sdc\<rparr>)"
  obtain c where c: "cyw_fw_download (fw_e e) (chip ?s2) = (ok, c)"
    using assms(8) by (cases "cyw_fw_download (fw_e e) (chip s)") (simp add: set_credit_def take_res_def)
  let ?l0 = "layer (?s2\<lparr>chip := c\<rparr>)"
  have l0: "awaits fps (fst ?l0)" "has_credit (fst ?l0)" "fil_seen ?l0 = fil_seen (layer s)"
    "sdpcm_tx_seq (bus (fst ?l0)) = 0"
    using assms(13,15) by (simp_all add: set_credit_def take_res_def awaits_def has_credit_def gate_open_def tx_credit_def fil_seen_def)
  obtain x y z where fps: "fps = take 5 fps @ [x, y, z]"
    using assms(14) append_take_drop_id[of 5 fps] length_drop[of 5 fps] by (auto simp: length_Suc_conv numeral_eq_Suc)
  define l1 where "l1 = call_all (fil_call (rq e)) dongle_init ?l0"
  have l1: "awaits [x, y, z] (fst l1)" "has_credit (fst l1)" "fil_seen l1 = fil_seen (layer s) @ dongle_init"
    "sdpcm_tx_seq (bus (fst l1)) = 5"
    using all_answered[of "take 5 fps" dongle_init "[x, y, z]" ?l0 "rq e"] l0 fps assms(9,14) attach_requests_valid(1)
    by (simp_all add: l1_def dongle_init_def)
  have v: "req_valid (GetVar (cname ''ver'') 127)" "req_valid (GetVar (cname ''cur_etheraddr'') 6)" "req_valid (SetVar event_msgs_name event_mask)"
    using attach_requests_valid(2) by (simp_all add: cfg_requests_def)
  obtain b2 l2 where l2: "fil_call (rq e) (GetVar (cname ''ver'') 127) l1 = (ok, b2, l2)" "awaits [y, z] (fst l2)" "has_credit (fst l2)"
    "fil_seen l2 = fil_seen l1 @ [GetVar (cname ''ver'') 127]" "sdpcm_tx_seq (bus (fst l2)) = sdpcm_tx_seq (bus (fst l1)) + 1"
    using call_answered[OF l1(1,2) assms(9) v(1)] by blast
  obtain b3 l3 where l3: "fil_call (rq e) (GetVar (cname ''cur_etheraddr'') 6) l2 = (ok, b3, l3)" "awaits [z] (fst l3)" "has_credit (fst l3)"
    "fil_seen l3 = fil_seen l2 @ [GetVar (cname ''cur_etheraddr'') 6]" "sdpcm_tx_seq (bus (fst l3)) = sdpcm_tx_seq (bus (fst l2)) + 1"
    using call_answered[OF l2(2,3) assms(9) v(2)] by blast
  obtain b4 l4 where l4: "fil_call (rq e) (SetVar event_msgs_name event_mask) l3 = (ok, b4, l4)"
    "fil_seen l4 = fil_seen l3 @ [SetVar event_msgs_name event_mask]" "sdpcm_tx_seq (bus (fst l4)) = sdpcm_tx_seq (bus (fst l3)) + 1"
    using call_answered[OF l3(2,3) assms(9) v(3)] by blast
  let ?s4 = "read_version (rq e) (?s2\<lparr>chip := c, layer := l1\<rparr>)"
  have s4: "layer ?s4 = l2" "handlers ?s4 = no_handlers"
    using l2(1) assms(10) by (simp_all add: read_version_def set_credit_def take_res_def del: replicate.simps)
  have "\<exists>s5. cyw_cfg_attach (rq e) ?s4 = (ok, s5) \<and> layer s5 = l4 \<and> res s5 = res s @ [Mtx, Ioctl_sx, Sysctl, Net80211]"
    using l3(1) l4(1) s4 scan_attach_table[of no_handlers] security_attach_table[of "no_handlers[69 := Some cyw_escan_result]"]
    by (simp add: cyw_cfg_attach_def take_res_def Let_def del: replicate.simps)
  then obtain s5 where s5: "cyw_cfg_attach (rq e) ?s4 = (ok, s5)" "layer s5 = l4" by blast
  obtain s6 where s6: "cyw_sdpcm_attach True True s5 = (ok, s6)" "fil_seen (layer s6) = fil_seen l4" "sdpcm_running (fst (layer s6))"
    "sdpcm_rx_max (bus (fst (layer s6))) = 4" "sdpcm_tx_seq (bus (fst (layer s6))) = sdpcm_tx_seq (bus (fst l4))"
    using s5(2) by (auto simp: cyw_sdpcm_attach_def set_running_def set_credit_def take_res_def fil_seen_def Let_def)
  have st: "sdio ?s0 = started s" by (simp add: take_res_def)
  have ly: "layer (?s2\<lparr>chip := c\<rparr>) = ?l0" by simp
  have "cyw_attach e s = Some (ok, s6)"
    using assms(1-7) c s5(1) s6(1) st l1_def
    by (simp add: cyw_attach_def Let_def clm_upload_def)
  then show ?thesis using s6(2-5) l4(2,3) l3(4,5) l2(4,5) l1(3,4) by (simp add: cfg_requests_def)
qed


text \<open>A card: no ROM table, one response for each call, a firmware of four bytes.\<close>

definition reply_to :: "nat \<Rightarrow> bytes" where
  "reply_to i = (le16 32 @ le16 (NOT 32) @ [0, 0, 0, 12, 0, 200, 0, 0] @ le32 262 @ le32 4)
     @ le32 (push_bit 16 (of_nat i)) @ le32 0 @ [9, 8, 7, 6]"

definition eight_replies :: "(bytes \<times> bytes) list" where
  "eight_replies = map (\<lambda>i. (reply_to i, replicate 32 0)) [1, 2, 3, 4, 5, 6, 7, 8]"

definition card :: attach_env where
  "card = \<lparr>f1_func = True, children = Some [1, 2, 3], f2_func = True,
     sdio_e = \<lparr>blksize_rc = ok, enable_rc = ok, kso_read_err = False, kso_write_err = False, alp_request = ok,
       alp_reg = (\<lambda>_. Inr 0x40), chipid_reg = 0x64345, cc3 = 4, rom_words = (\<lambda>_. 0), corecap = 0, bankinfo = (\<lambda>_. 0),
       f0_lo_rc = ok, f0_hi_rc = ok\<rparr>,
     fw_e = \<lparr>fw_image = Some [1, 2, 3, 4], nv_image = Some [97], dbg_fw = False, bad_word = 0,
       fw_ram_base = CYW_RAM_BASE, fw_ram_size = 20, fw_core_base = 0, force_ht_rc = ok, f2_rc = ok,
       devctl_val = 0, wakeup_val = 0, fw_sr_capable = True, tohost = (\<lambda>_. 8)\<rparr>,
     rq = (\<lambda>_. quiet_env []), clm_blob = None, rx_tq_ok = True, scan_tq_ok = True\<rparr>"

definition fresh_card :: cyw where
  "fresh_card = \<lparr>sdio = \<lparr>f1_enabled = False, f2_enabled = False, sleepcsr = 0, chip_id = 0, chip_rev = 0, sr_capable = False,
       sdio_core_base = 0, ram_base = 0, ram_size = 0, sdio_attached = False, alp_csr = 0, bp_trace = []\<rparr>,
     chip = \<lparr>sd = fresh_sdio, f2_on = False, f1_log = []\<rparr>,
     layer = ((idle_fil False)\<lparr>bus := idle_sdpcm\<lparr>stream := stream_of eight_replies, core_known := False\<rparr>\<rparr>, 0),
     handlers = no_handlers, txqueue = queue_init, res = [], mac_addr = [], fw_version = []\<rparr>"

lemma card_sdio: "\<exists>sdc. cyw_sdio_attach (sdio_e card) (started fresh_card) = Some (ok, sdc)"
proof -
  have "alp_poll (\<lambda>_. Inr 0x40) 0 (Suc n) = ok" for n by (simp add: SBSDIO_ALP_AVAIL_def)
  from this[of 49] have clk: "cyw_sdio_enable_clock ok (\<lambda>_. Inr 0x40) = ok" by (simp add: cyw_sdio_enable_clock_def)
  have rom: "cyw_erom_find_sdio_core_base (\<lambda>_. 0) = Some 0" by (simp add: cyw_erom_find_sdio_core_base_def)
  show ?thesis
    unfolding cyw_sdio_attach_def Let_def card_def attach_env.simps sdio_env.simps clk rom
    by (simp add: CYW_CHIP_ID_43455_def)
qed

lemma card_fw: "fst (cyw_fw_download (fw_e card) (chip fresh_card)) = ok"
proof -
  have e: "fw_image (fw_e card) = Some [1, 2, 3, 4]" "nv_image (fw_e card) = Some [97]" "fw_core_base (fw_e card) = 0"
    "unat (fw_ram_size (fw_e card)) = 20" "force_ht_rc (fw_e card) = ok" "f2_rc (fw_e card) = ok" "sd (chip fresh_card) = fresh_sdio"
    by (simp_all add: card_def fresh_card_def)
  obtain s1 where "cyw_fw_images_write (fw_e card) fresh_sdio = (Inr (rd_le32 [1, 2, 3, 4] 0), s1)"
    using images_write_ok[OF fresh_coherent(2,1) e(1,2)] e(4) by (auto simp: nv_alloc_def roundup_def)
  then show ?thesis using e by (simp add: cyw_fw_download_def cyw_f2_bringup_def Let_def)
qed

lemma reply_facts:
  assumes "0 < i" "i < 9"
  shows "good_reply (of_nat i) (of_nat i) (reply_to i, replicate 32 0)"
proof -
  have n: "length (reply_to i) = 32" by (simp add: reply_to_def)
  have o: "reply_to i ! 7 = 12" "reply_to i ! 5 = 0" "reply_to i ! 9 = 200" by (simp_all add: reply_to_def le16_def)
  have f: "rd_le32 (reply_to i) 20 = push_bit 16 (of_nat i)" unfolding reply_to_def by (rule rd_le32_append) simp
  have h: "rd_le16 (reply_to i) 0 = 32" unfolding reply_to_def using rd_le16_append[of 0 "[]"] by simp
  have h2: "rd_le16 (reply_to i) 2 = NOT 32" unfolding reply_to_def append.assoc by (rule rd_le16_append) simp
  have "i \<in> {1, 2, 3, 4, 5, 6, 7, 8}" using assms by auto
  then show ?thesis
    by (auto simp: good_reply_def wf_frame_def padded_def ctrl_inside_def fr_chan_def ctrl_id_def n o f h h2 sdpcm_consts
        roundup_def CYW_F2_BLKSIZE_def CYW_SDPCM_MAX_FRAME_def BCDC_DCMD_ERROR_def tx_credit_def)
qed

lemma card_awaits: "awaits eight_replies (fst (layer fresh_card))"
proof -
  have "answered 1 1 eight_replies"
    using reply_facts[of 1] reply_facts[of 2] reply_facts[of 3] reply_facts[of 4] reply_facts[of 5] reply_facts[of 6]
      reply_facts[of 7] reply_facts[of 8]
    by (simp add: eight_replies_def del: replicate.simps)
  then show ?thesis
    by (simp add: awaits_def fresh_card_def idle_fil_def idle_sdpcm_def gate_open_def del: replicate.simps)
qed

lemma card_rest:
  "f1_func card" "f2_found (children card)" "f2_func card" "rx_tq_ok card" "scan_tq_ok card" "clm_blob card = None"
  "\<forall>k. write_rc (rq card k) = ok" "handlers fresh_card = no_handlers" "res fresh_card = []" "length eight_replies = 8"
  "sdpcm_tx_seq (bus (fst (layer fresh_card))) = 0" "\<not> sdio_attached (sdio fresh_card)" "\<not> f1_enabled (sdio fresh_card)"
  by (simp_all add: card_def fresh_card_def f2_found_def quiet_env_def idle_sdpcm_def eight_replies_def del: replicate.simps)




end
