(* ===== verification/CywScanRun.thy ===== *)
theory CywScanRun
  imports CywAttach
begin

text \<open>
  Scanning as a whole (src/cyw43455_scan.c with the callbacks of
  src/cyw43455_cfg.c): the complete dispatch of events, with the scan handler beside
  those of the association, from the packet FIFO to the entries net80211 gets and the
  channel specifications a later join uses; the two tasks of the scan queue, which
  the callbacks of net80211 enqueue; and, step by step, the start and the abort of a
  scan by two threads.
\<close>

section \<open>Channels and the discard flag\<close>

datatype chan_flag = CHAN_2GHZ | CHAN_5GHZ | CHAN_G | CHAN_A | CHAN_HT20

text \<open>The frequency of a channel number and the search of the channel table are net80211.\<close>

definition cyw_find_scan_channel ::
    "(int \<Rightarrow> chan_flag \<Rightarrow> nat) \<Rightarrow> (nat \<Rightarrow> chan_flag set \<Rightarrow> 'c option) \<Rightarrow> int \<Rightarrow> 'c option" where
  "cyw_find_scan_channel ieee2mhz find_channel chan =
     (let freq = ieee2mhz chan (if chan \<le> 14 then CHAN_2GHZ else CHAN_5GHZ);
          band = (if chan \<le> 14 then CHAN_G else CHAN_A)
      in case find_channel freq {band, CHAN_HT20} of Some c \<Rightarrow> Some c | None \<Rightarrow> find_channel freq {band})"

text \<open>The word behind the public scan state, if there is one.\<close>

definition cyw_scan_clear_discard :: "u32 option \<Rightarrow> u32 option" where
  "cyw_scan_clear_discard ss = map_option (\<lambda>flags. flags AND NOT 2) ss"

lemma clear_discard_bits:
  "cyw_scan_clear_discard (Some f) = Some g \<Longrightarrow> bit g n \<longleftrightarrow> bit f n \<and> n \<noteq> 1"
proof -
  have two: "(2 :: u32) = push_bit 1 1" by simp
  have "bit (f AND NOT 2) n \<longleftrightarrow> bit f n \<and> n \<noteq> 1"
    using bit_imp_le_length[of f n] by (simp only: two bit_and_iff bit_not_iff flag_bit[OF refl] possible_bit_word) auto
  then show "cyw_scan_clear_discard (Some f) = Some g \<Longrightarrow> bit g n \<longleftrightarrow> bit f n \<and> n \<noteq> 1"
    by (auto simp only: cyw_scan_clear_discard_def option.map option.inject)
qed

section \<open>All handlers\<close>

text \<open>What a dispatched event does to the softc. known tells which channels are found, and
  after is the memory behind the event.\<close>

definition run_cfg_handler :: "(int \<Rightarrow> bool) \<Rightarrow> bytes \<Rightarrow> handler \<Rightarrow> event_msg \<Rightarrow> bytes \<Rightarrow> cfg \<Rightarrow> cfg" where
  "run_cfg_handler known after h msg data sc =
     (case h of
        cyw_escan_result \<Rightarrow>
          sc\<lparr>scan_of := cyw_escan_result_handler (vap (assoc_of sc) \<noteq> None) known (em_status msg) data after (scan_of sc)\<rparr>
      | _ \<Rightarrow> sc\<lparr>assoc_of := run_handler h msg (assoc_of sc)\<rparr>)"

definition cfg_event :: "(int \<Rightarrow> bool) \<Rightarrow> bytes \<Rightarrow> handler_table \<Rightarrow> bytes \<times> nat \<Rightarrow> cfg \<Rightarrow> cfg" where
  "cfg_event known after tbl e sc =
     (case cyw_event_dispatch tbl (fst e) (snd e) of
        None \<Rightarrow> sc
      | Some (h, msg, data) \<Rightarrow> run_cfg_handler known after h msg data sc)"

lemma cfg_event_frame:
  assumes "frame_of e = (fr, n)" "length fr = n"
  shows "cfg_event known after tbl e = cfg_event known after tbl (fr, n)"
proof -
  have "take n (fst e) = fr" "snd e = n" "n \<le> length (fst e)"
    using assms by (auto simp: frame_of_def)
  then show ?thesis by (simp add: fun_eq_iff cfg_event_def cyw_event_dispatch_def parse_event_take)
qed

lemma cfg_events_frames:
  "map frame_of evs = map (\<lambda>fr. (fr, length fr)) frs \<Longrightarrow>
   fold (cfg_event known after tbl) evs sc = fold (cfg_event known after tbl) (map (\<lambda>fr. (fr, length fr)) frs) sc"
proof (induction frs arbitrary: evs sc)
  case (Cons fr frs)
  then obtain e es where e: "evs = e # es" "frame_of e = (fr, length fr)"
    "map frame_of es = map (\<lambda>fr. (fr, length fr)) frs" by (cases evs) auto
  then show ?case using Cons.IH[OF e(3)] cfg_event_frame[OF e(2)] by simp
qed simp

text \<open>The table after an attach.\<close>

definition attached_table :: handler_table where
  "attached_table = (replicate 128 None)[69 := Some cyw_escan_result, 16 := Some cyw_link, 0 := Some cyw_set_ssid, 46 := Some cyw_psk_sup]"

lemma attach_table:
  assumes "cyw_attach e s = Some (ok, s')" "res s = []" "handlers s = no_handlers" "\<not> sdio_attached (sdio s)"
  shows "handlers s' = attached_table"
proof -
  obtain s1 s2 where a: "cyw_cfg_attach (rq e) s1 = (ok, s2)" "res s1 = [Mtx, Ioctl_sx, Sysctl]" "handlers s1 = no_handlers"
    "cyw_sdpcm_attach (rx_tq_ok e) (scan_tq_ok e) s2 = (ok, s')"
    using attach_stages[OF assms] by auto
  have t: "cyw_scan_attach no_handlers = (ok, no_handlers[69 := Some cyw_escan_result])"
    "cyw_security_event_attach (no_handlers[69 := Some cyw_escan_result]) = (ok, attached_table)"
    by (simp_all add: scan_attach_table security_attach_table attached_table_def del: replicate.simps)
  have "handlers s2 = attached_table"
    using a(1,3) by (auto simp: cyw_cfg_attach_def take_res_def release_def t Let_def simp del: replicate.simps split: prod.splits if_splits)
  moreover have "Rx_tq \<notin> set (res s2)" using cfg_attach_result[OF a(1,3)] a(2) by simp
  ultimately show ?thesis using sdpcm_attach_result[OF a(4)] by simp
qed

section \<open>The entries of a result\<close>

definition entry_bssid :: "bytes \<Rightarrow> bytes" where "entry_bssid e = take 6 (drop 8 e)"

definition entry_chanspec :: "bytes \<Rightarrow> u16" where "entry_chanspec e = rd_le16 e 72"

definition entry_chan :: "bytes \<Rightarrow> int" where "entry_chan e = cyw_chanspec_to_channel (entry_chanspec e)"

text \<open>An entry as the firmware builds it: its length is in it, and no more than the limit.\<close>

definition entry_ok :: "u32 \<Rightarrow> bytes \<Rightarrow> bool" where
  "entry_ok buflen e \<longleftrightarrow> 128 \<le> length e \<and> length e < 2 ^ 16 \<and> rd_le32 e 4 = of_nat (length e) \<and> of_nat (length e) \<le> buflen"

fun entry_ranges :: "nat \<Rightarrow> bytes list \<Rightarrow> (nat \<times> u32) list" where
  "entry_ranges off [] = []"
| "entry_ranges off (e # es) = (off, of_nat (length e)) # entry_ranges (off + length e) es"

lemma rd_le32_mid: "i + 3 < length e \<Longrightarrow> rd_le32 (pre @ e @ post) (length pre + i) = rd_le32 e i"
  by (simp add: rd_le32_def nth_append)

lemma rd_le16_mid: "i + 1 < length e \<Longrightarrow> rd_le16 (pre @ e @ post) (length pre + i) = rd_le16 e i"
  by (simp add: rd_le16_def nth_append)

lemma entry_length:
  assumes "entry_ok bl e"
  shows "unat (of_nat (length e) :: u32) = length e" "\<not> (of_nat (length e) :: u32) < 128" "\<not> bl < of_nat (length e)"
proof -
  show "unat (of_nat (length e) :: u32) = length e" "\<not> (of_nat (length e) :: u32) < 128"
    using assms by (simp_all add: entry_ok_def unat_of_nat take_bit_nat_eq_self word_less_nat_alt)
  show "\<not> bl < of_nat (length e)" using assms by (simp add: entry_ok_def leD)
qed

lemma bss_ranges_entries:
  "list_all (entry_ok bl) es \<Longrightarrow>
   bss_ranges (pre @ concat es @ post) bl (length pre) (length es) = entry_ranges (length pre) es"
proof (induction es arbitrary: pre)
  case (Cons e es)
  have e: "entry_ok bl e" using Cons.prems by simp
  then have "rd_le32 (pre @ e @ concat es @ post) (length pre + 4) = of_nat (length e)"
    using rd_le32_mid[of 4 e pre "concat es @ post"] by (simp add: entry_ok_def)
  moreover have "bss_ranges ((pre @ e) @ concat es @ post) bl (length (pre @ e)) (length es) = entry_ranges (length (pre @ e)) es"
    using Cons by (intro Cons.IH) simp
  ultimately show ?case using entry_length[OF e] by (simp add: Let_def)
qed simp

text \<open>What one entry adds.\<close>

definition found_pair :: "found_bss \<Rightarrow> bytes \<times> int" where
  "found_pair f = (fb_bssid f, sp_chan (fb_params f))"

lemma add_bss_entry:
  assumes "entry_ok bl e"
  shows "cs_cache_of (cyw_add_bss have_vap known (pre @ e @ post) (length pre) l sc)
      = cyw_bss_cs_cache_add (entry_bssid e) (entry_chanspec e) (cs_cache_of sc)"
    and "map found_pair (added (cyw_add_bss have_vap known (pre @ e @ post) (length pre) l sc))
      = map found_pair (added sc) @ (if have_vap \<and> known (entry_chan e) then [(entry_bssid e, entry_chan e)] else [])"
proof -
  have len: "128 \<le> length e" using assms by (simp add: entry_ok_def)
  have cs: "rd_le16 (pre @ e @ post) (length pre + 72) = entry_chanspec e"
    unfolding entry_chanspec_def using len by (intro rd_le16_mid) simp
  have bs: "take 6 (drop (length pre + 8) (pre @ e @ post)) = entry_bssid e"
    unfolding entry_bssid_def using len by simp
  show "cs_cache_of (cyw_add_bss have_vap known (pre @ e @ post) (length pre) l sc)
      = cyw_bss_cs_cache_add (entry_bssid e) (entry_chanspec e) (cs_cache_of sc)"
    by (simp only: add_bss_cache cs bs)
  have rates: "sp_ptr (if b then cyw_parse_ies c n (initial_params mem off chan) else initial_params mem off chan) IE_RATES \<noteq> None"
    for b c n mem off chan
    using ies_loop_keeps[of "initial_params mem off chan" IE_RATES] by (simp add: cyw_parse_ies_def initial_params_def)
  have chan: "sp_chan (if b then cyw_parse_ies c n (initial_params mem off chan) else initial_params mem off chan) = chan"
    for b c n mem off chan by (simp add: cyw_parse_ies_def initial_params_def)
  obtain ie_off ie_len where r: "ie_region (pre @ e @ post) (length pre) l = (ie_off, ie_len)" by fastforce
  show "map found_pair (added (cyw_add_bss have_vap known (pre @ e @ post) (length pre) l sc))
      = map found_pair (added sc) @ (if have_vap \<and> known (entry_chan e) then [(entry_bssid e, entry_chan e)] else [])"
  proof -
    define sp where "sp = (if 0 < ie_len then cyw_parse_ies (drop (length pre + ie_off) (pre @ e @ post)) ie_len
        (initial_params (pre @ e @ post) (length pre) (entry_chan e)) else initial_params (pre @ e @ post) (length pre) (entry_chan e))"
    have "sp_ptr sp IE_RATES \<noteq> None" "sp_chan sp = entry_chan e" unfolding sp_def by (rule rates, rule chan)
    then show ?thesis
      unfolding cyw_add_bss_def Let_def r cs bs prod.case entry_chan_def[symmetric] sp_def[symmetric]
      by (auto simp: found_pair_def)
  qed
qed

lemma fold_entries:
  assumes "list_all (entry_ok bl) es"
  shows "cs_cache_of (fold (\<lambda>(off, bi_len). cyw_add_bss have_vap known (pre @ concat es @ post) off bi_len) (entry_ranges (length pre) es) sc)
      = fold cache_step (map (\<lambda>e. (entry_bssid e, entry_chanspec e)) es) (cs_cache_of sc)
    \<and> map found_pair (added (fold (\<lambda>(off, bi_len). cyw_add_bss have_vap known (pre @ concat es @ post) off bi_len) (entry_ranges (length pre) es) sc))
      = map found_pair (added sc)
        @ (if have_vap then map (\<lambda>e. (entry_bssid e, entry_chan e)) (filter (\<lambda>e. known (entry_chan e)) es) else [])"
  using assms
proof (induction es arbitrary: pre sc)
  case (Cons e es)
  have e: "entry_ok bl e" using Cons.prems by simp
  let ?sc = "cyw_add_bss have_vap known (pre @ e @ concat es @ post) (length pre) (of_nat (length e)) sc"
  from Cons.IH[of "pre @ e" ?sc] Cons.prems
  show ?case using add_bss_entry[OF e, of have_vap known pre "concat es @ post" "of_nat (length e)" sc]
    by (simp add: cache_step_def)
qed simp

text \<open>The cache while it has room for all that come.\<close>

lemma cache_spec_room:
  assumes "length al < CYW_BSS_CS_CACHE_SIZE" "snd x \<noteq> 0"
  shows "map_of (cache_spec x al) b = (if b = fst x then Some (snd x) else map_of al b)"
    and "length (cache_spec x al) \<le> Suc (length al)"
proof -
  have upd: "map_of (map (\<lambda>y. if fst y = fst x then x else y) al) b = (if b = fst x then Some (snd x) else map_of al b)"
    if "map_of al (fst x) \<noteq> None"
  proof (cases "b = fst x")
    case True
    then show ?thesis using that by (induction al) (cases x, auto split: if_splits)
  next
    case False
    then have "map_of (map (\<lambda>y. if fst y = fst x then x else y) al) b = map_of al b" for al :: "(bytes \<times> u16) list"
      by (induction al) auto
    then show ?thesis using False by simp
  qed
  show "map_of (cache_spec x al) b = (if b = fst x then Some (snd x) else map_of al b)"
    using assms upd by (cases x) (auto simp: cache_spec_def map_add_def split: option.splits)
  show "length (cache_spec x al) \<le> Suc (length al)" using assms by (simp add: cache_spec_def)
qed

lemma cache_fold_room:
  "length al + length xs \<le> CYW_BSS_CS_CACHE_SIZE \<Longrightarrow> list_all (\<lambda>x. snd x \<noteq> 0) xs \<Longrightarrow> distinct (map fst xs) \<Longrightarrow>
   map_of (fold cache_spec xs al) b = (case map_of xs b of Some v \<Rightarrow> Some v | None \<Rightarrow> map_of al b)"
proof (induction xs arbitrary: al)
  case (Cons x xs)
  have a: "length al < CYW_BSS_CS_CACHE_SIZE" "snd x \<noteq> 0" using Cons.prems by simp_all
  have "length (cache_spec x al) + length xs \<le> CYW_BSS_CS_CACHE_SIZE"
    using cache_spec_room(2)[OF a] Cons.prems(1) by simp
  then have "map_of (fold cache_spec xs (cache_spec x al)) b
      = (case map_of xs b of Some v \<Rightarrow> Some v | None \<Rightarrow> map_of (cache_spec x al) b)"
    using Cons by (intro Cons.IH) simp_all
  moreover have "map_of xs (fst x) = None" using Cons.prems(3) by (simp add: map_of_eq_None_iff)
  ultimately show ?case using cache_spec_room(1)[OF a, of b] by (cases x) (auto split: option.splits)
qed simp

section \<open>From the FIFO to the join\<close>

definition result_event_ok :: "event_msg \<Rightarrow> bytes \<Rightarrow> bytes list \<Rightarrow> bool" where
  "result_event_ok m hdr es \<longleftrightarrow> em_code m = CYW_E_ESCAN_RESULT \<and> em_status m = CYW_E_STATUS_PARTIAL
     \<and> unat (em_datalen m) = length (hdr @ concat es) \<and> length hdr = 12 \<and> unat (rd_le16 hdr 10) = length es
     \<and> es \<noteq> [] \<and> list_all (entry_ok (min (rd_le32 hdr 0) (of_nat (length (hdr @ concat es))))) es"

lemma escan_handler_entries:
  assumes "result_event_ok m hdr es"
  shows "cyw_escan_result_handler have_vap known (em_status m) (hdr @ concat es) after sc
    = fold (\<lambda>(off, bi_len). cyw_add_bss have_vap known (hdr @ concat es @ after) off bi_len) (entry_ranges 12 es) sc"
proof -
  have h: "length hdr = 12" "unat (rd_le16 hdr 10) = length es" "em_status m = CYW_E_STATUS_PARTIAL"
    using assms by (simp_all add: result_event_ok_def)
  obtain e es' where es: "es = e # es'" using assms by (cases es) (auto simp: result_event_ok_def)
  have "128 \<le> length e" using assms es by (simp add: result_event_ok_def entry_ok_def)
  then have long: "\<not> length (hdr @ concat es) < SIZEOF_ESCAN_RESULT" using h es by (simp add: SIZEOF_ESCAN_RESULT_def)
  have hd: "rd_le32 (hdr @ ys) 0 = rd_le32 hdr 0" "rd_le16 (hdr @ ys) 10 = rd_le16 hdr 10" for ys
    using h by (simp_all add: rd_le32_in_prefix rd_le16_in_prefix)
  let ?bl = "min (rd_le32 hdr 0) (of_nat (length (hdr @ concat es)))"
  have min: "(if b > d then d else b) = min b d" for b d :: u32 by (auto simp: min_def)
  have "escan_ranges ((hdr @ concat es) @ after) (length (hdr @ concat es)) = bss_ranges (hdr @ concat es @ after) ?bl 12 (length es)"
    unfolding escan_ranges_def Let_def append.assoc hd h(2) min ..
  also have "\<dots> = entry_ranges 12 es"
    using bss_ranges_entries[of ?bl es hdr after] assms h by (simp add: result_event_ok_def)
  finally show ?thesis
    unfolding cyw_escan_result_handler_def using h(3) long by (simp add: append.assoc)
qed

lemma result_event_effect:
  assumes "result_event_ok m hdr es" "vap (assoc_of c) = Some iv" "cache_ok (cs_cache_of (scan_of c))"
    and "distinct (map entry_bssid es)" "list_all (\<lambda>e. entry_chanspec e \<noteq> 0) es"
    and "length (cache_abs (cs_cache_of (scan_of c))) + length es \<le> CYW_BSS_CS_CACHE_SIZE"
    and "c' = run_cfg_handler known after cyw_escan_result (m\<lparr>em_datalen := n\<rparr>) (hdr @ concat es) c"
  shows "map found_pair (added (scan_of c')) = map found_pair (added (scan_of c))
      @ map (\<lambda>e. (entry_bssid e, entry_chan e)) (filter (\<lambda>e. known (entry_chan e)) es)"
    and "e \<in> set es \<Longrightarrow> cyw_chanspec_for_join (entry_bssid e) ch (cs_cache_of (scan_of c')) = entry_chanspec e"
    and "assoc_of c' = assoc_of c"
proof -
  let ?sc = "scan_of c"
  let ?xs = "map (\<lambda>e. (entry_bssid e, entry_chanspec e)) es"
  have ok: "list_all (entry_ok (min (rd_le32 hdr 0) (of_nat (length (hdr @ concat es))))) es" "length hdr = 12"
    using assms(1) unfolding result_event_ok_def by blast+
  have sc': "scan_of c' = fold (\<lambda>(off, bi_len). cyw_add_bss True known (hdr @ concat es @ after) off bi_len) (entry_ranges 12 es) ?sc"
    unfolding assms(7) run_cfg_handler_def
    using escan_handler_entries[OF assms(1), of True known after ?sc] assms(2) by simp
  note f = fold_entries[OF ok(1), of True known hdr after ?sc]
  show "map found_pair (added (scan_of c')) = map found_pair (added ?sc)
      @ map (\<lambda>e. (entry_bssid e, entry_chan e)) (filter (\<lambda>e. known (entry_chan e)) es)"
    using f ok(2) by (simp add: sc')
  have cache: "cs_cache_of (scan_of c') = fold cache_step ?xs (cs_cache_of ?sc)" using f ok(2) by (simp add: sc')
  have r: "cache_ok (cs_cache_of (scan_of c'))" "cache_abs (cs_cache_of (scan_of c')) = fold cache_spec ?xs (cache_abs (cs_cache_of ?sc))"
    using cs.run_simulates[OF assms(3), of ?xs] by (simp_all add: cache)
  have d: "map fst ?xs = map entry_bssid es" by simp
  show "cyw_chanspec_for_join (entry_bssid e) ch (cs_cache_of (scan_of c')) = entry_chanspec e" if e: "e \<in> set es"
  proof -
    have "map_of ?xs (entry_bssid e) = Some (entry_chanspec e)"
      using e assms(4) by (intro map_of_is_SomeI) (auto simp: comp_def)
    then show ?thesis
      unfolding for_join_abs[OF r(1)] r(2)
      using cache_fold_room[of "cache_abs (cs_cache_of ?sc)" ?xs "entry_bssid e"] assms(4-6)
      by (simp add: list.pred_map comp_def)
  qed
  show "assoc_of c' = assoc_of c" unfolding assms(7) by (simp add: run_cfg_handler_def)
qed


text \<open>One access point on channel 6.\<close>

definition ap_entry :: bytes where
  "ap_entry = replicate 4 0 @ le32 128 @ [2, 0, 0, 0, 0, 1] @ replicate 58 0 @ le16 0x1006 @ replicate 54 0"

definition ap_hdr :: bytes where "ap_hdr = le32 140 @ le32 109 @ le16 0 @ le16 1"

definition ap_msg :: event_msg where
  "ap_msg = \<lparr>em_code = CYW_E_ESCAN_RESULT, em_status = CYW_E_STATUS_PARTIAL, em_reason = 0, em_flags = 0, em_datalen = 140,
     em_addr = replicate 6 0, em_ifidx = 0, em_bsscfgidx = 0\<rparr>"

definition ap_sph :: bytes where "ap_sph = le16 228 @ le16 (NOT 228) @ [0, 1, 0, 12, 0, 5, 0, 0]"

definition ap_frame :: bytes where
  "ap_frame = event_frame ap_sph (replicate 4 0) [] (event_bytes (replicate 12 0) (replicate 5 0) 0 0 (replicate 16 0) ap_msg)
     (ap_hdr @ concat [ap_entry])"

lemma ap_entry_fields:
  "length ap_entry = 128" "rd_le32 ap_entry 4 = 128" "entry_chanspec ap_entry = 0x1006" "entry_bssid ap_entry = [2, 0, 0, 0, 0, 1]"
  "length ap_hdr = 12" "rd_le32 ap_hdr 0 = 140" "rd_le16 ap_hdr 10 = 1"
proof -
  show "length ap_entry = 128" "length ap_hdr = 12" by (simp_all add: ap_entry_def ap_hdr_def)
  show "rd_le32 ap_entry 4 = 128" unfolding ap_entry_def by (rule rd_le32_append) simp
  show "entry_chanspec ap_entry = 0x1006"
    unfolding entry_chanspec_def ap_entry_def
    using rd_le16_append[of 72 "replicate 4 0 @ le32 128 @ [2, 0, 0, 0, 0, 1] @ replicate 58 0" "0x1006" "replicate 54 0"]
    by (simp del: replicate.simps)
  show "entry_bssid ap_entry = [2, 0, 0, 0, 0, 1]" by (simp add: entry_bssid_def ap_entry_def le32_def)
  show "rd_le32 ap_hdr 0 = 140" unfolding ap_hdr_def using rd_le32_append[of 0 "[]"] by simp
  show "rd_le16 ap_hdr 10 = 1"
    using rd_le16_append[of 10 "le32 140 @ le32 109 @ le16 0" 1 "[]"] by (simp add: ap_hdr_def)
qed

lemma ap_frame_ok:
  "headers_ok ap_sph (replicate 4 0) []" "event_ok (replicate 12 0) (replicate 5 0) (replicate 16 0) ap_msg"
  "result_event_ok ap_msg ap_hdr [ap_entry]" "wf_frame ap_frame" "padded ap_frame (replicate 28 0)" "fr_chan ap_frame = 1"
proof -
  show "headers_ok ap_sph (replicate 4 0) []" by (simp add: headers_ok_def ap_sph_def le16_def)
  show e: "event_ok (replicate 12 0) (replicate 5 0) (replicate 16 0) ap_msg" by (simp add: event_ok_def ap_msg_def)
  show "result_event_ok ap_msg ap_hdr [ap_entry]"
    by (simp add: result_event_ok_def ap_msg_def ap_entry_fields entry_ok_def min_def)
  have ls: "length ap_sph = 12" by (simp add: ap_sph_def)
  have l: "length ap_frame = 228"
    using event_bytes_length[OF e] ls by (simp add: ap_frame_def event_frame_def ap_entry_fields del: replicate.simps)
  have early: "rd_le16 ap_frame i = rd_le16 ap_sph i" if "i + 1 < 12" for i
    unfolding ap_frame_def event_frame_def using that ls by (intro rd_le16_earlier) simp
  have "rd_le16 ap_sph 0 = 228" unfolding ap_sph_def using rd_le16_append[of 0 "[]"] by simp
  moreover have "rd_le16 ap_sph 2 = NOT 228" unfolding ap_sph_def by (rule rd_le16_append) simp
  ultimately show "wf_frame ap_frame" using early[of 0] early[of 2] by (simp add: wf_frame_def l sdpcm_consts)
  show "padded ap_frame (replicate 28 0)" by (simp add: padded_def l roundup_def CYW_F2_BLKSIZE_def)
  have "ap_frame ! 5 = ap_sph ! 5" unfolding ap_frame_def event_frame_def using ls by (simp add: nth_append)
  then show "fr_chan ap_frame = 1" by (simp add: fr_chan_def ap_sph_def le16_def)
qed

definition fresh_cfg :: cfg where
  "fresh_cfg = \<lparr>assoc_of = \<lparr>link_up = False, vap = Some S_SCAN, new_states = []\<rparr>, scan_of = blank_scan, join_bssid = replicate 6 0,
     dongle_up = False, psk = [], psk_len = 0\<rparr>"

lemma card_attaches: "\<exists>st. cyw_attach card fresh_card = Some (ok, st)"
proof -
  obtain sdc where "cyw_sdio_attach (sdio_e card) (started fresh_card) = Some (ok, sdc)" using card_sdio by blast
  from attach_answered[OF card_rest(1-6) this card_fw card_rest(7,8) _ _ card_awaits card_rest(10,11)] show ?thesis
    by (auto simp: card_rest(9))
qed


section \<open>The scan queue\<close>

text \<open>The two tasks of the queue. Enqueueing a task that is queued already changes nothing.\<close>

datatype scan_task = Start_task | End_task

record 's scanner =
  scan_tasks :: "scan_task list"
  sccfg :: cfg
  fw :: 's

definition enqueue :: "scan_task \<Rightarrow> scan_task list \<Rightarrow> scan_task list" where
  "enqueue t q = (if t \<in> set q then q else q @ [t])"

definition cyw_scan_start :: "'s scanner \<Rightarrow> 's scanner" where
  "cyw_scan_start s = s\<lparr>scan_tasks := enqueue Start_task (scan_tasks s)\<rparr>"

definition cyw_scan_end :: "'s scanner \<Rightarrow> 's scanner" where
  "cyw_scan_end s = s\<lparr>scan_tasks := enqueue End_task (scan_tasks s)\<rparr>"

definition run_scan_task :: "'s call \<Rightarrow> bytes option \<Rightarrow> scan_task \<Rightarrow> cfg \<times> 's \<Rightarrow> cfg \<times> 's" where
  "run_scan_task call directed t s =
     (case t of Start_task \<Rightarrow> cyw_scan_start_task call directed (fst s) (snd s)
      | End_task \<Rightarrow> cyw_scan_end_task call (fst s) (snd s))"

text \<open>The thread of the queue, until the queue is empty.\<close>

definition scan_thread :: "'s call \<Rightarrow> bytes option \<Rightarrow> 's scanner \<Rightarrow> 's scanner" where
  "scan_thread call directed s =
     (let (c, f) = fold (run_scan_task call directed) (scan_tasks s) (sccfg s, fw s)
      in s\<lparr>scan_tasks := [], sccfg := c, fw := f\<rparr>)"

text \<open>The calls net80211 makes, as the tasks they enqueue.\<close>

definition scan_call :: "scan_task \<Rightarrow> 's scanner \<Rightarrow> 's scanner" where
  "scan_call t s = (case t of Start_task \<Rightarrow> cyw_scan_start s | End_task \<Rightarrow> cyw_scan_end s)"

lemma scan_call_tasks [simp]:
  "scan_tasks (scan_call t s) = enqueue t (scan_tasks s)" "sccfg (scan_call t s) = sccfg s" "fw (scan_call t s) = fw s"
  by (cases t; simp add: scan_call_def cyw_scan_start_def cyw_scan_end_def)+

lemma enqueued:
  "scan_tasks (fold scan_call ts s) = fold enqueue ts (scan_tasks s)" "sccfg (fold scan_call ts s) = sccfg s" "fw (fold scan_call ts s) = fw s"
  by (induction ts arbitrary: s) simp_all

lemma enqueue_cases:
  "enqueue t [Start_task, End_task] = [Start_task, End_task]" "enqueue Start_task [Start_task] = [Start_task]"
  "enqueue End_task [Start_task] = [Start_task, End_task]" "enqueue t [] = [t]"
  by (cases t; simp add: enqueue_def)+

lemma enqueue_both: "fold enqueue ts [Start_task, End_task] = [Start_task, End_task]"
  by (induction ts) (simp_all add: enqueue_cases)

lemma enqueue_start: "End_task \<in> set ts \<Longrightarrow> fold enqueue ts [Start_task] = [Start_task, End_task]"
proof (induction ts)
  case (Cons t ts)
  then show ?case by (cases t) (simp_all add: enqueue_cases enqueue_both)
qed simp

lemma start_then_end:
  assumes "call (SetVar (cname ''escan'') req) f = (r, b, f1)"
    and "req = List.last (escans (snd (cyw_do_escan d ok (scan_of c))))"
  shows "cyw_scan_start_task call d c f = (c\<lparr>scan_of := snd (cyw_do_escan d r (scan_of c))\<rparr>, f1)"
    and "scan_active (snd (cyw_do_escan d r (scan_of c))) \<longleftrightarrow> r = ok"
  using assms by (simp_all add: cyw_scan_start_task_def cyw_do_escan_def Let_def)

lemma abort_ends: "\<not> scan_active (cyw_abort_escan sc)"
  by (simp add: cyw_abort_escan_def)

lemma escan_action: "rd_le16 (escan_params a n ssid ps) 4 = a"
  using rd_le16_append[of 4 "le32 1" a] by (simp add: escan_params_def)

lemma abort_shape: "length (abort_script c) \<le> 1
    \<and> list_all (\<lambda>r. \<exists>ab. r = SetVar (cname ''escan'') ab \<and> rd_le16 ab 4 = CYW_ESCAN_ACTION_ABORT) (abort_script c)"
  by (simp add: abort_script_def cyw_abort_escan_def escan_action)

lemma script_all_log: "fst (call_all script_call rs s) = fst s @ rs"
  by (cases s) simp

text \<open>C14: A start that is called while an earlier one still waits in the queue is lost when an
  end was called between the two: whatever the history of calls after the first start,
  if an end is among them the thread runs one start and then one end, so no scan is
  active and the firmware has got at most one start, even when the last call was a
  start. Had the thread run before that last call, the scan would be active.\<close>

theorem scan_request_lost:
  assumes "scan_tasks s = []" "End_task \<in> set calls" "fw s = (log, rsp)"
  shows "(let s' = scan_thread script_call d (fold scan_call (Start_task # calls @ [Start_task]) s)
      in \<not> scan_active (scan_of (sccfg s')) \<and> scan_tasks s' = []
        \<and> (\<exists>start more. fst (fw s') = log @ SetVar (cname ''escan'') start # more \<and> length more \<le> 1
             \<and> rd_le16 start 4 = CYW_ESCAN_ACTION_START
             \<and> list_all (\<lambda>r. \<exists>ab. r = SetVar (cname ''escan'') ab \<and> rd_le16 ab 4 = CYW_ESCAN_ACTION_ABORT) more))
    \<and> (let s1 = scan_thread script_call d (fold scan_call (Start_task # calls) s)
       in snd (fw s1) = [] \<longrightarrow> scan_active (scan_of (sccfg (scan_thread script_call d (scan_call Start_task s1)))))"
proof -
  have q: "fold enqueue (Start_task # calls) [] = [Start_task, End_task]"
    "fold enqueue (Start_task # calls @ [Start_task]) [] = [Start_task, End_task]"
    using assms(2) enqueue_start[of calls] enqueue_start[of "calls @ [Start_task]"] by (simp_all add: enqueue_cases)
  let ?c = "sccfg s"
  define req where "req = List.last (escans (snd (cyw_do_escan d ok (scan_of ?c))))"
  have req: "rd_le16 req 4 = CYW_ESCAN_ACTION_START" by (simp add: req_def cyw_do_escan_def Let_def escan_action)
  obtain r b f1 where call: "script_call (SetVar (cname ''escan'') req) (fw s) = (r, b, f1)" using prod_cases3 by blast
  have f1: "fst f1 = log @ [SetVar (cname ''escan'') req]"
    using call by (cases rsp) (auto simp: assms(3) script_call_def split: prod.splits)
  note st = start_then_end[where call = script_call and d = d and c = ?c, OF call req_def]
  let ?c1 = "?c\<lparr>scan_of := snd (cyw_do_escan d r (scan_of ?c))\<rparr>"
  define c2 f2 where "c2 = ?c1\<lparr>scan_of := cyw_abort_escan (scan_of ?c1)\<rparr>" and "f2 = call_all script_call (abort_script ?c1) f1"
  have e: "cyw_scan_end_task script_call ?c1 f1 = (c2, f2)"
    unfolding cyw_scan_end_task_def c2_def f2_def by (rule abort_scan_call)
  have off: "\<not> scan_active (scan_of c2)" by (simp add: c2_def abort_ends)
  have more: "fst f2 = fst f1 @ abort_script ?c1" by (simp add: f2_def script_all_log)
  have run: "scan_thread script_call d (fold scan_call ts s) = (fold scan_call ts s)\<lparr>scan_tasks := [], sccfg := c2, fw := f2\<rparr>"
    if "fold enqueue ts [] = [Start_task, End_task]" for ts
    using that assms(1) st(1) e by (simp add: scan_thread_def enqueued run_scan_task_def)
  have again: "scan_active (scan_of (sccfg (scan_thread script_call d (scan_call Start_task s1))))"
    if "scan_tasks s1 = []" "snd (fw s1) = []" for s1
    using that by (cases "fw s1")
      (simp add: scan_thread_def enqueue_def run_scan_task_def cyw_scan_start_task_def script_call_def cyw_do_escan_def Let_def)
  show ?thesis
    unfolding Let_def run[OF q(1)] run[OF q(2)]
    using off more abort_shape[of ?c1] f1 req again[of "(fold scan_call (Start_task # calls) s)\<lparr>scan_tasks := [], sccfg := c2, fw := f2\<rparr>"] by auto
qed

theorem scan_request_lost_witness:
  "\<not> scan_active (scan_of (sccfg (scan_thread script_call None
     (fold scan_call [Start_task, End_task, Start_task] \<lparr>scan_tasks = [], sccfg = fresh_cfg, fw = ([], [])\<rparr>))))"
  using scan_request_lost[of "\<lparr>scan_tasks = [], sccfg = fresh_cfg, fw = ([], [])\<rparr>" "[End_task]" "[]" "[]" None]
  by (simp add: Let_def)

end
