(* ===== verification/CywScanRace.thy ===== *)
theory CywScanRace
  imports CywScan
begin

text \<open>
  Starting and aborting a scan of the CYW43455 driver step by step (cyw_do_escan and
  cyw_abort_escan of src/cyw43455_scan.c): the thread of the scan queue starts, the
  transition to AUTH aborts from a thread of net80211, and the receive task ends a scan
  on its last event. Each locked section is a step, and so is each request to the
  firmware, which is made without the lock.
\<close>

section \<open>The threads step by step\<close>

text \<open>Where the starting thread is: outside, with the request to send, and behind a request
  that failed; where the aborting one is: outside, past the test, and with the request.\<close>

datatype start_place = S_Outside | S_Sending u16 | S_Failed

datatype abort_place = A_Outside | A_Passed | A_Sending u16

text \<open>A request is its action and its sync id. issued holds the requests in the order in
  which their sync ids were read, received those of the firmware.\<close>

record scan_threads =
  sync_id :: u16
  active :: bool
  starter :: start_place
  aborter :: abort_place
  issued :: "(u16 \<times> u16) list"
  received :: "(u16 \<times> u16) list"

inductive scan_step :: "scan_threads \<Rightarrow> scan_threads \<Rightarrow> bool" where
  Start_locked: "starter s = S_Outside \<Longrightarrow>
     scan_step s (s\<lparr>starter := S_Sending (sync_id s), sync_id := sync_id s + 1, active := True,
       issued := issued s @ [(CYW_ESCAN_ACTION_START, sync_id s)]\<rparr>)"
| Start_sent: "starter s = S_Sending i \<Longrightarrow>
     scan_step s (s\<lparr>starter := S_Outside, received := received s @ [(CYW_ESCAN_ACTION_START, i)]\<rparr>)"
| Start_failed: "starter s = S_Sending i \<Longrightarrow> scan_step s (s\<lparr>starter := S_Failed\<rparr>)"
| Start_undone: "starter s = S_Failed \<Longrightarrow> scan_step s (s\<lparr>starter := S_Outside, active := False\<rparr>)"
| Abort_tested: "aborter s = A_Outside \<Longrightarrow> active s \<Longrightarrow> scan_step s (s\<lparr>aborter := A_Passed\<rparr>)"
| Abort_locked: "aborter s = A_Passed \<Longrightarrow>
     scan_step s (s\<lparr>aborter := A_Sending (sync_id s), active := False, issued := issued s @ [(CYW_ESCAN_ACTION_ABORT, sync_id s)]\<rparr>)"
| Abort_sent: "aborter s = A_Sending i \<Longrightarrow>
     scan_step s (s\<lparr>aborter := A_Outside, received := received s @ [(CYW_ESCAN_ACTION_ABORT, i)]\<rparr>)"
| Abort_failed: "aborter s = A_Sending i \<Longrightarrow> scan_step s (s\<lparr>aborter := A_Outside\<rparr>)"
| Ended: "scan_step s (s\<lparr>active := False\<rparr>)"

inductive_cases scan_stepE: "scan_step s s'"

definition scan_init :: "u16 \<Rightarrow> scan_threads" where
  "scan_init n = \<lparr>sync_id = n, active = False, starter = S_Outside, aborter = A_Outside, issued = [], received = []\<rparr>"

inductive scan_reachable :: "u16 \<Rightarrow> scan_threads \<Rightarrow> bool" for n where
  scan_reachable_init: "scan_reachable n (scan_init n)"
| scan_reachable_step: "scan_reachable n s \<Longrightarrow> scan_step s s' \<Longrightarrow> scan_reachable n s'"

section \<open>The steps are the functions\<close>

text \<open>The requests of a softc as pairs.\<close>

definition req_pair :: "bytes \<Rightarrow> u16 \<times> u16" where
  "req_pair r = (rd_le16 r 4, rd_le16 r 6)"

lemma req_pair_params: "req_pair (escan_params a i ssid ps) = (a, i)"
  using rd_le16_append[of 4 "le32 1" a] rd_le16_append[of 6 "le32 1 @ le16 a" i]
  by (simp add: req_pair_def escan_params_def)

definition threads_of :: "scan_softc \<Rightarrow> scan_threads" where
  "threads_of sc = \<lparr>sync_id = escan_sync_id sc, active = scan_active sc, starter = S_Outside, aborter = A_Outside,
     issued = map req_pair (escans sc), received = map req_pair (escans sc)\<rparr>"

lemma two_steps: "R a b \<Longrightarrow> R b c \<Longrightarrow> R\<^sup>*\<^sup>* a c"
  by (rule rtranclp.rtrancl_into_rtrancl[OF r_into_rtranclp])

lemma three_steps: "R a b \<Longrightarrow> R b c \<Longrightarrow> R c d \<Longrightarrow> R\<^sup>*\<^sup>* a d"
  by (rule rtranclp.rtrancl_into_rtrancl[OF two_steps])

text \<open>A start or an abort that nothing interrupts is the function of CywScan.\<close>

lemma start_uninterrupted:
  "scan_step\<^sup>*\<^sup>* (threads_of sc) (threads_of (snd (cyw_do_escan d ok sc)))"
proof -
  let ?i = "escan_sync_id sc"
  let ?s1 = "(threads_of sc)\<lparr>starter := S_Sending ?i, sync_id := ?i + 1, active := True,
      issued := map req_pair (escans sc) @ [(CYW_ESCAN_ACTION_START, ?i)]\<rparr>"
  have "scan_step (threads_of sc) ?s1" using Start_locked[of "threads_of sc"] by (simp add: threads_of_def)
  moreover have "scan_step ?s1 (threads_of (snd (cyw_do_escan d ok sc)))"
    using Start_sent[of ?s1 ?i] by (simp add: threads_of_def cyw_do_escan_def Let_def req_pair_params)
  ultimately show ?thesis by (rule two_steps)
qed

lemma abort_uninterrupted:
  "scan_step\<^sup>*\<^sup>* (threads_of sc) (threads_of (cyw_abort_escan sc))"
proof (cases "scan_active sc")
  case True
  let ?i = "escan_sync_id sc"
  let ?s1 = "(threads_of sc)\<lparr>aborter := A_Passed\<rparr>"
  let ?s2 = "?s1\<lparr>aborter := A_Sending ?i, active := False, issued := map req_pair (escans sc) @ [(CYW_ESCAN_ACTION_ABORT, ?i)]\<rparr>"
  have "scan_step (threads_of sc) ?s1" using Abort_tested[of "threads_of sc"] True by (simp add: threads_of_def)
  moreover have "scan_step ?s1 ?s2" using Abort_locked[of ?s1] by (simp add: threads_of_def)
  moreover have "scan_step ?s2 (threads_of (cyw_abort_escan sc))"
    using Abort_sent[of ?s2 ?i] True by (simp add: threads_of_def cyw_abort_escan_def req_pair_params)
  ultimately show ?thesis by (rule three_steps)
qed (simp add: cyw_abort_escan_def)

section \<open>The sync ids\<close>

lemma actions: "CYW_ESCAN_ACTION_START \<noteq> CYW_ESCAN_ACTION_ABORT"
  by (simp add: CYW_ESCAN_ACTION_START_def CYW_ESCAN_ACTION_ABORT_def)

definition starts :: "(u16 \<times> u16) list \<Rightarrow> nat" where
  "starts rs = length (filter (\<lambda>r. fst r = CYW_ESCAN_ACTION_START) rs)"

text \<open>Every request has the number of the starts before it.\<close>

definition numbered :: "u16 \<Rightarrow> (u16 \<times> u16) list \<Rightarrow> bool" where
  "numbered n rs \<longleftrightarrow> (\<forall>k<length rs. snd (rs ! k) = n + of_nat (starts (take k rs)))"

lemma numbered_more: "numbered n (rs @ [r]) \<longleftrightarrow> numbered n rs \<and> snd r = n + of_nat (starts rs)"
  by (auto simp: numbered_def nth_append less_Suc_eq)

definition scan_inv :: "u16 \<Rightarrow> scan_threads \<Rightarrow> bool" where
  "scan_inv n s \<longleftrightarrow> numbered n (issued s) \<and> sync_id s = n + of_nat (starts (issued s))
     \<and> set (received s) \<subseteq> set (issued s)
     \<and> (case starter s of S_Sending i \<Rightarrow> (CYW_ESCAN_ACTION_START, i) \<in> set (issued s) | _ \<Rightarrow> True)
     \<and> (case aborter s of A_Sending i \<Rightarrow> (CYW_ESCAN_ACTION_ABORT, i) \<in> set (issued s) | _ \<Rightarrow> True)"

lemma scan_inv_step: "scan_step s s' \<Longrightarrow> scan_inv n s \<Longrightarrow> scan_inv n s'"
  using actions
  by (elim scan_stepE)
     (auto simp: scan_inv_def numbered_more starts_def split: start_place.splits abort_place.splits)

lemma scan_reachable_inv: "scan_reachable n s \<Longrightarrow> scan_inv n s"
proof (induction rule: scan_reachable.induct)
  case scan_reachable_init
  then show ?case by (simp add: scan_inv_def scan_init_def numbered_def starts_def)
next
  case (scan_reachable_step s s')
  then show ?case using scan_inv_step by blast
qed

text \<open>C15: In every interleaving of the threads the k-th start carries the k-th number after the
  first, and an abort carries the number the next start will carry: never that of the
  scan started last, which the number before it names.\<close>

theorem abort_names_next_scan:
  assumes "scan_reachable n s" "issued s = xs @ (CYW_ESCAN_ACTION_ABORT, i) # ys"
  shows "i = n + of_nat (starts xs)
    \<and> (\<forall>j zs ws. xs = zs @ (CYW_ESCAN_ACTION_START, j) # ws \<and> starts ws = 0 \<longrightarrow> j + 1 = i)
    \<and> (\<forall>j zs ws. ys = zs @ (CYW_ESCAN_ACTION_START, j) # ws \<and> starts zs = 0 \<longrightarrow> j = i)
    \<and> set (received s) \<subseteq> set (issued s)"
proof -
  have inv: "numbered n (issued s)" "set (received s) \<subseteq> set (issued s)"
    using scan_reachable_inv[OF assms(1)] by (simp_all add: scan_inv_def)
  have at: "snd r = n + of_nat (starts us)" if "issued s = us @ r # vs" for us r vs
  proof -
    have "length us < length (issued s)" by (simp add: that)
    then have "snd (issued s ! length us) = n + of_nat (starts (take (length us) (issued s)))" using inv(1) by (simp add: numbered_def)
    then show ?thesis by (simp add: that)
  qed
  have i: "i = n + of_nat (starts xs)" using at[OF assms(2)] by simp
  moreover have "j + 1 = i" if "xs = zs @ (CYW_ESCAN_ACTION_START, j) # ws" "starts ws = 0" for j zs ws
  proof -
    have "j = n + of_nat (starts zs)" using at[of zs "(CYW_ESCAN_ACTION_START, j)"] assms(2) that(1) by simp
    then show ?thesis using i that by (simp add: starts_def)
  qed
  moreover have "j = i" if "ys = zs @ (CYW_ESCAN_ACTION_START, j) # ws" "starts zs = 0" for j zs ws
  proof -
    have "j = n + of_nat (starts (xs @ (CYW_ESCAN_ACTION_ABORT, i) # zs))"
      using at[of "xs @ (CYW_ESCAN_ACTION_ABORT, i) # zs" "(CYW_ESCAN_ACTION_START, j)"] assms(2) that(1) by simp
    then show ?thesis using i that(2) actions by (simp add: starts_def)
  qed
  ultimately show ?thesis using inv(2) by blast
qed

text \<open>Two interleavings: the abort runs between the two halves of a start, and the other
  way round.\<close>

lemma abort_overtakes:
  "scan_reachable n \<lparr>sync_id = n + 1, active = False, starter = S_Outside, aborter = A_Outside,
     issued = [(CYW_ESCAN_ACTION_START, n), (CYW_ESCAN_ACTION_ABORT, n + 1)],
     received = [(CYW_ESCAN_ACTION_ABORT, n + 1), (CYW_ESCAN_ACTION_START, n)]\<rparr>"
proof -
  let ?S = "(CYW_ESCAN_ACTION_START, n)" and ?A = "(CYW_ESCAN_ACTION_ABORT, n + 1)"
  have 1: "scan_reachable n \<lparr>sync_id = n + 1, active = True, starter = S_Sending n, aborter = A_Outside, issued = [?S], received = []\<rparr>"
    using scan_reachable_step[OF scan_reachable_init Start_locked] by (simp add: scan_init_def)
  have 2: "scan_reachable n \<lparr>sync_id = n + 1, active = True, starter = S_Sending n, aborter = A_Passed, issued = [?S], received = []\<rparr>"
    using scan_reachable_step[OF 1 Abort_tested] by simp
  have 3: "scan_reachable n \<lparr>sync_id = n + 1, active = False, starter = S_Sending n, aborter = A_Sending (n + 1), issued = [?S, ?A], received = []\<rparr>"
    using scan_reachable_step[OF 2 Abort_locked] by simp
  have 4: "scan_reachable n \<lparr>sync_id = n + 1, active = False, starter = S_Sending n, aborter = A_Outside, issued = [?S, ?A], received = [?A]\<rparr>"
    using scan_reachable_step[OF 3 Abort_sent] by simp
  show ?thesis using scan_reachable_step[OF 4 Start_sent] by simp
qed

lemma abort_late:
  "scan_reachable n \<lparr>sync_id = n + 1 + 1, active = True, starter = S_Outside, aborter = A_Outside,
     issued = [(CYW_ESCAN_ACTION_START, n), (CYW_ESCAN_ACTION_ABORT, n + 1), (CYW_ESCAN_ACTION_START, n + 1)],
     received = [(CYW_ESCAN_ACTION_START, n), (CYW_ESCAN_ACTION_START, n + 1), (CYW_ESCAN_ACTION_ABORT, n + 1)]\<rparr>"
proof -
  let ?S = "(CYW_ESCAN_ACTION_START, n)" and ?A = "(CYW_ESCAN_ACTION_ABORT, n + 1)" and ?T = "(CYW_ESCAN_ACTION_START, n + 1)"
  have 1: "scan_reachable n \<lparr>sync_id = n + 1, active = True, starter = S_Sending n, aborter = A_Outside, issued = [?S], received = []\<rparr>"
    using scan_reachable_step[OF scan_reachable_init Start_locked] by (simp add: scan_init_def)
  have 2: "scan_reachable n \<lparr>sync_id = n + 1, active = True, starter = S_Outside, aborter = A_Outside, issued = [?S], received = [?S]\<rparr>"
    using scan_reachable_step[OF 1 Start_sent] by simp
  have 3: "scan_reachable n \<lparr>sync_id = n + 1, active = True, starter = S_Outside, aborter = A_Passed, issued = [?S], received = [?S]\<rparr>"
    using scan_reachable_step[OF 2 Abort_tested] by simp
  have 4: "scan_reachable n \<lparr>sync_id = n + 1, active = False, starter = S_Outside, aborter = A_Sending (n + 1), issued = [?S, ?A], received = [?S]\<rparr>"
    using scan_reachable_step[OF 3 Abort_locked] by simp
  have 5: "scan_reachable n \<lparr>sync_id = n + 1 + 1, active = True, starter = S_Sending (n + 1), aborter = A_Sending (n + 1), issued = [?S, ?A, ?T], received = [?S]\<rparr>"
    using scan_reachable_step[OF 4 Start_locked] by simp
  have 6: "scan_reachable n \<lparr>sync_id = n + 1 + 1, active = True, starter = S_Outside, aborter = A_Sending (n + 1), issued = [?S, ?A, ?T], received = [?S, ?T]\<rparr>"
    using scan_reachable_step[OF 5 Start_sent] by simp
  show ?thesis using scan_reachable_step[OF 6 Abort_sent] by simp
qed

text \<open>The lock is not held over the requests, so the abort of a scan can reach the firmware
  before its start, which leaves the firmware scanning while the driver believes it is
  not and will not abort it; and an abort that is late reaches the firmware behind the
  next start, whose number it carries, while the driver believes that scan runs.\<close>

theorem scan_threads_race:
  "(\<exists>s. scan_reachable n s \<and> starter s = S_Outside \<and> aborter s = A_Outside \<and> \<not> active s
      \<and> received s = [(CYW_ESCAN_ACTION_ABORT, n + 1), (CYW_ESCAN_ACTION_START, n)])
   \<and> (\<exists>s i. scan_reachable n s \<and> starter s = S_Outside \<and> aborter s = A_Outside \<and> active s
      \<and> received s = [(CYW_ESCAN_ACTION_START, n), (CYW_ESCAN_ACTION_START, i), (CYW_ESCAN_ACTION_ABORT, i)])"
proof
  show "\<exists>s. scan_reachable n s \<and> starter s = S_Outside \<and> aborter s = A_Outside \<and> \<not> active s
      \<and> received s = [(CYW_ESCAN_ACTION_ABORT, n + 1), (CYW_ESCAN_ACTION_START, n)]"
    by (rule exI, rule conjI[OF abort_overtakes]) simp
  show "\<exists>s i. scan_reachable n s \<and> starter s = S_Outside \<and> aborter s = A_Outside \<and> active s
      \<and> received s = [(CYW_ESCAN_ACTION_START, n), (CYW_ESCAN_ACTION_START, i), (CYW_ESCAN_ACTION_ABORT, i)]"
    by (rule exI, rule exI, rule conjI[OF abort_late]) simp
qed

theorem abort_names_next_scan_witness:
  "\<exists>s xs. scan_reachable 7 s \<and> issued s = xs @ [(CYW_ESCAN_ACTION_ABORT, 8)] \<and> (8 :: u16) = 7 + of_nat (starts xs)"
proof -
  let ?s = "\<lparr>sync_id = 7 + 1, active = False, starter = S_Outside, aborter = A_Outside,
     issued = [(CYW_ESCAN_ACTION_START, 7), (CYW_ESCAN_ACTION_ABORT, 7 + 1)],
     received = [(CYW_ESCAN_ACTION_ABORT, 7 + 1), (CYW_ESCAN_ACTION_START, 7)]\<rparr>"
  have "(7 :: u16) + 1 = 7 + of_nat (starts [(CYW_ESCAN_ACTION_START, 7)])"
    using abort_names_next_scan[OF abort_overtakes[of 7], of "[(CYW_ESCAN_ACTION_START, 7)]" "7 + 1" "[]"] by simp
  then show ?thesis
    using abort_overtakes[of 7] by (intro exI[of _ ?s] exI[of _ "[(CYW_ESCAN_ACTION_START, 7)]"]) simp
qed

end
