(* ===== verification/Pcie2Recon.thy ===== *)
theory Pcie2Recon
  imports Bcm2712
begin

text \<open>
  The reconnaissance module of the PCIe controller in front of RP1
  (src/rp1_pcie2_recon.c): the register window, the decoding of the outbound and the
  inbound window and of the link state, the strings its nodes show with their buffers,
  the tree of nodes, and the module event handler with the lines it prints.
\<close>

section \<open>Registers\<close>

definition PCIE2_MAP_SIZE :: nat where "PCIE2_MAP_SIZE = 0x9310"

definition PCIE2_CFG_VENDOR_DEVICE :: nat where "PCIE2_CFG_VENDOR_DEVICE = 0x0000"

definition PCIE2_MISC_MISC_CTRL :: nat where "PCIE2_MISC_MISC_CTRL = 0x4008"

definition PCIE2_MISC_MEM_WIN0_LO :: nat where "PCIE2_MISC_MEM_WIN0_LO = 0x400c"

definition PCIE2_MISC_MEM_WIN0_HI :: nat where "PCIE2_MISC_MEM_WIN0_HI = 0x4010"

definition PCIE2_MISC_RC_BAR1_CFG_LO :: nat where "PCIE2_MISC_RC_BAR1_CFG_LO = 0x402c"

definition PCIE2_MISC_RC_BAR1_CFG_HI :: nat where "PCIE2_MISC_RC_BAR1_CFG_HI = 0x4030"

definition PCIE2_MISC_RC_BAR2_CFG_LO :: nat where "PCIE2_MISC_RC_BAR2_CFG_LO = 0x4034"

definition PCIE2_MISC_RC_BAR2_CFG_HI :: nat where "PCIE2_MISC_RC_BAR2_CFG_HI = 0x4038"

definition PCIE2_MISC_RC_BAR3_CFG_LO :: nat where "PCIE2_MISC_RC_BAR3_CFG_LO = 0x403c"

definition PCIE2_MISC_RC_BAR3_CFG_HI :: nat where "PCIE2_MISC_RC_BAR3_CFG_HI = 0x4040"

definition PCIE2_MISC_MSI_BAR_LO :: nat where "PCIE2_MISC_MSI_BAR_LO = 0x4044"

definition PCIE2_MISC_MSI_BAR_HI :: nat where "PCIE2_MISC_MSI_BAR_HI = 0x4048"

definition PCIE2_MISC_MSI_DATA :: nat where "PCIE2_MISC_MSI_DATA = 0x404c"

definition PCIE2_MISC_PCIE_STATUS :: nat where "PCIE2_MISC_PCIE_STATUS = 0x4068"

definition PCIE_STATUS_PHYLINKUP :: u32 where "PCIE_STATUS_PHYLINKUP = push_bit 4 1"

definition PCIE_STATUS_DL_ACTIVE :: u32 where "PCIE_STATUS_DL_ACTIVE = push_bit 5 1"

definition PCIE_STATUS_IN_L23 :: u32 where "PCIE_STATUS_IN_L23 = push_bit 6 1"

definition PCIE_STATUS_RC_MODE :: u32 where "PCIE_STATUS_RC_MODE = push_bit 7 1"

definition PCIE2_MISC_MEM_WIN0_BASE_LIM :: nat where "PCIE2_MISC_MEM_WIN0_BASE_LIM = 0x4070"

definition PCIE2_MISC_MEM_WIN0_BASE_HI :: nat where "PCIE2_MISC_MEM_WIN0_BASE_HI = 0x4080"

definition PCIE2_MISC_MEM_WIN0_LIMIT_HI :: nat where "PCIE2_MISC_MEM_WIN0_LIMIT_HI = 0x4088"

definition PCIE2_MISC_HARD_DEBUG :: nat where "PCIE2_MISC_HARD_DEBUG = 0x4204"

definition PCIE_HARD_DEBUG_LTSSM_MASK :: u32 where "PCIE_HARD_DEBUG_LTSSM_MASK = 0x1f"

definition PCIE2_MSI_INTR2_STATUS :: nat where "PCIE2_MSI_INTR2_STATUS = 0x4500"

definition PCIE2_MSI_INTR2_MASK_SET :: nat where "PCIE2_MSI_INTR2_MASK_SET = 0x450c"

lemmas recon_offsets = PCIE2_CFG_VENDOR_DEVICE_def PCIE2_MISC_MISC_CTRL_def PCIE2_MISC_MEM_WIN0_LO_def PCIE2_MISC_MEM_WIN0_HI_def
  PCIE2_MISC_RC_BAR1_CFG_LO_def PCIE2_MISC_RC_BAR1_CFG_HI_def PCIE2_MISC_RC_BAR2_CFG_LO_def PCIE2_MISC_RC_BAR2_CFG_HI_def
  PCIE2_MISC_RC_BAR3_CFG_LO_def PCIE2_MISC_RC_BAR3_CFG_HI_def PCIE2_MISC_MSI_BAR_LO_def PCIE2_MISC_MSI_BAR_HI_def
  PCIE2_MISC_MSI_DATA_def PCIE2_MISC_PCIE_STATUS_def PCIE2_MISC_MEM_WIN0_BASE_LIM_def PCIE2_MISC_MEM_WIN0_BASE_HI_def
  PCIE2_MISC_MEM_WIN0_LIMIT_HI_def PCIE2_MISC_HARD_DEBUG_def PCIE2_MSI_INTR2_STATUS_def PCIE2_MSI_INTR2_MASK_SET_def

section \<open>Numbers in text\<close>

text \<open>The conversions x and u of printf, and leading zeros up to a width.\<close>

fun digits :: "nat \<Rightarrow> nat \<Rightarrow> string" where
  "digits b n = (if n < b \<or> b < 2 then [''0123456789abcdef'' ! (n mod 16)] else digits b (n div b) @ [''0123456789abcdef'' ! (n mod b mod 16)])"

declare digits.simps [simp del]

definition hex :: "'a::len word \<Rightarrow> string" where "hex w = digits 16 (unat w)"

definition pad0 :: "nat \<Rightarrow> string \<Rightarrow> string" where "pad0 k s = replicate (k - length s) (CHR ''0'') @ s"

text \<open>What a buffer of the given size holds, without the NUL.\<close>

definition snprintf :: "nat \<Rightarrow> string \<Rightarrow> string" where "snprintf room s = take (room - 1) s"

lemma digits_length: "2 \<le> b \<Longrightarrow> 0 < k \<Longrightarrow> n < b ^ k \<Longrightarrow> length (digits b n) \<le> k"
proof (induction k arbitrary: n)
  case (Suc k)
  show ?case
  proof (cases "n < b")
    case True
    then show ?thesis by (subst digits.simps) simp
  next
    case False
    then have "k \<noteq> 0" using Suc.prems(3) by (cases k) simp_all
    moreover have "n div b < b ^ k" using Suc.prems(1,3) by (simp add: less_mult_imp_div_less mult.commute)
    ultimately have "length (digits b (n div b)) \<le> k" using Suc by simp
    then show ?thesis by (subst digits.simps) simp
  qed
qed simp

lemma hex_length: "length (hex (w :: u32)) \<le> 8" "length (hex (v :: u64)) \<le> 16"
  using digits_length[of 16 8 "unat w"] digits_length[of 16 16 "unat v"] unsigned_less[of w] unsigned_less[of v]
  by (simp_all add: hex_def)

lemma pad0_length: "length (pad0 k s) = max k (length s)"
  by (simp add: pad0_def)

section \<open>Decoding\<close>

text \<open>The names of the link states; CHR 0xE2 and what follows is the arrow of the messages.\<close>

definition ltssm_names :: "string list" where
  "ltssm_names = [''DETECT.QUIET'', ''DETECT.ACTIVE'', ''POLLING.ACTIVE'', ''POLLING.COMPLIANCE'', ''POLLING.CONFIGURATION'',
     ''CONFIG.LINKWIDTHSTART'', ''CONFIG.LINKWIDTHACCEPT'', ''CONFIG.LANENUM.WAIT'', ''CONFIG.LANENUM.ACCEPT'', ''CONFIG.COMPLETE'',
     ''CONFIG.IDLE'', ''RECOVERY.RCVR.LOCK'', ''RECOVERY.SPEED'', ''RECOVERY.RCVR.CFG'', ''RECOVERY.IDLE'', ''L0'', ''L0s'',
     ''L1.ENTRY'', ''L1.IDLE'', ''L2.IDLE'', ''L2.TRANSMIT_WAKE'', ''DISABLED'', ''LOOPBACK.ENTRY'', ''LOOPBACK.ACTIVE'',
     ''LOOPBACK.EXIT'', ''HOT_RESET'']"

definition arrow :: string where "arrow = [CHR 0xE2, CHR 0x86, CHR 0x92]"

definition ltssm_of :: "u32 \<Rightarrow> u32" where "ltssm_of hdbg = hdbg AND PCIE_HARD_DEBUG_LTSSM_MASK"

definition ltssm_name :: "u32 \<Rightarrow> string" where
  "ltssm_name l = (if unat l < length ltssm_names then ltssm_names ! unat l else ''?'')"

definition flag_text :: "u32 \<Rightarrow> u32 \<Rightarrow> string" where
  "flag_text st f = (if st AND f \<noteq> 0 then ''1'' else ''0'')"

definition status_bits :: "u32 \<Rightarrow> string" where
  "status_bits st = ''phylinkup='' @ flag_text st PCIE_STATUS_PHYLINKUP @ '' dl_active='' @ flag_text st PCIE_STATUS_DL_ACTIVE
     @ '' in_l23='' @ flag_text st PCIE_STATUS_IN_L23 @ '' rc_mode='' @ flag_text st PCIE_STATUS_RC_MODE"

definition status_text :: "mmio \<Rightarrow> string" where
  "status_text m =
     (let st = rd m PCIE2_MISC_PCIE_STATUS; hdbg = rd m PCIE2_MISC_HARD_DEBUG; ltssm = ltssm_of hdbg
      in status_bits st @ '' ltssm=0x'' @ pad0 2 (hex ltssm) @ ''('' @ ltssm_name ltssm @ '')'')"

definition join64 :: "u32 \<Rightarrow> u32 \<Rightarrow> u64" where
  "join64 hi lo = push_bit 32 (ucast hi) OR ucast lo"

text \<open>Base, limit and target of the outbound window.\<close>

definition outbound_window :: "mmio \<Rightarrow> u64 \<times> u64 \<times> u64" where
  "outbound_window m =
     (let bl = rd m PCIE2_MISC_MEM_WIN0_BASE_LIM; bhi = rd m PCIE2_MISC_MEM_WIN0_BASE_HI; lhi = rd m PCIE2_MISC_MEM_WIN0_LIMIT_HI;
          base = push_bit 32 (ucast bhi) OR push_bit 16 (ucast (drop_bit 16 bl));
          limit = push_bit 32 (ucast lhi) OR push_bit 16 (ucast (bl AND 0xffff)) OR 0xffff
      in (base, limit, join64 (rd m PCIE2_MISC_MEM_WIN0_HI) (rd m PCIE2_MISC_MEM_WIN0_LO)))"

definition outbound_text :: "mmio \<Rightarrow> string" where
  "outbound_text m =
     (let (base, limit, dest) = outbound_window m
      in ''cpu_phys 0x'' @ hex base @ ''-0x'' @ hex limit @ '' '' @ arrow @ '' pcie 0x'' @ hex dest
         @ '' (lo_reg=0x'' @ pad0 8 (hex (rd m PCIE2_MISC_MEM_WIN0_LO)) @ '' hi_reg=0x'' @ pad0 8 (hex (rd m PCIE2_MISC_MEM_WIN0_HI))
         @ '' bl=0x'' @ pad0 8 (hex (rd m PCIE2_MISC_MEM_WIN0_BASE_LIM)) @ '')'')"

text \<open>Address and size exponent of the inbound window.\<close>

definition inbound_window :: "u32 \<Rightarrow> u32 \<Rightarrow> u64 \<times> u32" where
  "inbound_window hi lo =
     (push_bit 32 (ucast hi) OR (ucast lo AND NOT 0xf), ucast (drop_bit 1 (ucast lo :: u64) AND 0x1f))"

definition inbound_text :: "mmio \<Rightarrow> string" where
  "inbound_text m =
     (let lo = rd m PCIE2_MISC_RC_BAR2_CFG_LO; hi = rd m PCIE2_MISC_RC_BAR2_CFG_HI; (addr, size_encoded) = inbound_window hi lo
      in ''pcie_addr=0x'' @ hex addr @ '' size_exp='' @ digits 10 (unat size_encoded)
         @ '' (~'' @ digits 10 (2 ^ (unat size_encoded + 15) div 2 ^ 20) @ '' MB) lo=0x'' @ pad0 8 (hex lo) @ '' hi=0x'' @ pad0 8 (hex hi))"

definition msi_text :: "mmio \<Rightarrow> string" where
  "msi_text m =
     ''target_addr=0x'' @ hex (join64 (rd m PCIE2_MISC_MSI_BAR_HI) (rd m PCIE2_MISC_MSI_BAR_LO))
       @ '' data=0x'' @ pad0 8 (hex (rd m PCIE2_MISC_MSI_DATA)) @ '' intr2_mask=0x'' @ pad0 8 (hex (rd m PCIE2_MSI_INTR2_MASK_SET))
       @ '' intr2_status=0x'' @ pad0 8 (hex (rd m PCIE2_MSI_INTR2_STATUS))"

section \<open>Nodes\<close>

text \<open>kva: the window, when it is mapped.\<close>

definition pcie2_reg_sysctl :: "nat \<Rightarrow> mmio option \<Rightarrow> u32 result" where
  "pcie2_reg_sysctl off kva = (case kva of None \<Rightarrow> Inl ENODEV | Some m \<Rightarrow> Inr (rd m off))"

definition pcie2_status_decoded_sysctl :: "mmio option \<Rightarrow> string result" where
  "pcie2_status_decoded_sysctl kva = (case kva of None \<Rightarrow> Inl ENODEV | Some m \<Rightarrow> Inr (snprintf 128 (status_text m)))"

definition pcie2_outbound_decoded_sysctl :: "mmio option \<Rightarrow> string result" where
  "pcie2_outbound_decoded_sysctl kva = (case kva of None \<Rightarrow> Inl ENODEV | Some m \<Rightarrow> Inr (snprintf 192 (outbound_text m)))"

definition pcie2_inbound_decoded_sysctl :: "mmio option \<Rightarrow> string result" where
  "pcie2_inbound_decoded_sysctl kva = (case kva of None \<Rightarrow> Inl ENODEV | Some m \<Rightarrow> Inr (snprintf 192 (inbound_text m)))"

definition pcie2_msi_decoded_sysctl :: "mmio option \<Rightarrow> string result" where
  "pcie2_msi_decoded_sysctl kva = (case kva of None \<Rightarrow> Inl ENODEV | Some m \<Rightarrow> Inr (snprintf 192 (msi_text m)))"

section \<open>Load and unload\<close>

datatype recon_node = Status_node | Outbound_node | Inbound_node | Msi_node | Reg_node nat

text \<open>The nodes with values below hw.rp1_pcie2; all registers are added below the node regs,
  those of the MSI controller as well.\<close>

definition recon_nodes :: "(string \<times> recon_node) list" where
  "recon_nodes = [(''status_decoded'', Status_node), (''outbound_win0'', Outbound_node), (''inbound_bar2'', Inbound_node), (''msi'', Msi_node)]
     @ map (\<lambda>(name, off). (''regs.'' @ name, Reg_node off))
         [(''cfg_vid_did'', PCIE2_CFG_VENDOR_DEVICE), (''misc_ctrl'', PCIE2_MISC_MISC_CTRL), (''pcie_status'', PCIE2_MISC_PCIE_STATUS),
          (''hard_debug'', PCIE2_MISC_HARD_DEBUG), (''win0_lo'', PCIE2_MISC_MEM_WIN0_LO), (''win0_hi'', PCIE2_MISC_MEM_WIN0_HI),
          (''win0_base_lim'', PCIE2_MISC_MEM_WIN0_BASE_LIM), (''win0_base_hi'', PCIE2_MISC_MEM_WIN0_BASE_HI),
          (''win0_limit_hi'', PCIE2_MISC_MEM_WIN0_LIMIT_HI), (''rc_bar1_lo'', PCIE2_MISC_RC_BAR1_CFG_LO), (''rc_bar1_hi'', PCIE2_MISC_RC_BAR1_CFG_HI),
          (''rc_bar2_lo'', PCIE2_MISC_RC_BAR2_CFG_LO), (''rc_bar2_hi'', PCIE2_MISC_RC_BAR2_CFG_HI), (''rc_bar3_lo'', PCIE2_MISC_RC_BAR3_CFG_LO),
          (''rc_bar3_hi'', PCIE2_MISC_RC_BAR3_CFG_HI), (''msi_bar_lo'', PCIE2_MISC_MSI_BAR_LO), (''msi_bar_hi'', PCIE2_MISC_MSI_BAR_HI),
          (''msi_data'', PCIE2_MISC_MSI_DATA), (''status'', PCIE2_MSI_INTR2_STATUS), (''mask'', PCIE2_MSI_INTR2_MASK_SET)]"

text \<open>The lines of the snapshot behind the one with the address of the mapping, without the
  name of the module in front of each.\<close>

definition recon_lines :: "mmio \<Rightarrow> string list" where
  "recon_lines m =
     (let vid_did = rd m PCIE2_CFG_VENDOR_DEVICE; st = rd m PCIE2_MISC_PCIE_STATUS; hdbg = rd m PCIE2_MISC_HARD_DEBUG; ltssm = ltssm_of hdbg;
          bar2lo = rd m PCIE2_MISC_RC_BAR2_CFG_LO; bar2hi = rd m PCIE2_MISC_RC_BAR2_CFG_HI
      in [''cfg vendor:device = 0x'' @ pad0 4 (hex (vid_did AND 0xffff)) @ '':0x'' @ pad0 4 (hex (drop_bit 16 vid_did)),
          ''PCIE_STATUS = 0x'' @ pad0 8 (hex st) @ '' ('' @ status_bits st @ '')'',
          ''HARD_DEBUG = 0x'' @ pad0 8 (hex hdbg) @ '' (LTSSM=0x'' @ pad0 2 (hex ltssm) @ '' = '' @ ltssm_name ltssm @ '')'',
          ''outbound WIN0_LO=0x'' @ pad0 8 (hex (rd m PCIE2_MISC_MEM_WIN0_LO)) @ '' WIN0_HI=0x'' @ pad0 8 (hex (rd m PCIE2_MISC_MEM_WIN0_HI))
            @ '' BASE_LIM=0x'' @ pad0 8 (hex (rd m PCIE2_MISC_MEM_WIN0_BASE_LIM)),
          ''inbound BAR2 pcie_addr=0x'' @ hex (fst (inbound_window bar2hi bar2lo)) @ '' (lo=0x'' @ pad0 8 (hex bar2lo) @ '' hi=0x'' @ pad0 8 (hex bar2hi) @ '')'',
          ''MSI bar=0x'' @ hex (join64 (rd m PCIE2_MISC_MSI_BAR_HI) (rd m PCIE2_MISC_MSI_BAR_LO)) @ '' data=0x'' @ pad0 8 (hex (rd m PCIE2_MISC_MSI_DATA))
            @ '' intr2_mask=0x'' @ pad0 8 (hex (rd m PCIE2_MSI_INTR2_MASK_SET)) @ '' intr2_status=0x'' @ pad0 8 (hex (rd m PCIE2_MSI_INTR2_STATUS))])"

record recon =
  pcie2_kva :: "mmio option"
  recon_tree :: "(string \<times> recon_node) list"
  printed :: "string list"

text \<open>avail is what the mapping of the window gives.\<close>

definition rp1_pcie2_recon_modevent :: "modevent \<Rightarrow> mmio option \<Rightarrow> recon \<Rightarrow> rc \<times> recon" where
  "rp1_pcie2_recon_modevent event avail s =
     (case event of
        MOD_LOAD \<Rightarrow>
          (let s = s\<lparr>pcie2_kva := avail\<rparr>
           in case avail of
                None \<Rightarrow> (fail ENXIO, s)
              | Some m \<Rightarrow> (ok, s\<lparr>printed := printed s @ recon_lines m, recon_tree := recon_nodes\<rparr>))
      | MOD_UNLOAD \<Rightarrow> (ok, s\<lparr>recon_tree := [], pcie2_kva := None\<rparr>)
      | MOD_OTHER \<Rightarrow> (fail EOPNOTSUPP, s))"

section \<open>The buffers\<close>

lemma ltssm_name_length: "length (ltssm_name l) \<le> 22"
proof -
  have "list_all (\<lambda>x. length x \<le> 22) ltssm_names" by (simp add: ltssm_names_def)
  then show ?thesis by (auto simp: ltssm_name_def list_all_length)
qed

lemma flag_length: "length (flag_text a b) = 1"
  by (simp add: flag_text_def)

lemma text_lengths:
  "length (pad0 k (hex (w :: u32))) \<le> max k 8" "length (pad0 k (hex (v :: u64))) \<le> max k 16"
  "length (digits 10 (unat (e AND 0x1f :: u32))) \<le> 2"
proof -
  show "length (pad0 k (hex w)) \<le> max k 8" "length (pad0 k (hex v)) \<le> max k 16"
    using hex_length(1)[of w] hex_length(2)[of v] by (auto simp: pad0_length)
  have "e AND 0x1f \<le> 0x1f" by (rule word_and_le1)
  then have "unat (e AND 0x1f) \<le> 31" by (simp add: word_le_nat_alt)
  then show "length (digits 10 (unat (e AND 0x1f))) \<le> 2" by (intro digits_length) simp_all
qed

lemma status_fits: "length (status_text m) < 128"
  using ltssm_name_length[of "ltssm_of (rd m PCIE2_MISC_HARD_DEBUG)"] text_lengths(1)[of 2 "ltssm_of (rd m PCIE2_MISC_HARD_DEBUG)"]
  by (simp add: status_text_def status_bits_def flag_length Let_def)

lemma outbound_fits: "length (outbound_text m) < 192"
proof -
  obtain base limit dest where w: "outbound_window m = (base, limit, dest)" by (cases "outbound_window m")
  show ?thesis
    using hex_length(2)[of base] hex_length(2)[of limit] hex_length(2)[of dest] text_lengths(1)[of 8 "rd m PCIE2_MISC_MEM_WIN0_LO"]
      text_lengths(1)[of 8 "rd m PCIE2_MISC_MEM_WIN0_HI"] text_lengths(1)[of 8 "rd m PCIE2_MISC_MEM_WIN0_BASE_LIM"]
    by (simp add: outbound_text_def w arrow_def)
qed

lemma inbound_size: "unat (snd (inbound_window hi lo)) < 32"
proof -
  have "drop_bit 1 (ucast lo :: u64) AND 0x1f \<le> 0x1f" by (rule word_and_le1)
  then have "unat (drop_bit 1 (ucast lo :: u64) AND 0x1f) \<le> 31" by (simp add: word_le_nat_alt)
  then show ?thesis by (simp add: inbound_window_def unsigned_ucast_eq take_bit_nat_eq_self)
qed

lemma inbound_fits: "length (inbound_text m) < 192"
proof -
  obtain addr k where w: "inbound_window (rd m PCIE2_MISC_RC_BAR2_CFG_HI) (rd m PCIE2_MISC_RC_BAR2_CFG_LO) = (addr, k)" by fastforce
  have k: "unat k < 32" using inbound_size[of "rd m PCIE2_MISC_RC_BAR2_CFG_HI" "rd m PCIE2_MISC_RC_BAR2_CFG_LO"] by (simp add: w)
  have "(2 :: nat) ^ (unat k + 15) \<le> 2 ^ 46" using k by (intro power_increasing) simp_all
  then have "(2 :: nat) ^ (unat k + 15) div 2 ^ 20 \<le> 2 ^ 46 div 2 ^ 20" by (rule div_le_mono)
  then have "length (digits 10 (2 ^ (unat k + 15) div 2 ^ 20)) \<le> 8" by (intro digits_length) simp_all
  moreover have "length (digits 10 (unat k)) \<le> 2" using k by (intro digits_length) simp_all
  ultimately show ?thesis
    using hex_length(2)[of addr] text_lengths(1)[of 8 "rd m PCIE2_MISC_RC_BAR2_CFG_LO"] text_lengths(1)[of 8 "rd m PCIE2_MISC_RC_BAR2_CFG_HI"]
    by (simp add: inbound_text_def w Let_def)
qed

lemma msi_fits: "length (msi_text m) < 192"
  using hex_length(2)[of "join64 (rd m PCIE2_MISC_MSI_BAR_HI) (rd m PCIE2_MISC_MSI_BAR_LO)"] text_lengths(1)[of 8 "rd m PCIE2_MISC_MSI_DATA"]
    text_lengths(1)[of 8 "rd m PCIE2_MSI_INTR2_MASK_SET"] text_lengths(1)[of 8 "rd m PCIE2_MSI_INTR2_STATUS"]
  by (simp add: msi_text_def)

lemma snprintf_whole: "length s < n \<Longrightarrow> snprintf n s = s"
  by (simp add: snprintf_def)

section \<open>What the nodes show\<close>

lemma join64_halves: "join64 (ucast (drop_bit 32 w)) (ucast w) = w"
proof (rule bit_word_eqI)
  fix n assume "n < LENGTH(64)"
  then show "bit (join64 (ucast (drop_bit 32 w)) (ucast w)) n = bit w n"
    by (cases "n < 32") (auto simp: join64_def bit_simps)
qed

text \<open>The registers of an outbound window, as the comments give them: base and limit in
  units of 64 KB, the upper words apart.\<close>

definition outbound_set :: "u64 \<Rightarrow> u64 \<Rightarrow> u64 \<Rightarrow> mmio \<Rightarrow> bool" where
  "outbound_set base limit dest m \<longleftrightarrow> rd m PCIE2_MISC_MEM_WIN0_LO = ucast dest \<and> rd m PCIE2_MISC_MEM_WIN0_HI = ucast (drop_bit 32 dest)
     \<and> rd m PCIE2_MISC_MEM_WIN0_BASE_HI = ucast (drop_bit 32 base) \<and> rd m PCIE2_MISC_MEM_WIN0_LIMIT_HI = ucast (drop_bit 32 limit)
     \<and> rd m PCIE2_MISC_MEM_WIN0_BASE_LIM = push_bit 16 (ucast (drop_bit 16 base)) OR (ucast (drop_bit 16 limit) AND 0xffff)"

lemma low_masks: "bit (0xffff :: int) n \<longleftrightarrow> n < 16" "bit (0xf :: int) n \<longleftrightarrow> n < 4" "bit (0x1f :: int) n \<longleftrightarrow> n < 5"
proof -
  have "(0xffff :: int) = mask 16" "(0xf :: int) = mask 4" "(0x1f :: int) = mask 5" by (simp_all add: mask_eq_exp_minus_1)
  then show "bit (0xffff :: int) n \<longleftrightarrow> n < 16" "bit (0xf :: int) n \<longleftrightarrow> n < 4" "bit (0x1f :: int) n \<longleftrightarrow> n < 5"
    by (simp_all only: bit_mask_iff possible_bit_int) auto
qed

lemma outbound_decodes:
  assumes "outbound_set base limit dest m" "take_bit 16 base = 0" "take_bit 16 limit = mask 16"
  shows "outbound_window m = (base, limit, dest)"
proof -
  have b0: "bit base n \<longrightarrow> 16 \<le> n" for n
  proof -
    have "bit (take_bit 16 base) n = False" using assms(2) by simp
    then show ?thesis by (auto simp: bit_take_bit_iff)
  qed
  have l1: "n < 16 \<longrightarrow> bit limit n" for n
  proof -
    have "bit (take_bit 16 limit) n = bit (mask 16 :: u64) n" using assms(3) by simp
    then show ?thesis by (auto simp: bit_take_bit_iff bit_mask_iff)
  qed
  let ?bl = "push_bit 16 (ucast (drop_bit 16 base)) OR (ucast (drop_bit 16 limit) AND 0xffff) :: u32"
  have base: "push_bit 32 (ucast (ucast (drop_bit 32 base) :: u32)) OR push_bit 16 (ucast (drop_bit 16 ?bl)) = base"
  proof (rule bit_word_eqI)
    fix n assume n: "n < LENGTH(64)"
    then show "bit (push_bit 32 (ucast (ucast (drop_bit 32 base) :: u32)) OR push_bit 16 (ucast (drop_bit 16 ?bl)) :: u64) n = bit base n"
      using b0[of n] by (cases "n < 16"; cases "n < 32")
        (auto simp: bit_simps low_masks)
  qed
  have limit: "push_bit 32 (ucast (ucast (drop_bit 32 limit) :: u32)) OR push_bit 16 (ucast (?bl AND 0xffff)) OR 0xffff = limit"
  proof (rule bit_word_eqI)
    fix n assume n: "n < LENGTH(64)"
    then show "bit (push_bit 32 (ucast (ucast (drop_bit 32 limit) :: u32)) OR push_bit 16 (ucast (?bl AND 0xffff)) OR 0xffff :: u64) n = bit limit n"
      using l1[of n] by (cases "n < 16"; cases "n < 32")
        (auto simp: bit_simps low_masks)
  qed
  have r: "rd m PCIE2_MISC_MEM_WIN0_LO = ucast dest" "rd m PCIE2_MISC_MEM_WIN0_HI = ucast (drop_bit 32 dest)"
    "rd m PCIE2_MISC_MEM_WIN0_BASE_HI = ucast (drop_bit 32 base)" "rd m PCIE2_MISC_MEM_WIN0_LIMIT_HI = ucast (drop_bit 32 limit)"
    "rd m PCIE2_MISC_MEM_WIN0_BASE_LIM = ?bl"
    using assms(1) unfolding outbound_set_def by blast+
  show ?thesis unfolding outbound_window_def Let_def r base limit join64_halves ..
qed

text \<open>The inbound window as the comment gives it: the size exponent in bits 3 to 1, the
  address from bit 4 on. The code takes five bits for the size.\<close>

lemma inbound_overlaps:
  assumes "take_bit 4 addr = 0" "unat k < 8"
  shows "fst (inbound_window (ucast (drop_bit 32 addr)) (ucast addr OR push_bit 1 k)) = addr"
    and "snd (inbound_window (ucast (drop_bit 32 addr)) (ucast addr OR push_bit 1 k)) = k \<longleftrightarrow> \<not> bit addr 4 \<and> \<not> bit addr 5"
proof -
  have a0: "bit addr n \<longrightarrow> 4 \<le> n" for n
  proof -
    have "bit (take_bit 4 addr) n = False" using assms(1) by simp
    then show ?thesis by (auto simp: bit_take_bit_iff)
  qed
  have k0: "bit k n \<longrightarrow> n < 3" for n using small_not_bit[of k 3 n] assms(2) by (cases "n < 3") auto
  have twice: "bit (k * 2) n \<longleftrightarrow> n \<noteq> 0 \<and> n < 32 \<and> bit k (n - Suc 0)" for n
    by (simp add: mult.commute[of k 2] bit_double_iff) auto
  show "fst (inbound_window (ucast (drop_bit 32 addr)) (ucast addr OR push_bit 1 k)) = addr"
  proof (rule bit_word_eqI)
    fix n assume "n < LENGTH(64)"
    then show "bit (fst (inbound_window (ucast (drop_bit 32 addr)) (ucast addr OR push_bit 1 k))) n = bit addr n"
      using a0[of n] k0[of "n - 1"] by (cases "n < 4"; cases "n < 32")
        (auto simp: inbound_window_def bit_simps low_masks twice)
  qed
  have b: "bit (snd (inbound_window (ucast (drop_bit 32 addr)) (ucast addr OR push_bit 1 k))) n
      \<longleftrightarrow> n < 5 \<and> (bit addr (n + 1) \<or> bit k n)" for n
    using k0[of n] bit_imp_le_length[of k n]
    by (auto simp: inbound_window_def bit_simps low_masks twice)
  show "snd (inbound_window (ucast (drop_bit 32 addr)) (ucast addr OR push_bit 1 k)) = k \<longleftrightarrow> \<not> bit addr 4 \<and> \<not> bit addr 5"
  proof
    assume "snd (inbound_window (ucast (drop_bit 32 addr)) (ucast addr OR push_bit 1 k)) = k"
    then show "\<not> bit addr 4 \<and> \<not> bit addr 5" using b[of 3] b[of 4] k0[of 3] k0[of 4] by simp
  next
    assume n: "\<not> bit addr 4 \<and> \<not> bit addr 5"
    show "snd (inbound_window (ucast (drop_bit 32 addr)) (ucast addr OR push_bit 1 k)) = k"
    proof (rule bit_word_eqI)
      fix i assume "i < LENGTH(32)"
      have "\<not> bit addr (i + 1)" if "i < 5"
      proof (cases "i < 3")
        case True
        then show ?thesis using a0[of "i + 1"] by auto
      next
        case False
        then have "i = 3 \<or> i = 4" using that by auto
        then show ?thesis using n by auto
      qed
      then show "bit (snd (inbound_window (ucast (drop_bit 32 addr)) (ucast addr OR push_bit 1 k))) i = bit k i"
        using b[of i] k0[of i] by auto
    qed
  qed
qed

text \<open>What the module shows is complete and right: in every state of the registers the four
  strings fit their buffers whole, every register node reads an aligned word inside the
  mapping, and an outbound window in units of 64 KB is shown with the base, limit and
  target it was set to; an inbound window is shown with its address, and with its size
  exactly when bits 4 and 5 of the address are clear.\<close>

theorem recon_shows:
  assumes "outbound_set base limit dest m" "take_bit 16 base = 0" "take_bit 16 limit = mask 16"
    and "take_bit 4 addr = 0" "unat k < 8"
  shows "pcie2_status_decoded_sysctl (Some m) = Inr (status_text m) \<and> pcie2_outbound_decoded_sysctl (Some m) = Inr (outbound_text m)
    \<and> pcie2_inbound_decoded_sysctl (Some m) = Inr (inbound_text m) \<and> pcie2_msi_decoded_sysctl (Some m) = Inr (msi_text m)
    \<and> list_all (\<lambda>(name, n). case n of Reg_node off \<Rightarrow> off mod 4 = 0 \<and> off + 4 \<le> PCIE2_MAP_SIZE | _ \<Rightarrow> True) recon_nodes
    \<and> outbound_window m = (base, limit, dest)
    \<and> fst (inbound_window (ucast (drop_bit 32 addr)) (ucast addr OR push_bit 1 k)) = addr
    \<and> (snd (inbound_window (ucast (drop_bit 32 addr)) (ucast addr OR push_bit 1 k)) = k \<longleftrightarrow> \<not> bit addr 4 \<and> \<not> bit addr 5)"
  using outbound_decodes[OF assms(1-3)] inbound_overlaps[OF assms(4,5)] status_fits outbound_fits inbound_fits msi_fits
  by (simp add: pcie2_status_decoded_sysctl_def pcie2_outbound_decoded_sysctl_def pcie2_inbound_decoded_sysctl_def
      pcie2_msi_decoded_sysctl_def snprintf_whole recon_nodes_def recon_offsets PCIE2_MAP_SIZE_def)

text \<open>No node lies below msi_intr2, and the unload gives the window back.\<close>

lemma msi_intr2_empty: "list_all (\<lambda>(name, n). take 9 name \<noteq> ''msi_intr2'') recon_nodes"
  by (simp add: recon_nodes_def)

lemma recon_load_unload:
  "rp1_pcie2_recon_modevent MOD_LOAD avail s = (r, s') \<Longrightarrow>
   (r = ok \<longleftrightarrow> avail \<noteq> None) \<and> (r \<noteq> ok \<longrightarrow> s' = s\<lparr>pcie2_kva := None\<rparr>)
   \<and> rp1_pcie2_recon_modevent MOD_UNLOAD a s' = (ok, s'\<lparr>recon_tree := [], pcie2_kva := None\<rparr>)"
  by (auto simp: rp1_pcie2_recon_modevent_def Let_def split: option.splits)

text \<open>A window of 1 MB at 0x1f00010000 onto the bus address 0x80000000.\<close>

definition a_bridge :: mmio where
  "a_bridge = \<lparr>reg_val = (\<lambda>_. 0)(PCIE2_MISC_MEM_WIN0_LO := 0x80000000, PCIE2_MISC_MEM_WIN0_BASE_HI := 0x1f,
     PCIE2_MISC_MEM_WIN0_LIMIT_HI := 0x1f, PCIE2_MISC_MEM_WIN0_BASE_LIM := 0x1000f), reg_log = []\<rparr>"

theorem recon_shows_witness:
  "outbound_window a_bridge = (0x1f00010000, 0x1f000fffff, 0x80000000)
   \<and> pcie2_msi_decoded_sysctl (Some a_bridge) = Inr (msi_text a_bridge)"
proof -
  have "outbound_set 0x1f00010000 0x1f000fffff 0x80000000 a_bridge"
    by (simp add: outbound_set_def a_bridge_def rd_def recon_offsets)
  moreover have "take_bit 16 (0x1f00010000 :: u64) = 0" "take_bit 16 (0x1f000fffff :: u64) = mask 16" "take_bit 4 (0 :: u64) = 0"
    "unat (3 :: u32) < 8" by (simp_all add: mask_eq_exp_minus_1)
  ultimately show ?thesis by (intro conjI) (rule recon_shows[THEN conjunct2, THEN conjunct2, THEN conjunct2, THEN conjunct2, THEN conjunct2, THEN conjunct1]
      recon_shows[THEN conjunct2, THEN conjunct2, THEN conjunct2, THEN conjunct1]; assumption)+
qed

end
