(* ===== verification/Spec2Isabelle.thy ===== *)
theory Spec2Isabelle
  imports Rpi5Fan Rp1Eth Rp1Gpio Rp1Pwm Bcm2712Pcie FanIntegrated EthLink CywRace CywScanRun CywScanRace Pcie2Recon
begin

text \<open>
  FreeBSD 15 kernel modules for the Raspberry Pi 5, verified.

  The repository holds loadable modules for the peripherals of the board: the BCM2712 SoC
  support (temperature, fan PWM), the fan controllers, the drivers of the RP1 south bridge
  (GPIO, PWM, Ethernet behind a PCIe interrupt) and the WiFi driver of the CYW43455 behind
  SDIO. This library is a shallow embedding of their C sources: structs are records, enums
  datatypes, uint8_t to uint64_t words of their width, errno results sums or numbers, loops
  recursive functions, and code that runs in several threads a step relation over its atomic
  accesses. Every operation computes, so that each claim with a hypothesis is also applied
  to a concrete input in the kernel.

  PARTS AND THEORIES (all C files are in src/)

  Prelude holds what they share: machine types, error numbers, register windows (a map
  from offsets to values with the log of the writes), byte fields of frames, alignment, and
  three of the interfaces below.

  Board: Bcm2712 models bcm2712.c, the owner of the temperature sensor (a callout samples
  it) and of PWM1. Rpi5Fan models rpi5.c, which calls the C functions exported by
  bcm2712.c: once a second it reads the cached temperature, selects one of five states and
  programs channel 3. FanIntegrated models rpi5_cooling_fan_integrated.c, the
  older module that does the same with hysteresis through the PWM bus, which is
  rp1_pwm_driver.c, modelled in Rp1Pwm. Rp1Gpio models rp1_gpio.c.

  Ethernet: Bcm2712Pcie models bcm2712_pcie.c, which owns the interrupt line and calls the
  filter that the Ethernet driver registers. EthTx, EthRx and Rp1Eth model rp1_eth.c: the
  transmit ring, the receive ring, and the driver around both (interrupt filter, task,
  poll, tick, ioctls). EthFdt and EthCfg model rp1_eth_cfg.c, the module that finds the
  hardware in the device tree, brings up clock, MAC and PHY and attaches the driver;
  EthLink compares the speed it picks with the priority order of IEEE 802.3. Pcie2Recon
  models rp1_pcie2_recon.c, a module that only shows the PCIe registers.

  WiFi, from the bus upwards: CywSdio (cyw43455_sdio.c) is the access to the backplane of
  the chip through a moving window; CywFw (cyw43455_fw.c) downloads firmware and NVRAM and
  uploads the CLM blob; CywSdpcm (cyw43455_sdpcm.c and the receive functions of
  cyw43455_fwil.c) reads frames from the packet FIFO and hands them to the waiting request, to the
  events or to the stack; CywFwil (cyw43455_fwil.c) sends requests and waits for the
  answer; CywReq is the interface the code above it relies on; CywEvents
  (cyw43455_events.c, cyw43455_security.c) parses and dispatches firmware events; CywScan,
  CywScanRun and CywScanRace (cyw43455_scan.c with its callbacks in cyw43455_cfg.c) scan;
  CywCfg (cyw43455_cfg.c, cyw43455_security.c) turns net80211 transitions and keys into
  requests; CywTx (cyw43455_cfg.c) sends data frames; CywRace interleaves the two senders
  that share a sequence number; CywAttach (cyw43455.c and the attach functions of the
  layers) composes all of it.

  STATE AND OPERATIONS

  A softc becomes one record per component with the fields that component uses, under the
  names of the source: bcm_world and rpi5_world with the module events, tx_ring and rx_ring
  inside eth, the pin table and its three windows, the channel records of the PWM
  driver, sdio with its window cache, sdpcm and fil for the packet and the request layer,
  assoc and cfg for the association, txq for the queue with its head and tail pointers,
  and cyw for the whole WiFi device. An operation takes the state and returns it updated,
  together with its result. Resources that a handler takes and gives back (mappings, task
  queues, locks) are a list in the state, so that a leak is a difference of lists. Where
  the order of register accesses matters the state has a trace. Where pointers matter (the
  tail pointer of the packet queue, the element chain of a scan result, the softc that a
  detached handler still sees) they are modelled as such.

  Answers from outside the repository are arguments: what a register or a PHY shows, which
  bus transfer fails, whether an allocation or mapping works, what the firmware replies.
  A theorem that is not about one particular answer holds for all of them.

  INTERFACES

  register_file (interpreted on rd and wr): what a read returns after a write, hence the
  bit laws of read-modify-write. descriptor_ring (on the transmit and on the receive ring):
  push, reap and device steps neither lose nor reorder buffers. simulation (on the GPIO
  pins, the PWM channel and the channel specification cache): each step commutes with its
  specification, hence every history does. pwm_provider (on the functions of bcm2712.c):
  what the fan module assumes of its PWM. request_layer (on a scripted firmware and on the
  request layer itself, with its frames, credits and answers): a successful request is seen
  by the firmware, a failed one at most once; the sequences of CywCfg are proved against it.
  The modes of an Ethernet link are an instance of linorder.

  WHAT IS SHOWN

  Invariants of all reachable states: bcm2712 (C1), transmit ring (C3), the Ethernet driver
  (C7), scan ids (C15). Refinement of a specification: frames as a FIFO (C4), 54 independent
  pins (C8), PWM channel (C9), bounded association list (C11), packet queue (C31).
  Function of the operations on every branch: fan tick, receive, block writes, firmware
  download, drain, answers to requests, transitions, keys, data frames, link speed (C2, C6,
  C17, C18, C21, C23, C26, C27, C29, C32, C36). Round trips: channel specification, CLM
  chunks, request and event frames, join payloads (C12, C20, C22, C25, C28). Equivalence
  with a reference: NVRAM packing, device tree search (C19, C35). Bounds: information
  elements (C16). Errors: what a failed load or attach leaves behind (C37, C39).
  Termination and progress: reclaiming (C5), the polling call (C24), the settling fan (C34),
  the attach (C38). Order of threads: the interrupt handler against its registration (C10),
  requests lost between queued tasks (C14), the senders (C33), detach with packets queued
  (C40). Composition from the packet FIFO to net80211: scan results up to the join that
  uses them (C13) and link events up to the transition (C26). Where a theorem shows that
  the code does something other than its comments or its purpose, its text says so.

  BOUNDS AND FUEL

  Loops with a bound in the source keep it: 201 status reads of the management bus in
  rp1_eth.c, 1000 in the bring-up, 20 status reads and 40 polls for the link, 16
  descriptors of the null queue, 50 polls for the clock, 500 for function 2, 200 for the
  firmware handshake, 512 words of the enumeration ROM, 100 and 200 polls for a credit, 300
  polls for a response. Other loops end by a measure (block and chunk loops, element walks,
  divider search) or are partial functions whose return is part of what is proved (purging
  and sending the packet queue, the byte count poll). The reclaiming loop of the transmit
  ring has fuel: one ring size of 256 descriptors, which C5 proves to be enough, because a
  frame in flight covers at least one descriptor; the receive loop has the length of its
  queue, of which each turn takes one.

  NOT MODELLED

  bus_if.h, device_if.h, pwmbus_if.h and ofw_bus_if.h are generated by the kernel build;
  the opt headers hold build options; scripts, makefiles, tests and documents contain no
  driver logic. The kernel is a parameter or left out: busdma, ifnet, taskqueue, net80211,
  the SDIO stack and firmware(9) give answers, while locks appear only where their order is
  the subject (CywRace, CywScanRace, Bcm2712Pcie) and as resources. Log lines and the
  creation of sysctl nodes are left out, except where a node's handler computes. Left out
  too: cyw_fw_get (one library call), functions with an empty or constant body
  (cyw_raw_xmit, cyw_transmit, cyw_wme_update, the key update brackets), prints that
  question the firmware (cyw_probe_fwsup), the callout that only enqueues the receive task,
  and the kernel thread of the integrated fan module, which no code starts. C structures are byte lists
  where the code casts frames to them, so alignment and padding are those of the packed
  layouts in the source, and a pointer into a buffer is an index. Timing is absent: a
  timeout is the number of polls before it, or an argument.
\<close>

end
